(* ===== verification/Prelude.thy ===== *)
theory Prelude
  imports Complex_Main "HOL-Library.Word"
begin

text \<open>
  What every component shares: the names of the model's machine types, the two fact
  collections of the development and a few generic list lemmas.

  Rust's fixed-width integers are modelled by \<open>nat\<close> and \<open>int\<close> with the width written out
  where a definition can reach it (\<open>saturate_i64\<close>, \<open>u16_sat_add\<close>, the casts of theory
  F64); raw bytes are \<open>8 word\<close>.
\<close>

named_theorems bounds_lemmas \<open>range facts about machine values\<close>
named_theorems inv_lemmas \<open>operations preserve the component invariants\<close>

type_synonym byte = "8 word"

text \<open>Rust's \<open>i64::MIN\<close> and \<open>i64::MAX\<close>, \<open>u16::MAX\<close>, \<open>usize::MAX\<close>.\<close>

definition i64_min :: int where "i64_min = - (2 ^ 63)"
definition i64_max :: int where "i64_max = 2 ^ 63 - 1"
definition u16_max :: nat where "u16_max = 2 ^ 16 - 1"
definition u32_max :: nat where "u32_max = 2 ^ 32 - 1"
definition u64_max :: nat where "u64_max = 2 ^ 64 - 1"

definition in_i64 :: "int \<Rightarrow> bool" where
  "in_i64 x \<longleftrightarrow> i64_min \<le> x \<and> x \<le> i64_max"

definition saturate_i64 :: "int \<Rightarrow> int" where
  "saturate_i64 x = max i64_min (min i64_max x)"

text \<open>\<open>u16::saturating_add\<close>; \<open>saturating_sub\<close> is truncated subtraction on \<open>nat\<close>.\<close>

definition u16_sat_add :: "nat \<Rightarrow> nat \<Rightarrow> nat" where
  "u16_sat_add a b = min u16_max (a + b)"

lemma saturate_i64_in [bounds_lemmas, simp]: "in_i64 (saturate_i64 x)"
  by (simp add: in_i64_def saturate_i64_def i64_min_def i64_max_def)

lemma saturate_i64_id [simp]: "in_i64 x \<Longrightarrow> saturate_i64 x = x"
  by (simp add: in_i64_def saturate_i64_def)

lemma u16_sat_add_le [bounds_lemmas]: "u16_sat_add a b \<le> u16_max"
  by (simp add: u16_sat_add_def)

text \<open>Strictly alternating lists: no two neighbours agree under \<open>f\<close>.\<close>

fun alternating :: "('a \<Rightarrow> 'b) \<Rightarrow> 'a list \<Rightarrow> bool" where
  "alternating f [] = True"
| "alternating f [x] = True"
| "alternating f (x # y # zs) = (f x \<noteq> f y \<and> alternating f (y # zs))"

lemma alternating_append:
  "alternating f (xs @ ys) \<longleftrightarrow>
     alternating f xs \<and> alternating f ys \<and> (xs \<noteq> [] \<longrightarrow> ys \<noteq> [] \<longrightarrow> f (last xs) \<noteq> f (hd ys))"
proof (induction f xs rule: alternating.induct)
  case (2 f x)
  then show ?case by (cases ys) auto
qed auto

lemma alternating_tl: "alternating f (x # xs) \<Longrightarrow> alternating f xs"
  by (cases xs) auto

lemma alternating_map: "alternating f (map g xs) = alternating (f \<circ> g) xs"
  by (induction "f \<circ> g" xs rule: alternating.induct) auto

lemma alternating_butlast: "alternating f xs \<Longrightarrow> alternating f (butlast xs)"
  by (cases xs rule: rev_cases) (auto simp: alternating_append)

text \<open>An absolute error bound as two linear inequalities, for linear arithmetic.\<close>

lemma abs_errD:
  fixes x y e :: "'a :: linordered_idom"
  assumes "\<bar>y - x\<bar> \<le> e"
  shows "y \<le> x + e" and "x \<le> y + e"
  using assms by (auto simp: abs_le_iff algebra_simps)

lemma abs_errI:
  fixes x y e :: "'a :: linordered_idom"
  shows "y \<le> x + e \<Longrightarrow> x \<le> y + e \<Longrightarrow> \<bar>y - x\<bar> \<le> e"
  by (simp add: abs_le_iff algebra_simps)

lemma filter_map_append:
  "List.map_filter f (xs @ ys) = List.map_filter f xs @ List.map_filter f ys"
  by (simp add: List.map_filter_def)

end
