(* ===== verification/Effects.thy ===== *)
theory Effects
  imports Prelude
begin

text \<open>
  Fallible operations on an outside world: the error values of \<open>anyhow\<close>, and Rust's \<open>?\<close> as
  sequencing of state-passing functions. A world is whatever an operation acts on: the USB
  driver below the radio, the radio below the arbiter, the arbiter below the server.
\<close>

text \<open>An error is the driver's own text, a message of \<open>bail!\<close> or \<open>ensure!\<close> with the numbers it
  prints, or another error with context added to it.\<close>

datatype error =
    Driver_Error string
  | Message string "nat list"
  | Context string error

type_synonym ('w, 'a) io = "'w \<Rightarrow> (error + 'a) \<times> 'w"

definition ensure :: "bool \<Rightarrow> error \<Rightarrow> error + unit" where
  "ensure b e = (if b then Inr () else Inl e)"

definition pure_io :: "error + 'a \<Rightarrow> ('w, 'a) io" where "pure_io r w = (r, w)"

text \<open>\<open>let a = m?; f(a)\<close>\<close>

definition and_then :: "('w, 'a) io \<Rightarrow> ('a \<Rightarrow> ('w, 'b) io) \<Rightarrow> ('w, 'b) io" where
  "and_then m f w = (case m w of (Inl e, w1) \<Rightarrow> (Inl e, w1) | (Inr a, w1) \<Rightarrow> f a w1)"

fun add_context :: "string \<Rightarrow> error + 'a \<Rightarrow> error + 'a" where
  "add_context c (Inl e) = Inl (Context c e)"
| "add_context c (Inr a) = Inr a"

definition is_ok :: "error + 'a \<Rightarrow> bool" where
  "is_ok r = (case r of Inl _ \<Rightarrow> False | Inr _ \<Rightarrow> True)"

lemma is_ok_simps [simp]: "is_ok (Inr a)" "\<not> is_ok (Inl e)"
  by (simp_all add: is_ok_def)

lemma is_ok_context [simp]: "is_ok (add_context c r) = is_ok r"
  by (cases r) simp_all

text \<open>What holds of a world after a sequence, from what holds after its parts.\<close>

lemma and_then_cases:
  "(\<And>e w1. m w = (Inl e, w1) \<Longrightarrow> P (Inl e, w1)) \<Longrightarrow>
   (\<And>a w1. m w = (Inr a, w1) \<Longrightarrow> P (f a w1)) \<Longrightarrow> P (and_then m f w)"
  by (auto simp: and_then_def split: prod.split sum.split)

end
