(* ===== verification/Wire.thy ===== *)
theory Wire
  imports Effects
begin

text \<open>
  \<open>wire.rs\<close>: the protocol's requests, messages and the validation of a transmit request.
  Strings are Isabelle strings; the text of a refusal is kept as the value it renders
  (\<open>invalid\<close>, and \<open>error_text\<close> for the server's), one constructor per format string.
  Reading and writing JSON is serde's and is a parameter of the server.
\<close>

section \<open>Requests\<close>

definition protocol_version :: nat where "protocol_version = 1"

text \<open>\<open>u32\<close>, \<open>u64\<close>, \<open>u16\<close> fields are \<open>nat\<close>, \<open>i64\<close> ones \<open>int\<close>; the ranges are in \<open>wf_transmit\<close>.\<close>

record transmit =
  tx_frequency :: nat
  tx_timings :: "int list"
  tx_repeat :: nat
  tx_gap_us :: nat
  tx_txvga_db :: "nat option"
  tx_amp :: bool

record configure_rx =
  rx_frequency_opt :: "nat option"
  rx_enable :: bool

datatype request_payload = Transmit transmit | Configure_Rx configure_rx | Status_Request

record request =
  req_v :: nat
  req_id :: "string option"
  req_payload :: request_payload

section \<open>Messages\<close>

datatype device_state = Receiving | Transmitting | Idle | Faulted

record rx_frame =
  fr_frequency :: nat
  fr_timings :: "int list"
  fr_rssi :: nat
  fr_timestamp_ms :: nat

record counters =
  c_rx_frames :: nat
  c_transmissions :: nat
  c_burst_overflows :: nat
  c_device_faults :: nat

definition counters_default :: counters where
  "counters_default = \<lparr>c_rx_frames = 0, c_transmissions = 0, c_burst_overflows = 0, c_device_faults = 0\<rparr>"

record rx_status =
  rs_enabled :: bool
  rs_frequency :: nat
  rs_sample_rate :: nat
  rs_threshold :: "nat option"

text \<open>\<open>env!("CARGO_PKG_VERSION")\<close>, from the package's \<open>Cargo.toml\<close>.\<close>

definition daemon_version :: string where "daemon_version = ''0.2.0''"

record status =
  st_daemon_version :: string
  st_protocol_version :: nat
  st_state :: device_state
  st_device :: "string option"
  st_rx :: rx_status
  st_counters :: counters

datatype invalid =
    Empty
  | Zero_Timing
  | Too_Many_Timings nat
  | Frequency_Out_Of_Range nat
  | Air_Time_Too_Long int
  | Gain_Too_High nat

text \<open>The texts the server answers with: a parse error, a version refusal, a validation
  refusal, a receiver frequency refusal, an error from the radio, and the two ways the radio
  thread can be gone.\<close>

datatype error_text =
    Could_Not_Parse error
  | Version_Not_Supported nat
  | Refused invalid
  | Rx_Frequency_Out_Of_Range nat
  | From_Radio error
  | Radio_Thread_Gone
  | Radio_Thread_Dropped

datatype message_payload =
    Transmitted int
  | Error error_text
  | Status status
  | Rx_Frame rx_frame
  | Device_State device_state

record message =
  msg_v :: nat
  msg_id :: "string option"
  msg_payload :: message_payload

definition reply :: "string option \<Rightarrow> message_payload \<Rightarrow> message" where
  "reply i p = \<lparr>msg_v = protocol_version, msg_id = i, msg_payload = p\<rparr>"

definition event :: "message_payload \<Rightarrow> message" where
  "event p = \<lparr>msg_v = protocol_version, msg_id = None, msg_payload = p\<rparr>"

section \<open>Air time\<close>

definition max_timings :: nat where "max_timings = 8192"
definition max_air_time_us :: int where "max_air_time_us = 30000000"

text \<open>The \<open>i64\<close> operations: the saturating ones, and \<open>*\<close>, which in the release profile wraps.\<close>

definition wrap_i64 :: "int \<Rightarrow> int" where
  "wrap_i64 x = (x + 2 ^ 63) mod 2 ^ 64 - 2 ^ 63"

definition sat_add :: "int \<Rightarrow> int \<Rightarrow> int" where "sat_add a b = saturate_i64 (a + b)"
definition sat_mul :: "int \<Rightarrow> int \<Rightarrow> int" where "sat_mul a b = saturate_i64 (a * b)"
definition sat_abs :: "int \<Rightarrow> int" where "sat_abs a = saturate_i64 \<bar>a\<bar>"

definition air_time_us :: "transmit \<Rightarrow> int" where
  "air_time_us t =
     (let frame = foldl (\<lambda>total t. sat_add total (sat_abs t)) 0 (tx_timings t);
          gaps = wrap_i64 (int (tx_repeat t) * int (tx_gap_us t))
      in sat_add (sat_mul frame (int (tx_repeat t) + 1)) gaps)"

definition validate :: "transmit \<Rightarrow> invalid + unit" where
  "validate t =
     (if tx_timings t = [] then Inl Empty
      else if max_timings < length (tx_timings t) then Inl (Too_Many_Timings (length (tx_timings t)))
      else if 0 \<in> set (tx_timings t) then Inl Zero_Timing
      else if \<not> (1000000 \<le> tx_frequency t \<and> tx_frequency t \<le> 6000000000)
      then Inl (Frequency_Out_Of_Range (tx_frequency t))
      else case tx_txvga_db t of
             Some g \<Rightarrow> if 47 < g then Inl (Gain_Too_High g)
                       else if max_air_time_us < air_time_us t then Inl (Air_Time_Too_Long (air_time_us t))
                       else Inr ()
           | None \<Rightarrow> if max_air_time_us < air_time_us t then Inl (Air_Time_Too_Long (air_time_us t))
                     else Inr ())"

text \<open>What the field types guarantee of a decoded request.\<close>

definition wf_transmit :: "transmit \<Rightarrow> bool" where
  "wf_transmit t \<longleftrightarrow>
     tx_frequency t \<le> u64_max \<and> (\<forall>x \<in> set (tx_timings t). in_i64 x) \<and>
     tx_repeat t \<le> u32_max \<and> tx_gap_us t \<le> u32_max \<and>
     (\<forall>g. tx_txvga_db t = Some g \<longrightarrow> g \<le> u16_max)"

section \<open>The air time the request really asks for\<close>

definition true_air_time :: "transmit \<Rightarrow> int" where
  "true_air_time t =
     sum_list (map abs (tx_timings t)) * (int (tx_repeat t) + 1) + int (tx_repeat t) * int (tx_gap_us t)"

lemma saturate_mono: "a \<le> b \<Longrightarrow> saturate_i64 a \<le> saturate_i64 b"
  by (auto simp: saturate_i64_def)

lemma saturate_cap: "b \<le> i64_max \<Longrightarrow> 0 \<le> x \<Longrightarrow> min (saturate_i64 x) b = min x b"
  by (auto simp: saturate_i64_def i64_min_def)

lemma wrap_i64_id: "in_i64 x \<Longrightarrow> wrap_i64 x = x"
  by (simp add: wrap_i64_def in_i64_def i64_min_def i64_max_def)

lemma wrap_i64_range [bounds_lemmas]: "in_i64 (wrap_i64 x)"
  using pos_mod_bound [of "2 ^ 64" "x + 2 ^ 63"] pos_mod_sign [of "2 ^ 64" "x + 2 ^ 63"]
  by (simp add: wrap_i64_def in_i64_def i64_min_def i64_max_def)

text \<open>Saturation is exact below the ceiling and never drops to it: the frame sum and the
  product are the true values capped at \<open>i64::MAX\<close>.\<close>

definition cap :: "int \<Rightarrow> int" where "cap x = min x i64_max"

lemma saturate_nonneg: "0 \<le> x \<Longrightarrow> saturate_i64 x = cap x"
  by (auto simp: saturate_i64_def cap_def i64_min_def i64_max_def)

lemma cap_nonneg: "0 \<le> x \<Longrightarrow> 0 \<le> cap x"
  by (simp add: cap_def i64_max_def)

lemma cap_cap_add: "0 \<le> x \<Longrightarrow> 0 \<le> y \<Longrightarrow> cap (cap x + cap y) = cap (x + y)"
  by (auto simp: cap_def i64_max_def)

lemma cap_cap_add_left: "0 \<le> x \<Longrightarrow> 0 \<le> y \<Longrightarrow> cap (cap x + y) = cap (x + y)"
  by (auto simp: cap_def i64_max_def)

lemma cap_mul: "0 \<le> x \<Longrightarrow> 1 \<le> n \<Longrightarrow> cap (cap x * n) = cap (x * n)"
proof (cases "x \<le> i64_max")
  case False
  assume n: "0 \<le> x" "1 \<le> n"
  then have "i64_max * 1 \<le> i64_max * n" by (intro mult_left_mono) (simp_all add: i64_max_def)
  moreover have "i64_max * n \<le> x * n" using False n by (intro mult_right_mono) simp_all
  ultimately show ?thesis using False by (simp add: cap_def)
qed (simp add: cap_def)

lemma frame_sum:
  "0 \<le> a \<Longrightarrow> foldl (\<lambda>total t. sat_add total (sat_abs t)) (cap a) ts = cap (a + sum_list (map abs ts))"
proof (induction ts arbitrary: a)
  case (Cons t ts)
  have "sat_add (cap a) (sat_abs t) = cap (a + \<bar>t\<bar>)"
    using Cons.prems by (simp add: sat_add_def sat_abs_def saturate_nonneg cap_nonneg cap_cap_add)
  then show ?case using Cons.IH [of "a + \<bar>t\<bar>"] Cons.prems by (simp add: add.assoc)
qed simp

lemma sum_abs_nonneg: "0 \<le> sum_list (map abs (ts :: int list))"
  by (induction ts) auto

lemma air_time_wrapped:
  assumes "wf_transmit t"
  shows "air_time_us t = saturate_i64
     (cap (sum_list (map abs (tx_timings t)) * (int (tx_repeat t) + 1)) +
      wrap_i64 (int (tx_repeat t) * int (tx_gap_us t)))"
proof -
  let ?s = "sum_list (map abs (tx_timings t))"
  have "foldl (\<lambda>total t. sat_add total (sat_abs t)) 0 (tx_timings t) = cap ?s"
    using frame_sum [of 0 "tx_timings t"] by (simp add: cap_def i64_max_def)
  moreover have "sat_mul (cap ?s) (int (tx_repeat t) + 1) = cap (?s * (int (tx_repeat t) + 1))"
    using cap_mul [of ?s "int (tx_repeat t) + 1"] sum_abs_nonneg [of "tx_timings t"]
    by (simp add: sat_mul_def saturate_nonneg cap_nonneg)
  ultimately show ?thesis by (simp add: air_time_us_def sat_add_def Let_def)
qed

lemma air_time_exact:
  assumes "wf_transmit t" "int (tx_repeat t) * int (tx_gap_us t) \<le> i64_max"
  shows "air_time_us t = cap (true_air_time t)"
proof -
  let ?s = "sum_list (map abs (tx_timings t)) * (int (tx_repeat t) + 1)"
  let ?g = "int (tx_repeat t) * int (tx_gap_us t)"
  have p: "0 \<le> ?s" "0 \<le> ?g" using sum_abs_nonneg by simp_all
  then have "in_i64 ?g" using assms(2) order_trans [of i64_min 0 ?g] by (simp only: in_i64_def) (simp add: i64_min_def)
  then have "wrap_i64 ?g = ?g" by (rule wrap_i64_id)
  then show ?thesis
    using p assms(1) cap_cap_add_left [of ?s ?g] cap_nonneg [of ?s]
    by (simp add: air_time_wrapped saturate_nonneg true_air_time_def)
qed

section \<open>What validation lets through\<close>

definition acceptable :: "transmit \<Rightarrow> bool" where
  "acceptable t \<longleftrightarrow>
     tx_timings t \<noteq> [] \<and> length (tx_timings t) \<le> 8192 \<and> 0 \<notin> set (tx_timings t) \<and>
     1000000 \<le> tx_frequency t \<and> tx_frequency t \<le> 6000000000 \<and>
     (\<forall>g. tx_txvga_db t = Some g \<longrightarrow> g \<le> 47) \<and> air_time_us t \<le> 30000000"

lemma validate_acceptable: "validate t = Inr () \<longleftrightarrow> acceptable t"
  by (auto simp: validate_def acceptable_def max_timings_def max_air_time_us_def not_less split: option.splits)

lemma air_time_cap_le:
  "wf_transmit t \<Longrightarrow> int (tx_repeat t) * int (tx_gap_us t) \<le> i64_max \<Longrightarrow>
   air_time_us t \<le> 30000000 \<longleftrightarrow> true_air_time t \<le> 30000000"
  by (simp add: air_time_exact cap_def i64_max_def min_le_iff_disj)

text \<open>C9: Validation accepts exactly the requests the documentation describes. As long as the
  total of the gaps fits an \<open>i64\<close>, a decoded request passes if and only if it has between one
  and 8192 timings, none of them zero, a frequency from 1 MHz to 6 GHz, a gain of at most 47 dB
  and at most 30 seconds of air time, computed without overflow: the saturating sums never
  turn a request that is too long into one that passes.\<close>

lemma validate_iff:
  assumes "wf_transmit t" and "int (tx_repeat t) * int (tx_gap_us t) \<le> i64_max"
  shows "validate t = Inr () \<longleftrightarrow>
     tx_timings t \<noteq> [] \<and> length (tx_timings t) \<le> 8192 \<and> 0 \<notin> set (tx_timings t) \<and>
     1000000 \<le> tx_frequency t \<and> tx_frequency t \<le> 6000000000 \<and>
     (\<forall>g. tx_txvga_db t = Some g \<longrightarrow> g \<le> 47) \<and> true_air_time t \<le> 30000000"
  unfolding validate_acceptable acceptable_def air_time_cap_le [OF assms] ..

definition demo_transmit :: transmit where
  "demo_transmit = \<lparr>tx_frequency = 315000000, tx_timings = [500, -500, 500], tx_repeat = 4, tx_gap_us = 4000,
     tx_txvga_db = Some 30, tx_amp = False\<rparr>"

lemma wf_demo_transmit: "wf_transmit demo_transmit"
  by (simp add: wf_transmit_def demo_transmit_def u64_max_def u32_max_def u16_max_def in_i64_def i64_min_def i64_max_def)

lemma validate_iff_witness: "validate demo_transmit = Inr ()"
  by (rule validate_iff [THEN iffD2, OF wf_demo_transmit])
    (simp_all add: demo_transmit_def i64_max_def true_air_time_def)

text \<open>Past \<open>i64::MAX\<close> the gaps wrap once, to a negative number.\<close>

lemma gaps_wrapped:
  assumes "wf_transmit t" "i64_max < int (tx_repeat t) * int (tx_gap_us t)"
  shows "wrap_i64 (int (tx_repeat t) * int (tx_gap_us t)) = int (tx_repeat t) * int (tx_gap_us t) - 2 ^ 64 \<and>
     int (tx_repeat t) * int (tx_gap_us t) < 2 ^ 64"
proof -
  let ?g = "int (tx_repeat t) * int (tx_gap_us t)"
  have "?g \<le> int u32_max * int u32_max"
    using assms(1) by (intro mult_mono) (simp_all add: wf_transmit_def)
  then have g: "?g < 2 ^ 64" by (simp add: u32_max_def)
  have "(?g + 2 ^ 63) mod 2 ^ 64 = (?g + 2 ^ 63 - 2 ^ 64) mod 2 ^ 64" by (rule sym) (rule minus_mod_self2)
  also have "\<dots> = ?g + 2 ^ 63 - 2 ^ 64" using g assms(2) by (intro mod_pos_pos_trivial) (simp_all add: i64_max_def)
  finally show ?thesis using g by (simp add: wrap_i64_def)
qed

lemma air_time_overflown:
  assumes "wf_transmit t" "i64_max < int (tx_repeat t) * int (tx_gap_us t)"
  shows "air_time_us t = cap (sum_list (map abs (tx_timings t)) * (int (tx_repeat t) + 1)) +
     int (tx_repeat t) * int (tx_gap_us t) - 2 ^ 64"
proof -
  let ?s = "sum_list (map abs (tx_timings t)) * (int (tx_repeat t) + 1)"
  have "0 \<le> ?s" using sum_abs_nonneg by simp
  then have "0 \<le> cap ?s" "cap ?s \<le> i64_max" using cap_nonneg by (simp_all add: cap_def)
  then show ?thesis unfolding air_time_wrapped [OF assms(1)] using gaps_wrapped [OF assms] assms(2)
    by (simp add: saturate_i64_def i64_min_def i64_max_def)
qed

definition hostile_transmit :: transmit where
  "hostile_transmit = \<lparr>tx_frequency = 315000000, tx_timings = [1], tx_repeat = 2 ^ 32 - 1, tx_gap_us = 2 ^ 32 - 1,
     tx_txvga_db = None, tx_amp = False\<rparr>"

text \<open>C20: A request whose gaps alone are too long for an \<open>i64\<close> is judged by a wrapped total. For
  every decoded request whose \<open>repeat * gap_us\<close> exceeds \<open>i64::MAX\<close>, the air time computed is the
  frames' share, which saturates, plus the gaps less \<open>2 ^ 64\<close>; a well-formed one is accepted
  if and only if that is at most 30 seconds, although what it asks for is more than 292 thousand
  years. So frames of up to 30 seconds in all make it pass whatever the overflowing gaps.\<close>

lemma gap_overflow_accepted:
  assumes "wf_transmit t" and "i64_max < int (tx_repeat t) * int (tx_gap_us t)"
  shows "air_time_us t = cap (sum_list (map abs (tx_timings t)) * (int (tx_repeat t) + 1)) +
       int (tx_repeat t) * int (tx_gap_us t) - 2 ^ 64 \<and>
     (validate t = Inr () \<longleftrightarrow>
       tx_timings t \<noteq> [] \<and> length (tx_timings t) \<le> 8192 \<and> 0 \<notin> set (tx_timings t) \<and>
       1000000 \<le> tx_frequency t \<and> tx_frequency t \<le> 6000000000 \<and>
       (\<forall>g. tx_txvga_db t = Some g \<longrightarrow> g \<le> 47) \<and>
       cap (sum_list (map abs (tx_timings t)) * (int (tx_repeat t) + 1)) +
         int (tx_repeat t) * int (tx_gap_us t) \<le> 2 ^ 64 + 30000000) \<and>
     (sum_list (map abs (tx_timings t)) * (int (tx_repeat t) + 1) \<le> 30000000 \<longrightarrow> air_time_us t \<le> 30000000) \<and>
     292000 * (365 * 24 * 3600 * 1000000) < true_air_time t"
proof -
  have s: "0 \<le> sum_list (map abs (tx_timings t)) * (int (tx_repeat t) + 1)" using sum_abs_nonneg by simp
  note a = air_time_overflown [OF assms]
  have "292000 * (365 * 24 * 3600 * 1000000) < true_air_time t"
    using s assms(2) by (simp add: true_air_time_def i64_max_def)
  moreover have "validate t = Inr () \<longleftrightarrow>
       tx_timings t \<noteq> [] \<and> length (tx_timings t) \<le> 8192 \<and> 0 \<notin> set (tx_timings t) \<and>
       1000000 \<le> tx_frequency t \<and> tx_frequency t \<le> 6000000000 \<and>
       (\<forall>g. tx_txvga_db t = Some g \<longrightarrow> g \<le> 47) \<and>
       cap (sum_list (map abs (tx_timings t)) * (int (tx_repeat t) + 1)) +
         int (tx_repeat t) * int (tx_gap_us t) \<le> 2 ^ 64 + 30000000"
    unfolding validate_acceptable acceptable_def a by (simp add: algebra_simps)
  moreover have "air_time_us t \<le> 30000000"
    if "sum_list (map abs (tx_timings t)) * (int (tx_repeat t) + 1) \<le> 30000000"
  proof -
    have "cap (sum_list (map abs (tx_timings t)) * (int (tx_repeat t) + 1)) \<le> 30000000"
      using that by (simp add: cap_def)
    then show ?thesis using a gaps_wrapped [OF assms] by linarith
  qed
  ultimately show ?thesis using a by blast
qed

text \<open>With \<open>repeat\<close> and \<open>gap_us\<close> at their maxima, which the field types allow.\<close>

lemma gap_overflow_accepted_witness:
  "air_time_us hostile_transmit = - 4294967295 \<and> validate hostile_transmit = Inr ()"
proof -
  have w: "wf_transmit hostile_transmit"
    by (simp add: wf_transmit_def hostile_transmit_def u64_max_def u32_max_def in_i64_def i64_min_def i64_max_def)
  have o: "i64_max < int (tx_repeat hostile_transmit) * int (tx_gap_us hostile_transmit)"
    by (simp add: hostile_transmit_def i64_max_def)
  show ?thesis using gap_overflow_accepted [OF w o] by (simp add: hostile_transmit_def cap_def i64_max_def)
qed

end
