(* ===== verification/Radio.thy ===== *)
theory Radio
  imports Effects
begin

text \<open>
  \<open>radio.rs\<close>, the parts that need no radio: the limits of the hardware, the padding and the
  chunking of transfers, and the hotplug filter.
\<close>

section \<open>Limits\<close>

definition xfer_align :: nat where "xfer_align = 512"
definition transfer_size :: nat where "transfer_size = 32768"
definition in_flight_transfers :: nat where "in_flight_transfers = 3"

definition validate_rx_gains :: "nat \<Rightarrow> nat \<Rightarrow> error + unit" where
  "validate_rx_gains lna vga =
     (case ensure (lna \<le> 40 \<and> lna mod 8 = 0) (Message ''LNA gain must be 0..=40 dB in 8 dB steps'' [lna]) of
        Inl e \<Rightarrow> Inl e
      | Inr _ \<Rightarrow> ensure (vga \<le> 62 \<and> vga mod 2 = 0) (Message ''VGA gain must be 0..=62 dB in 2 dB steps'' [vga]))"

definition validate_tx_gain :: "nat \<Rightarrow> error + unit" where
  "validate_tx_gain txvga = ensure (txvga \<le> 47) (Message ''TX VGA gain must be 0..=47 dB'' [txvga])"

definition validate_sample_rate :: "nat \<Rightarrow> error + unit" where
  "validate_sample_rate rate =
     ensure (2000000 \<le> rate \<and> rate \<le> 20000000) (Message ''sample rate must be 2-20 Msps'' [rate])"

section \<open>Transfers\<close>

text \<open>\<open>Vec::resize\<close> with zero, and \<open>slice::chunks\<close>.\<close>

definition pad_to_alignment :: "byte list \<Rightarrow> byte list" where
  "pad_to_alignment samples =
     (let remainder = length samples mod xfer_align
      in if remainder \<noteq> 0 then samples @ replicate (xfer_align - remainder) 0 else samples)"

function chunks :: "nat \<Rightarrow> 'a list \<Rightarrow> 'a list list" where
  "chunks n xs = (if xs = [] \<or> n = 0 then [] else take n xs # chunks n (drop n xs))"
  by pat_completeness auto
termination by (relation "measure (\<lambda>(n, xs). length xs)") auto

declare chunks.simps [simp del]

text \<open>The buffers a transmission writes: the samples in transfers, then silence to flush the
  transfers still in flight.\<close>

definition tx_transfers :: "byte list \<Rightarrow> byte list list" where
  "tx_transfers samples =
     chunks transfer_size samples @ replicate (in_flight_transfers + 1) (replicate transfer_size 0)"

section \<open>Hotplug\<close>

datatype hotplug_event = Connected nat nat | Disconnected

definition hackrf_vendor_id :: nat where "hackrf_vendor_id = 0x1d50"
definition hackrf_product_ids :: "nat list" where "hackrf_product_ids = [0x6089, 0x604b, 0xcc15]"

definition is_arrival :: "hotplug_event \<Rightarrow> unit option" where
  "is_arrival ev =
     (case ev of
        Connected v p \<Rightarrow> if v = hackrf_vendor_id \<and> p \<in> set hackrf_product_ids then Some () else None
      | Disconnected \<Rightarrow> None)"

definition watch_for_arrivals :: "hotplug_event list \<Rightarrow> unit list" where
  "watch_for_arrivals evs = List.map_filter is_arrival evs"

section \<open>Padding and chunking\<close>

lemma pad_to_alignment_shape:
  "\<exists>z < 512. pad_to_alignment s = s @ replicate z 0 \<and> length (pad_to_alignment s) mod 512 = 0"
proof (cases "length s mod 512 = 0")
  case True
  then show ?thesis by (intro exI [of _ 0]) (simp add: pad_to_alignment_def xfer_align_def)
next
  case False
  have "length s mod 512 < 512" by simp
  moreover have "(length s + (512 - length s mod 512)) mod 512 = 0"
  proof -
    define q r where "q = length s div 512" and "r = length s mod 512"
    have "length s = q * 512 + r" "r < 512" by (simp_all add: q_def r_def)
    then have "length s + (512 - r) = (q + 1) * 512" by simp
    then have "length s + (512 - length s mod 512) = (q + 1) * 512" by (simp add: r_def)
    then show ?thesis by simp
  qed
  ultimately show ?thesis using False
    by (intro exI [of _ "512 - length s mod 512"]) (simp add: pad_to_alignment_def xfer_align_def Let_def)
qed

lemma chunks_Nil [simp]: "chunks n [] = []"
  by (subst chunks.simps) simp

lemma chunks_step: "xs \<noteq> [] \<Longrightarrow> n \<noteq> 0 \<Longrightarrow> chunks n xs = take n xs # chunks n (drop n xs)"
  by (subst chunks.simps) simp

lemma concat_chunks: "n \<noteq> 0 \<Longrightarrow> concat (chunks n xs) = xs"
proof (induction n xs rule: chunks.induct)
  case (1 n xs)
  then show ?case by (cases "xs = []") (simp_all add: chunks_step)
qed

lemma chunk_sizes:
  assumes "n \<noteq> 0" "m dvd n" "m dvd length xs" "b \<in> set (chunks n xs)"
  shows "0 < length b \<and> length b \<le> n \<and> m dvd length b"
  using assms
proof (induction n xs rule: chunks.induct)
  case (1 n xs)
  have ne: "xs \<noteq> []" using "1.prems" by auto
  have "m dvd length (drop n xs)" using "1.prems"(2,3) by (simp add: dvd_diff_nat)
  moreover have "m dvd length (take n xs)" using "1.prems"(2,3) by (simp add: min_def)
  ultimately show ?case using 1 ne by (auto simp: chunks_step)
qed

end
