(* ===== verification/F64.thy ===== *)
theory F64
  imports Prelude
begin

text \<open>
  The part of Rust's \<open>f64\<close> the program uses: IEEE 754 binary64 with rounding to nearest,
  ties to even, and the saturating \<open>as\<close> casts to integers.

  A finite double is its rational value, so the two zeros are one value. The program never
  divides by a zero that could be negative (its divisors are \<open>f64::from(u32)\<close>, quotients
  of such values, and literals) and never prints the sign of a zero, so no operation it
  performs tells them apart.
\<close>

section \<open>Rounding a rational to 53 significant bits\<close>

fun blen :: "nat \<Rightarrow> nat" where
  "blen n = (if n = 0 then 0 else Suc (blen (n div 2)))"

declare blen.simps [simp del]

text \<open>The exponent of a positive rational: \<open>2 ^ e \<le> x < 2 ^ (e + 1)\<close>.\<close>

definition expo :: "rat \<Rightarrow> int" where
  "expo x = (if 1 \<le> x then int (blen (nat \<lfloor>x\<rfloor>)) - 1
             else - int (blen (nat (\<lceil>1 / x\<rceil> - 1))))"

definition round_even :: "rat \<Rightarrow> int" where
  "round_even x =
     (let f = \<lfloor>x\<rfloor>; d = x - of_int f
      in if d < 1/2 then f else if 1/2 < d then f + 1 else if even f then f else f + 1)"

definition rnd :: "rat \<Rightarrow> rat" where
  "rnd x = (if x = 0 then 0
            else let u = 2 powi (max (expo \<bar>x\<bar> - 52) (-1074))
                 in of_int (round_even (x / u)) * u)"

section \<open>The values and the operations\<close>

datatype f64 = Nan | Infinity bool | Fin rat

definition to_f64 :: "rat \<Rightarrow> f64" where
  "to_f64 x = (let y = rnd x in if 2 ^ 1024 \<le> \<bar>y\<bar> then Infinity (y < 0) else Fin y)"

definition f64_of_nat :: "nat \<Rightarrow> f64" where "f64_of_nat n = to_f64 (of_nat n)"
definition f64_of_int :: "int \<Rightarrow> f64" where "f64_of_int n = to_f64 (of_int n)"

fun f_mul :: "f64 \<Rightarrow> f64 \<Rightarrow> f64" where
  "f_mul Nan _ = Nan"
| "f_mul _ Nan = Nan"
| "f_mul (Infinity s) (Infinity t) = Infinity (s \<noteq> t)"
| "f_mul (Infinity s) (Fin y) = (if y = 0 then Nan else Infinity (s \<noteq> (y < 0)))"
| "f_mul (Fin x) (Infinity t) = (if x = 0 then Nan else Infinity ((x < 0) \<noteq> t))"
| "f_mul (Fin x) (Fin y) = to_f64 (x * y)"

fun f_div :: "f64 \<Rightarrow> f64 \<Rightarrow> f64" where
  "f_div Nan _ = Nan"
| "f_div _ Nan = Nan"
| "f_div (Infinity s) (Infinity t) = Nan"
| "f_div (Infinity s) (Fin y) = Infinity (s \<noteq> (y < 0))"
| "f_div (Fin x) (Infinity t) = Fin 0"
| "f_div (Fin x) (Fin y) =
     (if y = 0 then (if x = 0 then Nan else Infinity (x < 0)) else to_f64 (x / y))"

text \<open>\<open>f64::round\<close> rounds half away from zero; \<open>f64::max\<close> ignores a NaN.\<close>

definition round_away :: "rat \<Rightarrow> int" where
  "round_away x = (if 0 \<le> x then \<lfloor>x + 1/2\<rfloor> else - \<lfloor>1/2 - x\<rfloor>)"

fun f_round :: "f64 \<Rightarrow> f64" where
  "f_round (Fin x) = Fin (of_int (round_away x))"
| "f_round v = v"

fun f_ceil :: "f64 \<Rightarrow> f64" where
  "f_ceil (Fin x) = Fin (of_int \<lceil>x\<rceil>)"
| "f_ceil v = v"

fun f_max :: "f64 \<Rightarrow> f64 \<Rightarrow> f64" where
  "f_max Nan w = w"
| "f_max v Nan = v"
| "f_max (Infinity s) w = (if s then w else Infinity False)"
| "f_max v (Infinity t) = (if t then v else Infinity False)"
| "f_max (Fin x) (Fin y) = Fin (max x y)"

definition f_trunc :: "rat \<Rightarrow> int" where
  "f_trunc x = (if 0 \<le> x then \<lfloor>x\<rfloor> else \<lceil>x\<rceil>)"

text \<open>Rust's float-to-integer \<open>as\<close>: truncate, saturate at the type's ends, NaN to 0.\<close>

fun f_as_int :: "int \<Rightarrow> int \<Rightarrow> f64 \<Rightarrow> int" where
  "f_as_int lo hi Nan = 0"
| "f_as_int lo hi (Infinity s) = (if s then lo else hi)"
| "f_as_int lo hi (Fin x) = max lo (min hi (f_trunc x))"

definition f_as_i64 :: "f64 \<Rightarrow> int" where "f_as_i64 v = f_as_int i64_min i64_max v"
definition f_as_u64 :: "f64 \<Rightarrow> nat" where "f_as_u64 v = nat (f_as_int 0 (int u64_max) v)"
definition f_as_u16 :: "f64 \<Rightarrow> nat" where "f_as_u16 v = nat (f_as_int 0 (int u16_max) v)"

section \<open>The rounding error\<close>

lemma blen_0 [simp]: "blen 0 = 0"
  by (simp add: blen.simps)

lemma blen_bounds: "0 < n \<Longrightarrow> 0 < blen n \<and> 2 ^ (blen n - 1) \<le> n \<and> n < 2 ^ blen n"
proof (induction n rule: blen.induct)
  case (1 n)
  have e: "blen n = Suc (blen (n div 2))"
    using 1 by (simp add: blen.simps [of n])
  show ?case
  proof (cases "n div 2 = 0")
    case True
    then show ?thesis using 1 e by simp
  next
    case False
    then have ih: "0 < blen (n div 2)" "2 ^ (blen (n div 2) - 1) \<le> n div 2" "n div 2 < 2 ^ blen (n div 2)"
      using 1 by auto
    then have "2 ^ blen (n div 2) = 2 * (2 ^ (blen (n div 2) - 1) :: nat)"
      by (metis power_minus_mult mult.commute)
    then show ?thesis using ih e by simp linarith
  qed
qed

lemma expo_bounds:
  assumes "0 < x"
  shows "2 powi (expo x) \<le> x" and "x < 2 powi (expo x + 1)"
proof -
  have "2 powi (expo x) \<le> x \<and> x < 2 powi (expo x + 1)"
  proof (cases "1 \<le> x")
    case True
    let ?n = "nat \<lfloor>x\<rfloor>"
    have n: "0 < ?n" using True by simp
    have b: "0 < blen ?n" "2 ^ (blen ?n - 1) \<le> ?n" "?n < 2 ^ blen ?n"
      using blen_bounds [OF n] by auto
    have e: "expo x = int (blen ?n - 1)" "expo x + 1 = int (blen ?n)"
      using True b(1) by (auto simp: expo_def of_nat_diff)
    have "(2::rat) ^ (blen ?n - 1) \<le> of_nat ?n"
      using b(2) by (metis of_nat_le_iff of_nat_numeral of_nat_power)
    also have "of_nat ?n \<le> x" using True by (simp add: of_int_floor_le)
    finally have lo: "2 powi (expo x) \<le> x" unfolding e(1) by (simp add: power_int_of_nat)
    have "int ?n + 1 \<le> 2 ^ blen ?n"
      using b(3) by (metis Suc_leI of_nat_Suc of_nat_le_iff of_nat_numeral of_nat_power add.commute)
    then have "\<lfloor>x\<rfloor> < 2 ^ blen ?n" using True by simp
    then have "x < 2 ^ blen ?n" by (simp add: floor_less_iff)
    then have hi: "x < 2 powi (expo x + 1)" unfolding e(2) by (simp add: power_int_of_nat)
    show ?thesis using lo hi by simp
  next
    case False
    let ?c = "\<lceil>1 / x\<rceil>" and ?n = "nat (\<lceil>1 / x\<rceil> - 1)"
    have inv: "1 < 1 / x" using False assms by simp
    then have c: "2 \<le> ?c" by (simp add: le_ceiling_iff)
    then have n: "0 < ?n" and cn: "?c = int ?n + 1" by linarith+
    have b: "0 < blen ?n" "2 ^ (blen ?n - 1) \<le> ?n" "?n < 2 ^ blen ?n"
      using blen_bounds [OF n] by auto
    have e: "expo x = - int (blen ?n)" using False by (simp add: expo_def)
    have "int ?n + 1 \<le> 2 ^ blen ?n"
      using b(3) by (metis Suc_leI of_nat_Suc of_nat_le_iff of_nat_numeral of_nat_power add.commute)
    then have "?c \<le> 2 ^ blen ?n" using cn by simp
    then have "1 / x \<le> 2 ^ blen ?n" by (simp add: ceiling_le_iff)
    then have lo: "2 powi (expo x) \<le> x"
      unfolding e using assms by (simp add: power_int_minus field_simps)
    have "2 ^ (blen ?n - 1) < ?c" using b(2) cn
      by (metis less_add_one of_nat_le_iff of_nat_numeral of_nat_power order_le_less_trans)
    then have "2 ^ (blen ?n - 1) < 1 / x" by (simp add: less_ceiling_iff)
    moreover have "expo x + 1 = - int (blen ?n - 1)" using e b(1) by simp
    ultimately have hi: "x < 2 powi (expo x + 1)"
      using assms by (simp add: power_int_minus field_simps)
    show ?thesis using lo hi by simp
  qed
  then show "2 powi (expo x) \<le> x" and "x < 2 powi (expo x + 1)" by auto
qed

lemma round_even_dist: "\<bar>of_int (round_even x) - x\<bar> \<le> 1/2"
proof -
  have "of_int \<lfloor>x\<rfloor> \<le> x" "x < of_int \<lfloor>x\<rfloor> + 1" by linarith+
  then show ?thesis unfolding round_even_def Let_def by (auto simp: abs_le_iff)
qed

lemma round_even_of_int [simp]: "round_even (of_int n) = n"
  by (simp add: round_even_def)

lemma round_even_nonneg: "0 \<le> x \<Longrightarrow> 0 \<le> round_even x"
  by (simp add: round_even_def Let_def)

lemma rnd_0 [simp]: "rnd 0 = 0"
  by (simp add: rnd_def)

lemma rnd_nonneg: "0 \<le> x \<Longrightarrow> 0 \<le> rnd x"
  unfolding rnd_def Let_def by (simp add: round_even_nonneg)

text \<open>Half a unit in the last place, normal or subnormal.\<close>

lemma rnd_err_gen: "\<bar>rnd x - x\<bar> \<le> max (\<bar>x\<bar> / 2 ^ 53) (2 powi (-1075))"
proof (cases "x = 0")
  case False
  then have pos: "0 < \<bar>x\<bar>" by simp
  define e where "e = expo \<bar>x\<bar>"
  define u :: rat where "u = 2 powi (max (e - 52) (-1074))"
  have upos: "0 < u" by (simp add: u_def)
  have r: "rnd x = of_int (round_even (x / u)) * u"
    unfolding rnd_def Let_def u_def e_def [symmetric] using pos by simp
  have "rnd x - x = (of_int (round_even (x / u)) - x / u) * u"
    using upos by (simp add: r field_simps)
  then have "\<bar>rnd x - x\<bar> = \<bar>of_int (round_even (x / u)) - x / u\<bar> * u"
    using upos by (simp add: abs_mult)
  also have "\<dots> \<le> 1/2 * u" using round_even_dist [of "x / u"] upos by (intro mult_right_mono) auto
  also have "\<dots> \<le> max (\<bar>x\<bar> / 2 ^ 53) (2 powi (-1075))"
  proof (cases "-1074 \<le> e - 52")
    case True
    then have "max (e - 52) (-1074) = e - 52" by simp
    then have "u = 2 powi e / 2 ^ 52" unfolding u_def by (simp add: power_int_diff)
    then have "1/2 * u = 2 powi e / 2 ^ 53" by simp
    also have "\<dots> \<le> \<bar>x\<bar> / 2 ^ 53"
      using expo_bounds(1) [OF pos] unfolding e_def by (simp add: divide_right_mono)
    finally show ?thesis by simp
  next
    case False
    then have "max (e - 52) (-1074) = -1074" by simp
    then have "u = 2 powi (-1074)" unfolding u_def by simp
    then have "1/2 * u = 2 powi (-1075)" by (simp add: power_int_minus)
    then show ?thesis by simp
  qed
  finally show ?thesis .
qed simp

lemma rnd_err:
  assumes "2 powi (-1022) \<le> \<bar>x\<bar>"
  shows "\<bar>rnd x - x\<bar> \<le> \<bar>x\<bar> / 2 ^ 53"
proof -
  have "(2::rat) powi (-1075) = 2 powi (-1022) / 2 ^ 53" by (simp add: power_int_minus)
  also have "\<dots> \<le> \<bar>x\<bar> / 2 ^ 53" using assms by (simp add: divide_right_mono)
  finally show ?thesis using rnd_err_gen [of x] by simp
qed

lemma rnd_exact:
  assumes m: "\<bar>m\<bar> < 2 ^ 53" and k: "-1074 \<le> k"
  shows "rnd (of_int m * 2 powi k) = of_int m * 2 powi k"
proof (cases "m = 0")
  case True
  then show ?thesis by simp
next
  case False
  define x :: rat where "x = of_int m * 2 powi k"
  have pos: "0 < \<bar>x\<bar>" using False by (simp add: x_def)
  have "\<bar>x\<bar> = of_int \<bar>m\<bar> * 2 powi k" by (simp add: x_def abs_mult)
  also have "\<dots> < 2 ^ 53 * 2 powi k"
  proof -
    have "(of_int \<bar>m\<bar> :: rat) < of_int (2 ^ 53)" using m by (simp only: of_int_less_iff)
    then show ?thesis by (intro mult_strict_right_mono) auto
  qed
  also have "\<dots> = 2 powi (k + 53)" by (simp add: power_int_add)
  finally have lt: "\<bar>x\<bar> < 2 powi (k + 53)" .
  have "(2::rat) powi (expo \<bar>x\<bar>) < 2 powi (k + 53)"
    using expo_bounds(1) [OF pos] lt by linarith
  then have "expo \<bar>x\<bar> < k + 53"
    by (metis not_less one_le_numeral power_int_increasing linorder_not_le)
  then have le: "max (expo \<bar>x\<bar> - 52) (-1074) \<le> k" using k by simp
  define e where "e = max (expo \<bar>x\<bar> - 52) (-1074)"
  have q: "x / 2 powi e = of_int (m * 2 ^ nat (k - e))"
  proof -
    have "x / 2 powi e = of_int m * 2 powi (k - e)"
      by (simp add: x_def power_int_diff)
    also have "2 powi (k - e) = (2::rat) ^ nat (k - e)"
      using le e_def by (simp add: power_int_def)
    finally show ?thesis by simp
  qed
  have "rnd x = of_int (round_even (x / 2 powi e)) * 2 powi e"
    using pos by (simp add: rnd_def Let_def e_def)
  also have "\<dots> = x / 2 powi e * 2 powi e" unfolding q by (simp only: round_even_of_int)
  also have "\<dots> = x" by simp
  finally show ?thesis by (simp add: x_def)
qed

lemma rnd_of_int: "\<bar>n\<bar> < 2 ^ 53 \<Longrightarrow> rnd (of_int n) = of_int n"
  using rnd_exact [of n 0] by simp

lemma rnd_of_nat: "n < 2 ^ 53 \<Longrightarrow> rnd (of_nat n) = of_nat n"
  using rnd_of_int [of "int n"] by (simp add: of_nat_less_numeral_power_cancel_iff)

section \<open>What the operations compute on the program's values\<close>

lemma to_f64_Fin: "\<bar>rnd x\<bar> < 2 ^ 1024 \<Longrightarrow> to_f64 x = Fin (rnd x)"
  by (simp add: to_f64_def Let_def)

lemma to_f64_of_int: "\<bar>n\<bar> < 2 ^ 53 \<Longrightarrow> to_f64 (of_int n) = Fin (of_int n)"
proof -
  assume n: "\<bar>n\<bar> < 2 ^ 53"
  then have "(of_int \<bar>n\<bar> :: rat) < of_int (2 ^ 53)" by (simp only: of_int_less_iff)
  also have "(of_int (2 ^ 53) :: rat) < 2 ^ 1024" by simp
  finally have "\<bar>rnd (of_int n)\<bar> < 2 ^ 1024" using rnd_of_int [OF n] by simp
  then show ?thesis using rnd_of_int [OF n] by (simp add: to_f64_Fin)
qed

lemma f64_of_int_small: "\<bar>n\<bar> < 2 ^ 53 \<Longrightarrow> f64_of_int n = Fin (of_int n)"
  by (simp add: f64_of_int_def to_f64_of_int)

lemma f64_of_nat_small: "n < 2 ^ 53 \<Longrightarrow> f64_of_nat n = Fin (of_nat n)"
  using to_f64_of_int [of "int n"] by (simp add: f64_of_nat_def of_nat_less_numeral_power_cancel_iff)

text \<open>Between \<open>2 ^ -1022\<close> and \<open>2 ^ 1000\<close> a result is finite and within half an ulp.\<close>

definition f64_range :: "rat \<Rightarrow> bool" where
  "f64_range x \<longleftrightarrow> 2 powi (-1022) \<le> \<bar>x\<bar> \<and> \<bar>x\<bar> \<le> 2 ^ 1000"

lemma f64_range_easy: "1 / 2 ^ 100 \<le> x \<Longrightarrow> x \<le> 2 ^ 100 \<Longrightarrow> f64_range x"
proof -
  assume a: "1 / 2 ^ 100 \<le> x" and b: "x \<le> 2 ^ 100"
  have "(2::rat) powi (-1022) \<le> 1 / 2 ^ 100" by (simp add: power_int_minus)
  moreover have "(0::rat) < 1 / 2 ^ 100" by simp
  moreover have "(2::rat) ^ 100 \<le> 2 ^ 1000" by simp
  ultimately have "2 powi (-1022) \<le> x" "0 < x" "x \<le> 2 ^ 1000" using a b by linarith+
  then show ?thesis by (simp add: f64_range_def)
qed

lemma to_f64_err:
  assumes "f64_range x"
  obtains y where "to_f64 x = Fin y" and "\<bar>y - x\<bar> \<le> \<bar>x\<bar> / 2 ^ 53"
proof -
  have lo: "2 powi (-1022) \<le> \<bar>x\<bar>" and hi: "\<bar>x\<bar> \<le> 2 ^ 1000"
    using assms by (auto simp: f64_range_def)
  have err: "\<bar>rnd x - x\<bar> \<le> \<bar>x\<bar> / 2 ^ 53" by (rule rnd_err [OF lo])
  have "\<bar>x\<bar> / 2 ^ 53 \<le> \<bar>x\<bar>" by (simp add: divide_le_eq)
  then have "\<bar>rnd x\<bar> \<le> 2 ^ 1000 + 2 ^ 1000" using err hi by linarith
  also have "\<dots> < (2::rat) ^ 1024" by simp
  finally have "to_f64 x = Fin (rnd x)" by (rule to_f64_Fin)
  then show ?thesis using err that by blast
qed

text \<open>A result no larger than an integer rounds to no more than that integer.\<close>

lemma to_f64_small_abs:
  assumes "0 \<le> x" and "x \<le> of_int n" and "n < 2 ^ 50"
  obtains y where "to_f64 x = Fin y" and "0 \<le> y" and "y < of_int n + 1/2"
proof -
  have n: "(of_int n :: rat) < 2 ^ 50"
    using assms(3) by (metis of_int_less_iff of_int_numeral of_int_power)
  have "(2::rat) powi (-1075) < 1/2" by (simp add: power_int_minus)
  moreover have "\<bar>x\<bar> / 2 ^ 53 < 1/2" using assms n by simp
  ultimately have err: "\<bar>rnd x - x\<bar> < 1/2" using rnd_err_gen [of x] by linarith
  have "(2::rat) ^ 50 + 1/2 < 2 ^ 1024" by simp
  then have "\<bar>rnd x\<bar> < 2 ^ 1024" using err assms n by linarith
  then have "to_f64 x = Fin (rnd x)" by (rule to_f64_Fin)
  moreover have "rnd x < of_int n + 1/2" using err assms(2) by linarith
  ultimately show ?thesis using that rnd_nonneg [OF assms(1)] by blast
qed

lemma round_away_bounds: "\<bar>of_int (round_away x) - x\<bar> \<le> 1/2"
proof (cases "0 \<le> x")
  case True
  then have "round_away x = \<lfloor>x + 1/2\<rfloor>" by (simp add: round_away_def)
  then show ?thesis by linarith
next
  case False
  then have "round_away x = - \<lfloor>1/2 - x\<rfloor>" by (simp add: round_away_def)
  then show ?thesis by linarith
qed

lemma round_away_nonneg: "0 \<le> x \<Longrightarrow> 0 \<le> round_away x"
  by (simp add: round_away_def)

lemma round_away_of_int [simp]: "round_away (of_int n) = n"
  by (simp add: round_away_def floor_eq_iff)

lemma round_away_unique: "\<bar>x - of_int n\<bar> < 1/2 \<Longrightarrow> round_away x = n"
proof -
  assume a: "\<bar>x - of_int n\<bar> < 1/2"
  have "\<bar>of_int (round_away x) - (of_int n :: rat)\<bar> < 1"
    using a round_away_bounds [of x] by linarith
  then show ?thesis by linarith
qed

lemma round_away_mono: "x \<le> y \<Longrightarrow> round_away x \<le> round_away y"
  unfolding round_away_def by (auto simp: floor_mono intro: order_trans [of _ 0])

lemma f_trunc_of_int [simp]: "f_trunc (of_int n) = n"
  by (simp add: f_trunc_def)

lemma f_as_u64_of_int: "0 \<le> n \<Longrightarrow> n \<le> int u64_max \<Longrightarrow> f_as_u64 (Fin (of_int n)) = nat n"
  by (simp add: f_as_u64_def)

lemma f_as_u16_of_int: "0 \<le> n \<Longrightarrow> f_as_u16 (Fin (of_int n)) = min u16_max (nat n)"
  by (auto simp: f_as_u16_def min_def)

lemma f_as_i64_of_int: "in_i64 n \<Longrightarrow> f_as_i64 (Fin (of_int n)) = n"
  by (simp add: f_as_i64_def in_i64_def)

lemma f_as_i64_in [bounds_lemmas]: "in_i64 (f_as_i64 v)"
  by (cases v) (auto simp: f_as_i64_def in_i64_def i64_min_def i64_max_def)

lemma f_as_u16_le [bounds_lemmas]: "f_as_u16 v \<le> u16_max"
  by (cases v) (auto simp: f_as_u16_def u16_max_def)

lemma f_as_u64_le [bounds_lemmas]: "f_as_u64 v \<le> u64_max"
  by (cases v) (auto simp: f_as_u64_def u64_max_def)

section \<open>Two roundings: a scaled count\<close>

lemma f_mul_nat_err:
  assumes a: "1 / 2 ^ 20 \<le> a" "a \<le> 2 ^ 20" and n: "1 \<le> n" "n < 2 ^ 50"
  obtains y where "f_mul (f64_of_nat n) (to_f64 a) = Fin y"
    and "\<bar>y - of_nat n * a\<bar> \<le> of_nat n * a / 2 ^ 51"
proof -
  define N :: rat where "N = of_nat n"
  have N: "1 \<le> N" "N < 2 ^ 50" using n unfolding N_def
    by (simp_all add: of_nat_less_numeral_power_cancel_iff)
  have pos: "0 < a" using a(1) by (simp add: less_le_trans [of 0 "1 / 2 ^ 20"])
  have "f64_range a" using a by (intro f64_range_easy) simp_all
  then obtain a' where a': "to_f64 a = Fin a'" "\<bar>a' - a\<bar> \<le> a / 2 ^ 53"
    using pos by (auto elim: to_f64_err)
  have a'b: "a / 2 \<le> a'" "a' \<le> 2 * a" using abs_errD [OF a'(2)] pos by simp_all
  define M where "M = N * a"
  define P where "P = N * a'"
  have M: "a \<le> M" "M \<le> 2 ^ 50 * 2 ^ 20"
    using N a pos unfolding M_def by (simp add: mult_le_cancel_right1, intro mult_mono) simp_all
  have p: "M / 2 \<le> P" "P \<le> 2 * M"
    using mult_left_mono [OF a'b(1), of N] mult_left_mono [OF a'b(2), of N] N
    by (simp_all add: M_def P_def)
  have "f64_range P" using a M p by (intro f64_range_easy) simp_all
  then obtain y where y: "to_f64 P = Fin y" "\<bar>y - P\<bar> \<le> P / 2 ^ 53"
    using p M pos by (auto elim: to_f64_err)
  have "\<bar>P - M\<bar> = N * \<bar>a' - a\<bar>"
    using N by (simp add: M_def P_def abs_mult flip: right_diff_distrib)
  also have "\<dots> \<le> N * (a / 2 ^ 53)" using a' N by (intro mult_left_mono) auto
  finally have d: "\<bar>P - M\<bar> \<le> M / 2 ^ 53" by (simp add: M_def)
  have "\<bar>y - M\<bar> \<le> M / 2 ^ 51"
    using abs_errD [OF d] abs_errD [OF y(2)] p M(1) pos by (intro abs_errI) simp_all
  moreover have "f_mul (f64_of_nat n) (to_f64 a) = Fin y"
    using n y a' by (simp add: f64_of_nat_small N_def P_def)
  ultimately show ?thesis using that unfolding N_def M_def by blast
qed

lemma f_div_nat_err:
  assumes a: "1 / 2 ^ 20 \<le> a" "a \<le> 2 ^ 20" and n: "1 \<le> n" "n < 2 ^ 50"
  obtains y where "f_div (f64_of_nat n) (to_f64 a) = Fin y"
    and "\<bar>y - of_nat n / a\<bar> \<le> of_nat n / a / 2 ^ 51"
proof -
  define N :: rat where "N = of_nat n"
  have N: "1 \<le> N" "N < 2 ^ 50" using n unfolding N_def
    by (simp_all add: of_nat_less_numeral_power_cancel_iff)
  have pos: "0 < a" using a(1) by (simp add: less_le_trans [of 0 "1 / 2 ^ 20"])
  have "f64_range a" using a by (intro f64_range_easy) simp_all
  then obtain a' where a': "to_f64 a = Fin a'" "\<bar>a' - a\<bar> \<le> a / 2 ^ 53"
    using pos by (auto elim: to_f64_err)
  have a'b: "a / 2 \<le> a'" "a' \<le> 2 * a" using abs_errD [OF a'(2)] pos by simp_all
  have pos': "0 < a'" using a'b pos by simp
  define M where "M = N / a"
  have M: "0 < M" "1 / 2 ^ 20 \<le> M" "M \<le> 2 ^ 70"
  proof -
    show "0 < M" using N pos by (simp add: M_def)
    have "1 / 2 ^ 20 \<le> 1 / a" using a(2) pos by (simp add: field_simps)
    also have "\<dots> \<le> M" using N pos by (simp add: M_def divide_right_mono)
    finally show "1 / 2 ^ 20 \<le> M" .
    have "N \<le> 2 ^ 70 * a" using N a by simp
    then show "M \<le> 2 ^ 70" using pos by (simp add: M_def divide_le_eq mult.commute)
  qed
  define Q where "Q = N / a'"
  have "Q - M = M * ((a - a') / a')" using pos pos' by (simp add: M_def Q_def field_simps)
  then have "\<bar>Q - M\<bar> = M * (\<bar>a' - a\<bar> / a')"
    using M pos' by (simp add: abs_mult abs_divide abs_minus_commute)
  also have "\<dots> \<le> M * (2 / 2 ^ 53)"
  proof -
    have "\<bar>a' - a\<bar> \<le> 2 * a' / 2 ^ 53" using a'(2) a'b(1) by simp
    then have "\<bar>a' - a\<bar> / a' \<le> 2 / 2 ^ 53" using pos' by (simp add: divide_le_eq mult.commute)
    then show ?thesis using M by (intro mult_left_mono) auto
  qed
  finally have d: "\<bar>Q - M\<bar> \<le> 2 * M / 2 ^ 53" by simp
  have q: "M / 2 \<le> Q" "Q \<le> 2 * M" using abs_errD [OF d] M by simp_all
  then have "f64_range Q" using M by (intro f64_range_easy) simp_all
  then obtain y where y: "to_f64 Q = Fin y" "\<bar>y - Q\<bar> \<le> Q / 2 ^ 53"
    using q M by (auto elim: to_f64_err)
  have "\<bar>y - M\<bar> \<le> M / 2 ^ 51"
    using abs_errD [OF d] abs_errD [OF y(2)] M q by (intro abs_errI) simp_all
  moreover have "f_div (f64_of_nat n) (to_f64 a) = Fin y"
    using n y a' pos' by (simp add: f64_of_nat_small N_def Q_def)
  ultimately show ?thesis using that unfolding N_def M_def by blast
qed

end
