(* ===== verification/Ook_Levels.thy ===== *)
theory Ook_Levels
  imports F64 "HOL-Library.Multiset"
begin

text \<open>
  \<open>ook.rs\<close>, amplitude: the L1 envelope of a cs8 buffer, the exact histogram of its
  magnitudes, the percentiles read off it and the offline slicing threshold.
\<close>

section \<open>The envelope\<close>

text \<open>\<open>as_chunks::<2>().0\<close>: whole samples only, an odd trailing byte is dropped.\<close>

fun iq_samples :: "byte list \<Rightarrow> (byte \<times> byte) list" where
  "iq_samples (i # q # rest) = (i, q) # iq_samples rest"
| "iq_samples _ = []"

definition sample_magnitude :: "byte \<times> byte \<Rightarrow> nat" where
  "sample_magnitude s = nat (\<bar>sint (fst s)\<bar> + \<bar>sint (snd s)\<bar>) mod 2 ^ 16"

definition envelope :: "byte list \<Rightarrow> nat list" where
  "envelope iq = map sample_magnitude (iq_samples iq)"

definition peak_magnitude :: "byte list \<Rightarrow> nat" where
  "peak_magnitude iq =
     (case map sample_magnitude (iq_samples iq) of [] \<Rightarrow> 0 | m # ms \<Rightarrow> fold max ms m)"

section \<open>The histogram\<close>

definition mag_levels :: nat where "mag_levels = 258"

record levels =
  noise_floor :: nat
  signal :: nat
  threshold :: nat

record amplitude_histogram =
  hist_counts :: "nat list"
  hist_total :: nat
  hist_peak :: nat

definition hist_new :: amplitude_histogram where
  "hist_new = \<lparr>hist_counts = replicate mag_levels 0, hist_total = 0, hist_peak = 0\<rparr>"

definition add_magnitude :: "amplitude_histogram \<Rightarrow> nat \<Rightarrow> amplitude_histogram" where
  "add_magnitude h m =
     (let k = min m (mag_levels - 1)
      in h\<lparr>hist_counts := (hist_counts h)[k := hist_counts h ! k + 1],
           hist_total := hist_total h + 1,
           hist_peak := max (hist_peak h) m\<rparr>)"

definition add_iq :: "amplitude_histogram \<Rightarrow> byte list \<Rightarrow> amplitude_histogram" where
  "add_iq h iq = foldl (\<lambda>h s. add_magnitude h (sample_magnitude s)) h (iq_samples iq)"

fun percentile_scan :: "nat list \<Rightarrow> nat \<Rightarrow> nat \<Rightarrow> nat \<Rightarrow> nat" where
  "percentile_scan [] v acc target = mag_levels - 1"
| "percentile_scan (c # cs) v acc target =
     (if target \<le> acc + c then v else percentile_scan cs (v + 1) (acc + c) target)"

definition percentile :: "nat list \<Rightarrow> nat \<Rightarrow> f64 \<Rightarrow> nat" where
  "percentile hist tot p =
     (if tot = 0 then 0
      else percentile_scan hist 0 0 (f_as_u64 (f_ceil (f_mul (f64_of_nat tot) p))))"

definition hist_percentile :: "amplitude_histogram \<Rightarrow> f64 \<Rightarrow> nat" where
  "hist_percentile h p = percentile (hist_counts h) (hist_total h) p"

text \<open>The literals \<open>0.50\<close>, \<open>0.75\<close> and \<open>0.999\<close> as the doubles they denote.\<close>

definition p_median :: f64 where "p_median = to_f64 (1/2)"
definition p_quartile :: f64 where "p_quartile = to_f64 (3/4)"
definition p_signal :: f64 where "p_signal = to_f64 (999/1000)"

definition hist_levels :: "amplitude_histogram \<Rightarrow> f64 \<Rightarrow> levels" where
  "hist_levels h fr =
     (let floor = hist_percentile h p_median;
          sig = hist_percentile h p_signal;
          span = f64_of_nat (sig - floor)
      in \<lparr>noise_floor = floor, signal = sig,
          threshold = u16_sat_add floor (f_as_u16 (f_round (f_mul span fr)))\<rparr>)"

definition levels_of :: "nat list \<Rightarrow> f64 \<Rightarrow> levels" where
  "levels_of mag fr = hist_levels (foldl add_magnitude hist_new mag) fr"

section \<open>Envelope bounds\<close>

lemma sint_byte_abs: "\<bar>sint (b :: byte)\<bar> \<le> 128"
  using sint_range_size [of b] by (simp add: word_size abs_le_iff)

lemma sample_magnitude_eq: "sample_magnitude s = nat \<bar>sint (fst s)\<bar> + nat \<bar>sint (snd s)\<bar>"
  and sample_magnitude_le [bounds_lemmas]: "sample_magnitude s \<le> 256"
proof -
  have "\<bar>sint (fst s)\<bar> \<le> 128" "\<bar>sint (snd s)\<bar> \<le> 128" by (rule sint_byte_abs)+
  then show "sample_magnitude s = nat \<bar>sint (fst s)\<bar> + nat \<bar>sint (snd s)\<bar>"
    and "sample_magnitude s \<le> 256"
    by (simp_all add: sample_magnitude_def nat_add_distrib)
qed

lemma iq_samples_append: "even (length xs) \<Longrightarrow> iq_samples (xs @ ys) = iq_samples xs @ iq_samples ys"
  by (induction xs rule: iq_samples.induct) auto

lemma length_iq_samples: "length (iq_samples xs) = length xs div 2"
  by (induction xs rule: iq_samples.induct) auto

lemma envelope_append: "even (length xs) \<Longrightarrow> envelope (xs @ ys) = envelope xs @ envelope ys"
  by (simp add: envelope_def iq_samples_append)

lemma envelope_le [bounds_lemmas]: "m \<in> set (envelope iq) \<Longrightarrow> m \<le> 256"
  by (auto simp: envelope_def intro: sample_magnitude_le)

lemma fold_max_eq: "fold max ms (m::nat) = Max (set (m # ms))"
  by (simp only: Max.set_eq_fold)

lemma peak_magnitude_Max:
  "peak_magnitude iq = (if envelope iq = [] then 0 else Max (set (envelope iq)))"
  unfolding peak_magnitude_def envelope_def [symmetric]
  by (simp add: fold_max_eq split: list.split)

section \<open>The histogram counts exactly\<close>

definition clamp_mag :: "nat \<Rightarrow> nat" where
  "clamp_mag m = min m (mag_levels - 1)"

definition hist_of :: "nat list \<Rightarrow> amplitude_histogram" where
  "hist_of ms = foldl add_magnitude hist_new ms"

definition hist_ok :: "amplitude_histogram \<Rightarrow> nat list \<Rightarrow> bool" where
  "hist_ok h ms \<longleftrightarrow>
     hist_counts h = map (\<lambda>k. count_list (map clamp_mag ms) k) [0..<mag_levels] \<and>
     hist_total h = length ms \<and> hist_peak h = Max (insert 0 (set ms))"

lemma hist_ok_new: "hist_ok hist_new []"
  by (simp add: hist_ok_def hist_new_def map_replicate_const)

lemma hist_ok_add: 
  assumes "hist_ok h ms"
  shows "hist_ok (add_magnitude h m) (ms @ [m])"
proof -
  have k: "clamp_mag m < mag_levels" by (simp add: clamp_mag_def mag_levels_def)
  have "(hist_counts h)[clamp_mag m := hist_counts h ! clamp_mag m + 1] =
        map (count_list (map clamp_mag (ms @ [m]))) [0..<mag_levels]"
    using assms k by (intro nth_equalityI) (auto simp: hist_ok_def nth_list_update count_list_append)
  moreover have "max (Max (insert 0 (set ms))) m = Max (insert 0 (set (ms @ [m])))"
  proof -
    have "insert 0 (set (ms @ [m])) = insert m (insert 0 (set ms))" by auto
    also have "Max \<dots> = max m (Max (insert 0 (set ms)))" by (rule Max_insert) auto
    finally show ?thesis by (simp only: max.commute)
  qed
  ultimately show ?thesis
    using assms by (simp add: hist_ok_def add_magnitude_def Let_def clamp_mag_def)
qed

lemma hist_ok_foldl: "hist_ok h ms \<Longrightarrow> hist_ok (foldl add_magnitude h ns) (ms @ ns)"
proof (induction ns arbitrary: h ms)
  case (Cons n ns)
  then show ?case using hist_ok_add [OF Cons.prems, of n] Cons.IH [of _ "ms @ [n]"] by simp
qed simp

lemma hist_ok_of: "hist_ok (hist_of ms) ms"
  using hist_ok_foldl [OF hist_ok_new, of ms] by (simp add: hist_of_def)

lemma add_iq_envelope: "add_iq h iq = foldl add_magnitude h (envelope iq)"
  by (simp add: add_iq_def envelope_def foldl_map)

section \<open>Percentiles are order statistics\<close>

lemma percentile_scan_least:
  "acc < target \<Longrightarrow> target \<le> acc + sum_list cs \<Longrightarrow>
   \<exists>k < length cs. percentile_scan cs v acc target = v + k \<and>
     acc + sum_list (take k cs) < target \<and> target \<le> acc + sum_list (take (Suc k) cs)"
proof (induction cs arbitrary: v acc)
  case (Cons c cs)
  show ?case
  proof (cases "target \<le> acc + c")
    case True
    then show ?thesis using Cons.prems by (intro exI [of _ 0]) simp
  next
    case False
    then obtain k where "k < length cs" "percentile_scan cs (v + 1) (acc + c) target = v + 1 + k"
      "acc + c + sum_list (take k cs) < target" "target \<le> acc + c + sum_list (take (Suc k) cs)"
      using Cons.IH [of "acc + c" "v + 1"] Cons.prems by (auto simp: add.assoc)
    then show ?thesis using False by (intro exI [of _ "Suc k"]) (simp add: add.assoc)
  qed
qed simp

lemma sum_list_counts:
  "j \<le> n \<Longrightarrow> sum_list (take j (map (count_list xs) [0..<n])) = length (filter (\<lambda>x. x < j) xs)"
proof (induction j)
  case (Suc j)
  have "length (filter (\<lambda>x. x < Suc j) xs) = length (filter (\<lambda>x. x < j) xs) + count_list xs j"
    by (induction xs) auto
  moreover have "take (Suc j) (map (count_list xs) [0..<n]) =
      take j (map (count_list xs) [0..<n]) @ [count_list xs j]"
    using Suc.prems by (simp add: take_Suc_conv_app_nth)
  ultimately show ?case using Suc by simp
qed simp

lemma sorted_nth_less_iff:
  "sorted s \<Longrightarrow> i < length s \<Longrightarrow> s ! i < r \<longleftrightarrow> i < length (filter (\<lambda>x. x < (r::nat)) s)"
proof (induction s arbitrary: i)
  case (Cons x xs)
  show ?case
  proof (cases "x < r")
    case True
    then show ?thesis using Cons by (cases i) auto
  next
    case False
    then have "\<forall>y \<in> set (x # xs). \<not> y < r" using Cons.prems by auto
    then have "filter (\<lambda>x. x < r) (x # xs) = []" by (simp add: filter_empty_conv)
    moreover have "\<not> (x # xs) ! i < r"
      using \<open>\<forall>y \<in> set (x # xs). \<not> y < r\<close> Cons.prems(2) nth_mem by blast
    ultimately show ?thesis by simp
  qed
qed simp

lemma length_filter_sort: "length (filter P (sort xs)) = length (filter P (xs :: nat list))"
  by (metis mset_filter mset_sort size_mset)

text \<open>The rank the code asks for, and the element of the sorted window it reads there.\<close>

definition quantile_rank :: "nat \<Rightarrow> f64 \<Rightarrow> nat" where
  "quantile_rank n p = f_as_u64 (f_ceil (f_mul (f64_of_nat n) p))"

lemma hist_percentile_sorted:
  assumes "hist_ok h ms" and "1 \<le> quantile_rank (length ms) p" and "quantile_rank (length ms) p \<le> length ms"
  shows "hist_percentile h p = sort (map clamp_mag ms) ! (quantile_rank (length ms) p - 1)"
proof -
  define t where "t = quantile_rank (length ms) p"
  define xs where "xs = map clamp_mag ms"
  define cs where "cs = map (count_list xs) [0..<mag_levels]"
  have below: "sum_list (take j cs) = length (filter (\<lambda>x. x < j) xs)" if "j \<le> mag_levels" for j
    using sum_list_counts [OF that, of xs] by (simp add: cs_def)
  have "filter (\<lambda>x. x < mag_levels) xs = xs"
    by (auto simp: filter_id_conv xs_def clamp_mag_def mag_levels_def)
  then have all: "sum_list cs = length ms"
    using below [of mag_levels] by (simp add: cs_def xs_def)
  have ne: "length ms \<noteq> 0" using assms by auto
  have eq: "hist_percentile h p = percentile_scan cs 0 0 t"
    using assms(1) ne
    by (simp add: hist_percentile_def percentile_def hist_ok_def cs_def xs_def t_def quantile_rank_def)
  obtain k where k: "k < mag_levels" "percentile_scan cs 0 0 t = k"
    "sum_list (take k cs) < t" "t \<le> sum_list (take (Suc k) cs)"
    using percentile_scan_least [of 0 t cs 0] assms all by (auto simp: t_def cs_def)
  have len: "t - 1 < length (sort xs)" using assms by (simp add: t_def xs_def)
  have "\<not> sort xs ! (t - 1) < k"
    using sorted_nth_less_iff [OF sorted_sort len, of k] below [of k] k by (simp add: length_filter_sort)
  moreover have "sort xs ! (t - 1) < Suc k"
    using sorted_nth_less_iff [OF sorted_sort len, of "Suc k"] below [of "Suc k"] k assms
    by (simp add: length_filter_sort t_def)
  ultimately show ?thesis using eq k by (simp add: xs_def t_def)
qed

text \<open>The median and the third quartile are exact ranks, because \<open>0.5\<close> and \<open>0.75\<close> are doubles.\<close>

lemma p_median_eq: "p_median = Fin (1/2)" and p_quartile_eq: "p_quartile = Fin (3/4)"
proof -
  have "rnd (1/2) = 1/2" "rnd (3/4) = 3/4"
    using rnd_exact [of 1 "-1"] rnd_exact [of 3 "-2"] by (simp_all add: power_int_minus)
  then show "p_median = Fin (1/2)" "p_quartile = Fin (3/4)"
    by (simp_all add: p_median_def p_quartile_def to_f64_def)
qed

lemma f_as_u64_ceil: "0 \<le> y \<Longrightarrow> y \<le> 2 ^ 60 \<Longrightarrow> f_as_u64 (f_ceil (Fin y)) = nat \<lceil>y\<rceil>"
proof -
  assume y: "0 \<le> y" "y \<le> 2 ^ 60"
  then have "\<lceil>y\<rceil> \<le> 2 ^ 60" by (simp add: ceiling_le_iff)
  then show ?thesis using y by (simp add: f_as_u64_of_int u64_max_def)
qed

lemma quantile_rank_bounds:
  assumes q: "1/4 \<le> q" "q \<le> 1" and n: "1 \<le> n" "n < 2 ^ 50"
  obtains y where "quantile_rank n (to_f64 q) = nat \<lceil>y\<rceil>"
    and "\<bar>y - of_nat n * q\<bar> \<le> of_nat n * q / 2 ^ 51"
proof -
  define N :: rat where "N = of_nat n"
  define M where "M = N * q"
  have N: "1 \<le> N" "N < 2 ^ 50" using n unfolding N_def
    by (simp_all add: of_nat_less_numeral_power_cancel_iff)
  have q': "1 / 2 ^ 20 \<le> q" "q \<le> 2 ^ 20" using q by simp_all
  obtain y where y: "f_mul (f64_of_nat n) (to_f64 q) = Fin y" "\<bar>y - M\<bar> \<le> M / 2 ^ 51"
    using f_mul_nat_err [OF q' n] unfolding M_def N_def by blast
  have "0 < M" "M \<le> N" using N q unfolding M_def by (simp_all add: mult_le_cancel_left1)
  then have yb: "0 \<le> y" "y \<le> 2 ^ 60" using abs_errD [OF y(2)] N by simp_all
  have "quantile_rank n (to_f64 q) = f_as_u64 (f_ceil (Fin y))"
    using y by (simp add: quantile_rank_def)
  then have "quantile_rank n (to_f64 q) = nat \<lceil>y\<rceil>"
    using yb by (simp only: f_as_u64_ceil)
  then show ?thesis using that y(2) unfolding M_def N_def by blast
qed

lemma quantile_rank_in_range:
  assumes q: "1/4 \<le> q" "q \<le> 9999/10000" and n: "1 \<le> n" "n < 2 ^ 50"
  shows "1 \<le> quantile_rank n (to_f64 q)" and "quantile_rank n (to_f64 q) \<le> n"
proof -
  define N :: rat where "N = of_nat n"
  have N: "1 \<le> N" using n by (simp add: N_def)
  obtain y where y: "quantile_rank n (to_f64 q) = nat \<lceil>y\<rceil>" "\<bar>y - N * q\<bar> \<le> N * q / 2 ^ 51"
    using quantile_rank_bounds [of q n] q n unfolding N_def by auto
  define M where "M = N * q"
  have "N * (1/4) \<le> M" "M \<le> N * (9999/10000)"
    using q N unfolding M_def by (auto intro: mult_left_mono simp del: mult_le_cancel_left)
  then have "0 < y" "y \<le> N" using abs_errD [OF y(2) [folded M_def]] N by simp_all
  then have "0 < \<lceil>y\<rceil>" "\<lceil>y\<rceil> \<le> int n" by (simp_all add: ceiling_le_iff N_def)
  then show "1 \<le> quantile_rank n (to_f64 q)" and "quantile_rank n (to_f64 q) \<le> n"
    unfolding y(1) by linarith+
qed

lemma quantile_rank_mono:
  assumes q: "1/4 \<le> q" "q * 1001 \<le> r * 1000" "r \<le> 1" and n: "1 \<le> n" "n < 2 ^ 50"
  shows "quantile_rank n (to_f64 q) \<le> quantile_rank n (to_f64 r)"
proof -
  define N :: rat where "N = of_nat n"
  have N: "1 \<le> N" using n by (simp add: N_def)
  have qr: "q \<le> r" "q \<le> 1" using q by simp_all
  obtain y where y: "quantile_rank n (to_f64 q) = nat \<lceil>y\<rceil>" "\<bar>y - N * q\<bar> \<le> N * q / 2 ^ 51"
    using quantile_rank_bounds [of q n] q qr n unfolding N_def by auto
  obtain z where z: "quantile_rank n (to_f64 r) = nat \<lceil>z\<rceil>" "\<bar>z - N * r\<bar> \<le> N * r / 2 ^ 51"
    using quantile_rank_bounds [of r n] q qr n unfolding N_def by auto
  have "N * (q * 1001) \<le> N * (r * 1000)" using q N by (intro mult_left_mono) auto
  moreover have "0 < N * q" using N q by simp
  ultimately have "y \<le> z"
    using abs_errD [OF y(2)] abs_errD [OF z(2)] by simp
  then show ?thesis using y z by (simp add: ceiling_mono nat_mono)
qed

section \<open>The offline threshold\<close>

lemma levels_of_hist: "levels_of ms fr = hist_levels (hist_of ms) fr"
  by (simp add: levels_of_def hist_of_def)

lemma hist_percentile_le_cap: 
  assumes "hist_ok h ms" "1/4 \<le> q" "q \<le> 9999/10000" "1 \<le> length ms" "length ms < 2 ^ 50"
    and few: "quantile_rank (length ms) (to_f64 q) \<le> length (filter (\<lambda>m. m \<le> s) ms)"
  shows "hist_percentile h (to_f64 q) \<le> s"
proof -
  let ?r = "quantile_rank (length ms) (to_f64 q)" and ?xs = "map clamp_mag ms"
  note r = quantile_rank_in_range [OF assms(2-5)]
  have "filter (\<lambda>m. m \<le> s) ms = filter (\<lambda>m. m < Suc s) ms" by (simp add: less_Suc_eq_le)
  moreover have "length (filter (\<lambda>m. m < Suc s) ms) \<le> length (filter (\<lambda>m. m < Suc s) ?xs)"
    by (induction ms) (auto simp: clamp_mag_def)
  ultimately have "?r - 1 < length (filter (\<lambda>m. m < Suc s) (sort ?xs))"
    using few r by (simp add: length_filter_sort)
  then have "sort ?xs ! (?r - 1) < Suc s"
    using sorted_nth_less_iff [OF sorted_sort [of ?xs], of "?r - 1" "Suc s"] r by simp
  then show ?thesis using hist_percentile_sorted [OF assms(1) r] by simp
qed

lemma signal_quantile_rank_le:
  assumes n: "1 \<le> n" "n < 2 ^ 50" and k: "1001 * k \<le> n"
  shows "quantile_rank n p_signal \<le> n - k"
proof -
  define N :: rat where "N = of_nat n"
  define K :: rat where "K = of_nat k"
  have N: "1 \<le> N" using n by (simp add: N_def)
  have "of_nat (1001 * k) \<le> (of_nat n :: rat)" using k by (simp only: of_nat_le_iff)
  then have NK: "1001 * K \<le> N" by (simp add: N_def K_def)
  obtain y where y: "quantile_rank n p_signal = nat \<lceil>y\<rceil>"
    "\<bar>y - N * (999/1000)\<bar> \<le> N * (999/1000) / 2 ^ 51"
    using quantile_rank_bounds [of "999/1000" n] n unfolding N_def p_signal_def by auto
  have "y \<le> N - K" using abs_errD [OF y(2)] N NK by simp
  moreover have "k \<le> n" using k by simp
  ultimately have "\<lceil>y\<rceil> \<le> int (n - k)" by (simp add: ceiling_le_iff N_def K_def of_nat_diff)
  then show ?thesis unfolding y(1) by linarith
qed

lemma levels_ordered:
  assumes "1 \<le> length ms" "length ms < 2 ^ 50"
  shows "noise_floor (levels_of ms fr) \<le> signal (levels_of ms fr)"
proof -
  let ?xs = "map clamp_mag ms"
  let ?a = "quantile_rank (length ms) p_median" and ?b = "quantile_rank (length ms) p_signal"
  have a: "1 \<le> ?a" "?a \<le> length ms" and b: "1 \<le> ?b" "?b \<le> length ms"
    using quantile_rank_in_range [OF _ _ assms, of "1/2"] quantile_rank_in_range [OF _ _ assms, of "999/1000"]
    by (simp_all add: p_median_def p_signal_def)
  have "?a \<le> ?b" unfolding p_median_def p_signal_def by (rule quantile_rank_mono) (use assms in auto)
  then have "sort ?xs ! (?a - 1) \<le> sort ?xs ! (?b - 1)"
    using a b by (intro sorted_nth_mono) auto
  then show ?thesis
    using hist_percentile_sorted [OF hist_ok_of a] hist_percentile_sorted [OF hist_ok_of b]
    by (simp add: levels_of_hist hist_levels_def Let_def)
qed

lemma percentile_scan_le:
  "v + length cs \<le> mag_levels \<Longrightarrow> percentile_scan cs v acc t \<le> mag_levels - 1"
proof (induction cs arbitrary: v acc)
  case (Cons c cs)
  have "v \<le> mag_levels - 1" "v + 1 + length cs \<le> mag_levels" using Cons.prems by simp_all
  then show ?case using Cons.IH [of "v + 1" "acc + c"] by simp
qed simp

lemma hist_percentile_le [bounds_lemmas]: "hist_ok h ms \<Longrightarrow> hist_percentile h p \<le> 257"
proof -
  assume "hist_ok h ms"
  then have "0 + length (hist_counts h) \<le> mag_levels" by (simp add: hist_ok_def)
  from percentile_scan_le [OF this]
  have "percentile_scan (hist_counts h) 0 0 t \<le> mag_levels - 1" for t by simp
  then show ?thesis unfolding hist_percentile_def percentile_def
    by (simp del: percentile_scan.simps) (simp add: mag_levels_def)
qed

lemma slice_between:
  assumes "0 \<le> f" "f \<le> 1" "n < 2 ^ 16"
  shows "f_as_u16 (f_round (f_mul (f64_of_nat n) (Fin f))) \<le> n"
proof -
  have "0 \<le> of_nat n * f" "of_nat n * f \<le> of_int (int n)"
    using assms mult_left_mono [of f 1 "of_nat n"] by simp_all
  moreover have "int n < 2 ^ 50" using assms(3) by simp
  ultimately obtain y where y: "to_f64 (of_nat n * f) = Fin y" "0 \<le> y" "y < of_int (int n) + 1/2"
    by (rule to_f64_small_abs)
  have "round_away y = \<lfloor>y + 1/2\<rfloor>" using y(2) by (simp add: round_away_def)
  moreover have "\<lfloor>y + 1/2\<rfloor> < int n + 1" unfolding floor_less_iff using y(3) by simp
  ultimately have r: "round_away y \<le> int n" by simp
  have "f_mul (f64_of_nat n) (Fin f) = Fin y" using y(1) assms(3) by (simp add: f64_of_nat_small)
  then have "f_as_u16 (f_round (f_mul (f64_of_nat n) (Fin f))) = min u16_max (nat (round_away y))"
    using round_away_nonneg [OF y(2)] by (simp add: f_as_u16_of_int)
  then show ?thesis using r by linarith
qed

lemma levels_threshold_between:
  assumes "1 \<le> length ms" "length ms < 2 ^ 50" "0 \<le> f" "f \<le> 1"
  shows "noise_floor (levels_of ms (Fin f)) \<le> threshold (levels_of ms (Fin f))"
    and "threshold (levels_of ms (Fin f)) \<le> signal (levels_of ms (Fin f))"
proof -
  let ?l = "levels_of ms (Fin f)"
  let ?a = "hist_percentile (hist_of ms) p_median" and ?b = "hist_percentile (hist_of ms) p_signal"
  have b: "?a \<le> 257" "?b \<le> 257" by (rule hist_percentile_le [OF hist_ok_of])+
  have ab: "?a \<le> ?b"
    using levels_ordered [OF assms(1,2), of "Fin f"] by (simp add: levels_of_hist hist_levels_def Let_def)
  have s: "f_as_u16 (f_round (f_mul (f64_of_nat (?b - ?a)) (Fin f))) \<le> ?b - ?a"
    using b assms by (intro slice_between) auto
  then show "noise_floor ?l \<le> threshold ?l" "threshold ?l \<le> signal ?l"
    using b ab by (auto simp: levels_of_hist hist_levels_def Let_def u16_sat_add_def u16_max_def)
qed

end
