(* ===== verification/Ook_Runs.thy ===== *)
theory Ook_Runs
  imports Ook_Levels
begin

text \<open>
  \<open>ook.rs\<close>, slicing: from an envelope to alternating mark/space runs (\<open>runs\<close>,
  \<open>push_run\<close>), and from runs to bursts (\<open>BurstAccumulator\<close>, \<open>split_bursts\<close>).
\<close>

section \<open>Runs\<close>

record run =
  run_on :: bool
  run_us :: int

definition us_per_sample :: "nat \<Rightarrow> f64" where
  "us_per_sample sample_rate = f_div (to_f64 1000000) (f64_of_nat sample_rate)"

text \<open>\<open>(len as f64 * us_per_sample).round() as i64\<close>\<close>

definition run_duration :: "nat \<Rightarrow> f64 \<Rightarrow> int" where
  "run_duration len ups = f_as_i64 (f_round (f_mul (f64_of_nat len) ups))"

text \<open>\<open>((x / us_per_sample).round()).max(1.0) as usize\<close>\<close>

definition us_to_samples :: "f64 \<Rightarrow> f64 \<Rightarrow> nat" where
  "us_to_samples us ups = f_as_u64 (f_max (f_round (f_div us ups)) (to_f64 1))"

definition push_run :: "run list \<Rightarrow> bool \<Rightarrow> nat \<Rightarrow> nat \<Rightarrow> f64 \<Rightarrow> run list" where
  "push_run out on len min_samples ups =
     (let us = run_duration len ups in
      if out \<noteq> [] \<and> len < min_samples
        then butlast out @ [(last out)\<lparr>run_us := run_us (last out) + us\<rparr>]
      else if out \<noteq> [] \<and> run_on (last out) = on
        then butlast out @ [(last out)\<lparr>run_us := run_us (last out) + us\<rparr>]
      else out @ [\<lparr>run_on = on, run_us = us\<rparr>])"

fun runs_loop :: "nat list \<Rightarrow> nat \<Rightarrow> nat \<Rightarrow> f64 \<Rightarrow> run list \<Rightarrow> bool \<Rightarrow> nat \<Rightarrow> run list" where
  "runs_loop [] thr min_samples ups out cur len = push_run out cur len min_samples ups"
| "runs_loop (m # ms) thr min_samples ups out cur len =
     (let on = (thr \<le> m) in
      if on = cur then runs_loop ms thr min_samples ups out cur (len + 1)
      else runs_loop ms thr min_samples ups (push_run out cur len min_samples ups) on 1)"

definition runs :: "nat list \<Rightarrow> nat \<Rightarrow> nat \<Rightarrow> nat \<Rightarrow> run list" where
  "runs mag thr sample_rate min_us =
     (case mag of [] \<Rightarrow> []
      | m # _ \<Rightarrow>
          let ups = us_per_sample sample_rate;
              min_samples = us_to_samples (f64_of_nat min_us) ups
          in runs_loop mag thr min_samples ups [] (thr \<le> m) 0)"

section \<open>Bursts\<close>

definition max_burst_edges :: nat where "max_burst_edges = 4096"

record burst_accumulator =
  acc_gap_us :: int
  acc_min_edges :: nat
  acc_max_edges :: nat
  acc_current :: "int list"
  acc_overflows :: nat

definition acc_new :: "int \<Rightarrow> nat \<Rightarrow> burst_accumulator" where
  "acc_new gap_us min_edges =
     \<lparr>acc_gap_us = gap_us, acc_min_edges = min_edges, acc_max_edges = max_burst_edges,
      acc_current = [], acc_overflows = 0\<rparr>"

text \<open>The \<open>while last < 0 { pop }\<close> loop of \<open>finish\<close>.\<close>

definition strip_spaces :: "int list \<Rightarrow> int list" where
  "strip_spaces ts = rev (dropWhile (\<lambda>t. t < 0) (rev ts))"

definition acc_finish :: "burst_accumulator \<Rightarrow> burst_accumulator \<times> int list option" where
  "acc_finish a =
     (let cur = strip_spaces (acc_current a) in
      if acc_min_edges a \<le> length cur then (a\<lparr>acc_current := []\<rparr>, Some cur)
      else (a\<lparr>acc_current := []\<rparr>, None))"

definition run_signed :: "run \<Rightarrow> int" where
  "run_signed r = (if run_on r then run_us r else - run_us r)"

definition acc_push :: "burst_accumulator \<Rightarrow> run \<Rightarrow> burst_accumulator \<times> int list option" where
  "acc_push a r =
     (if \<not> run_on r \<and> acc_gap_us a \<le> run_us r then acc_finish a
      else if acc_current a = [] \<and> \<not> run_on r then (a, None)
      else let cur = acc_current a @ [run_signed r] in
        if acc_max_edges a < length cur
        then (a\<lparr>acc_current := [], acc_overflows := acc_overflows a + 1\<rparr>, None)
        else (a\<lparr>acc_current := cur\<rparr>, None))"

definition acc_is_active :: "burst_accumulator \<Rightarrow> bool" where
  "acc_is_active a \<longleftrightarrow> acc_current a \<noteq> []"

text \<open>\<open>runs.iter().filter_map(|&run| accumulator.push(run)).collect()\<close>\<close>

definition opt_list :: "'a option \<Rightarrow> 'a list" where
  "opt_list x = (case x of None \<Rightarrow> [] | Some a \<Rightarrow> [a])"

fun acc_push_all :: "burst_accumulator \<Rightarrow> run list \<Rightarrow> burst_accumulator \<times> int list list" where
  "acc_push_all a [] = (a, [])"
| "acc_push_all a (r # rs) =
     (let (a1, b) = acc_push a r; (a2, bs) = acc_push_all a1 rs in (a2, opt_list b @ bs))"

definition split_bursts :: "run list \<Rightarrow> int \<Rightarrow> nat \<Rightarrow> int list list" where
  "split_bursts rs gap_us min_edges =
     (let (a, bs) = acc_push_all (acc_new gap_us min_edges) rs in bs @ opt_list (snd (acc_finish a)))"

section \<open>Runs alternate and conserve the air time\<close>

lemma opt_list_simps [simp]: "opt_list None = []" "opt_list (Some a) = [a]"
  by (simp_all add: opt_list_def)

lemma push_run_ne [simp]: "push_run out on len m ups \<noteq> []"
  by (auto simp: push_run_def Let_def)

lemma push_run_alternating:
  assumes "alternating run_on out"
  shows "alternating run_on (push_run out on len m ups)"
proof (cases out rule: rev_cases)
  case (snoc xs p)
  then show ?thesis using assms
    by (auto simp: push_run_def Let_def alternating_append)
qed (simp add: push_run_def)

lemma runs_loop_alternating:
  "alternating run_on out \<Longrightarrow> alternating run_on (runs_loop ms thr m ups out cur len)"
  by (induction ms arbitrary: out cur len) (simp_all add: push_run_alternating Let_def)

text \<open>The raw, undeglitched segments: the run-length encoding of the sliced samples.\<close>

fun rle_from :: "bool \<Rightarrow> nat \<Rightarrow> bool list \<Rightarrow> (bool \<times> nat) list" where
  "rle_from cur len [] = [(cur, len)]"
| "rle_from cur len (b # bs) =
     (if b = cur then rle_from cur (len + 1) bs else (cur, len) # rle_from b 1 bs)"

definition raw_segments :: "nat \<Rightarrow> nat list \<Rightarrow> (bool \<times> nat) list" where
  "raw_segments thr mag =
     (case mag of [] \<Rightarrow> [] | m # _ \<Rightarrow> rle_from (thr \<le> m) 0 (map (\<lambda>m. thr \<le> m) mag))"

lemma runs_loop_fold:
  "runs_loop ms thr m ups out cur len =
     foldl (\<lambda>out (on, n). push_run out on n m ups) out (rle_from cur len (map (\<lambda>m. thr \<le> m) ms))"
  by (induction ms arbitrary: out cur len) (auto simp: Let_def)

lemma runs_fold:
  "runs mag thr rate min_us =
     foldl (\<lambda>out (on, n). push_run out on n (us_to_samples (f64_of_nat min_us) (us_per_sample rate))
                            (us_per_sample rate)) [] (raw_segments thr mag)"
  by (simp add: runs_def raw_segments_def runs_loop_fold Let_def split: list.split)

lemma sum_push_run:
  "sum_list (map run_us (push_run out on len m ups)) = sum_list (map run_us out) + run_duration len ups"
proof (cases out rule: rev_cases)
  case (snoc xs p)
  then show ?thesis by (auto simp: push_run_def Let_def)
qed (simp add: push_run_def)

lemma sum_fold_push_run:
  "sum_list (map run_us (foldl (\<lambda>out (on, n). push_run out on n m ups) out segs)) =
     sum_list (map run_us out) + sum_list (map (\<lambda>(on, n). run_duration n ups) segs)"
  by (induction segs arbitrary: out) (auto simp: sum_push_run)

lemma rle_from_total: "sum_list (map snd (rle_from cur len bs)) = len + length bs"
  by (induction bs arbitrary: cur len) auto

lemma rle_from_alternating: "alternating fst (rle_from cur len bs)"
proof -
  have "alternating fst (rle_from cur len bs) \<and> fst (hd (rle_from cur len bs)) = cur \<and> rle_from cur len bs \<noteq> []"
  proof (induction bs arbitrary: cur len)
    case (Cons b bs)
    show ?case using Cons.IH [of b 1] Cons.IH [of cur "len + 1"]
      by (cases "rle_from b 1 bs") auto
  qed simp
  then show ?thesis by blast
qed

section \<open>The shape of a burst\<close>

lemma strip_spaces_simps [simp]:
  "strip_spaces [] = []"
  "strip_spaces (ts @ [t]) = (if t < 0 then strip_spaces ts else ts @ [t])"
  by (simp_all add: strip_spaces_def)

lemma strip_spaces_prefix: "\<exists>zs. ts = strip_spaces ts @ zs \<and> (\<forall>z \<in> set zs. z < 0)"
proof (induction ts rule: rev_induct)
  case (snoc t ts)
  then obtain zs where "ts = strip_spaces ts @ zs" "\<forall>z \<in> set zs. z < 0" by blast
  then show ?case
    by (cases "t < 0") (auto intro!: exI [of _ "zs @ [t]"])
qed simp

lemma strip_spaces_last: "strip_spaces ts \<noteq> [] \<Longrightarrow> 0 \<le> last (strip_spaces ts)"
  by (induction ts rule: rev_induct) auto

lemma strip_spaces_length: "length (strip_spaces ts) \<le> length ts"
  using strip_spaces_prefix [of ts] by (metis length_append le_add1)

definition mark_of :: "int \<Rightarrow> bool" where "mark_of t \<longleftrightarrow> 0 < t"

definition timings_wf :: "int \<Rightarrow> int list \<Rightarrow> bool" where
  "timings_wf gap ts \<longleftrightarrow>
     alternating mark_of ts \<and> (ts \<noteq> [] \<longrightarrow> mark_of (hd ts)) \<and>
     (\<forall>t \<in> set ts. t \<noteq> 0 \<and> (t < 0 \<longrightarrow> - t < gap))"

definition acc_wf :: "burst_accumulator \<Rightarrow> bool" where
  "acc_wf a \<longleftrightarrow> length (acc_current a) \<le> acc_max_edges a \<and> timings_wf (acc_gap_us a) (acc_current a)"

text \<open>What a delivered burst promises: it starts and ends on a mark, it alternates, no space in
  it is long enough to be a gap, and its length is between the two limits.\<close>

definition burst_ok :: "burst_accumulator \<Rightarrow> int list \<Rightarrow> bool" where
  "burst_ok a b \<longleftrightarrow>
     timings_wf (acc_gap_us a) b \<and> (b \<noteq> [] \<longrightarrow> mark_of (last b)) \<and>
     acc_min_edges a \<le> length b \<and> length b \<le> acc_max_edges a"

definition acc_same_limits :: "burst_accumulator \<Rightarrow> burst_accumulator \<Rightarrow> bool" where
  "acc_same_limits a b \<longleftrightarrow>
     acc_gap_us b = acc_gap_us a \<and> acc_min_edges b = acc_min_edges a \<and> acc_max_edges b = acc_max_edges a"

lemma acc_finish_limits: "acc_same_limits a (fst (acc_finish a))"
  by (simp add: acc_same_limits_def acc_finish_def Let_def)

lemma acc_push_limits: "acc_same_limits a (fst (acc_push a r))"
  using acc_finish_limits [of a] by (simp add: acc_push_def Let_def acc_same_limits_def)

lemma acc_finish_current [simp]: "acc_current (fst (acc_finish a)) = []"
  by (simp add: acc_finish_def Let_def)

lemma timings_wf_Nil [simp]: "timings_wf gap []"
  by (simp add: timings_wf_def)

lemma timings_wf_prefix: "timings_wf gap (xs @ ys) \<Longrightarrow> timings_wf gap xs"
  by (auto simp: timings_wf_def alternating_append)

lemma timings_wf_snoc:
  assumes "timings_wf gap ts" "t \<noteq> 0" "t < 0 \<longrightarrow> - t < gap"
    and "if ts = [] then mark_of t else mark_of (last ts) \<noteq> mark_of t"
  shows "timings_wf gap (ts @ [t])"
  using assms by (auto simp: timings_wf_def alternating_append split: if_splits)

lemma acc_finish_burst:
  assumes "acc_wf a"
  shows "acc_wf (fst (acc_finish a))" and "snd (acc_finish a) = Some b \<Longrightarrow> burst_ok a b"
proof -
  let ?c = "strip_spaces (acc_current a)"
  obtain zs where zs: "acc_current a = ?c @ zs" using strip_spaces_prefix by metis
  then have wf: "timings_wf (acc_gap_us a) ?c"
    using assms timings_wf_prefix unfolding acc_wf_def by metis
  have "?c \<noteq> [] \<Longrightarrow> mark_of (last ?c)"
    using strip_spaces_last [of "acc_current a"] wf unfolding timings_wf_def mark_of_def
    by (metis last_in_set order_le_less)
  moreover have "length ?c \<le> acc_max_edges a"
    using assms strip_spaces_length [of "acc_current a"] by (simp add: acc_wf_def)
  ultimately show "snd (acc_finish a) = Some b \<Longrightarrow> burst_ok a b"
    using wf by (auto simp: acc_finish_def Let_def burst_ok_def split: if_splits)
  show "acc_wf (fst (acc_finish a))"
    using acc_finish_limits [of a] by (simp add: acc_wf_def)
qed

text \<open>The polarity that may follow what the accumulator holds.\<close>

definition acc_accepts :: "burst_accumulator \<Rightarrow> run \<Rightarrow> bool" where
  "acc_accepts a r \<longleftrightarrow>
     (run_on r \<or> acc_current a \<noteq> [] \<longrightarrow> 0 < run_us r) \<and>
     (acc_current a \<noteq> [] \<longrightarrow> mark_of (last (acc_current a)) \<noteq> run_on r)"

text \<open>Runs with positive durations, except that a leading silence may round to nothing.\<close>

definition runs_pos :: "run list \<Rightarrow> bool" where
  "runs_pos rs \<longleftrightarrow> (\<forall>r \<in> set rs. run_on r \<longrightarrow> 0 < run_us r) \<and> (\<forall>r \<in> set (tl rs). 0 < run_us r)"

lemma runs_pos_tl: "runs_pos (r # rs) \<Longrightarrow> runs_pos rs"
  by (cases rs) (auto simp: runs_pos_def)

lemma mark_of_signed: "0 < run_us r \<Longrightarrow> mark_of (run_signed r) = run_on r"
  by (simp add: mark_of_def run_signed_def)

lemma acc_push_burst:
  assumes "acc_wf a" and r: "acc_accepts a r"
  shows "acc_wf (fst (acc_push a r))"
    and "snd (acc_push a r) = Some b \<Longrightarrow> burst_ok a b"
    and "acc_current (fst (acc_push a r)) \<noteq> [] \<Longrightarrow> mark_of (last (acc_current (fst (acc_push a r)))) = run_on r"
proof -
  have "timings_wf (acc_gap_us a) (acc_current a @ [run_signed r])"
    if "run_on r \<or> run_us r < acc_gap_us a" "acc_current a \<noteq> [] \<or> run_on r"
    using that assms mark_of_signed [of r]
    by (intro timings_wf_snoc) (auto simp: acc_wf_def acc_accepts_def run_signed_def)
  then show "acc_wf (fst (acc_push a r))"
    using assms acc_finish_burst(1) [OF assms(1)] by (auto simp: acc_push_def Let_def acc_wf_def)
  show "snd (acc_push a r) = Some b \<Longrightarrow> burst_ok a b"
    using acc_finish_burst(2) [OF assms(1)] by (auto simp: acc_push_def Let_def split: if_splits)
  show "acc_current (fst (acc_push a r)) \<noteq> [] \<Longrightarrow> mark_of (last (acc_current (fst (acc_push a r)))) = run_on r"
    using r mark_of_signed [of r] by (auto simp: acc_push_def Let_def acc_accepts_def split: if_splits)
qed

lemma burst_ok_limits: "acc_same_limits a a' \<Longrightarrow> burst_ok a' b = burst_ok a b"
  by (simp add: acc_same_limits_def burst_ok_def)

lemma acc_push_all_bursts:
  assumes "alternating run_on rs" "runs_pos rs" "acc_wf a"
    and "rs \<noteq> [] \<longrightarrow> acc_accepts a (hd rs)"
  shows "acc_wf (fst (acc_push_all a rs)) \<and> acc_same_limits a (fst (acc_push_all a rs)) \<and>
         (\<forall>b \<in> set (snd (acc_push_all a rs)). burst_ok a b)"
  using assms
proof (induction rs arbitrary: a)
  case (Cons r rs)
  let ?a1 = "fst (acc_push a r)"
  have acc: "acc_accepts a r" using Cons.prems by simp
  note step = acc_push_burst [OF Cons.prems(3) acc]
  have "rs \<noteq> [] \<longrightarrow> acc_accepts ?a1 (hd rs)"
    using Cons.prems step(3) by (cases rs) (auto simp: acc_accepts_def runs_pos_def)
  moreover have "alternating run_on rs" using Cons.prems by (blast dest: alternating_tl)
  ultimately have ih: "acc_wf (fst (acc_push_all ?a1 rs)) \<and> acc_same_limits ?a1 (fst (acc_push_all ?a1 rs)) \<and>
         (\<forall>b \<in> set (snd (acc_push_all ?a1 rs)). burst_ok ?a1 b)"
    using Cons.prems step(1) runs_pos_tl by (intro Cons.IH) auto
  have lim: "acc_same_limits a ?a1" by (rule acc_push_limits)
  show ?case using ih lim step(2) burst_ok_limits [OF lim]
    by (auto simp: split_beta opt_list_def acc_same_limits_def split: option.splits)
qed (simp add: acc_same_limits_def)

lemma acc_wf_new [simp]: "acc_wf (acc_new gap mn)"
  by (simp add: acc_wf_def acc_new_def)

lemma split_bursts_ok:
  assumes "alternating run_on rs" "runs_pos rs" "b \<in> set (split_bursts rs gap mn)"
  shows "burst_ok (acc_new gap mn) b"
proof -
  have "rs \<noteq> [] \<longrightarrow> acc_accepts (acc_new gap mn) (hd rs)"
    using assms(2) by (cases rs) (auto simp: acc_accepts_def acc_new_def runs_pos_def)
  from acc_push_all_bursts [OF assms(1,2) acc_wf_new this] acc_finish_burst(2)
  show ?thesis using assms(3) burst_ok_limits
    by (fastforce simp: split_bursts_def split_beta opt_list_def split: option.splits)
qed

section \<open>Splitting against its specification\<close>

text \<open>The specification: cut the runs at the gaps, drop each piece's leading silence and
  trailing space, keep the pieces with enough edges.\<close>

fun cut_at_gaps :: "int \<Rightarrow> run list \<Rightarrow> run list list" where
  "cut_at_gaps gap [] = [[]]"
| "cut_at_gaps gap (r # rs) =
     (if \<not> run_on r \<and> gap \<le> run_us r then [] # cut_at_gaps gap rs
      else (r # hd (cut_at_gaps gap rs)) # tl (cut_at_gaps gap rs))"

definition piece_body :: "run list \<Rightarrow> run list" where
  "piece_body rs = dropWhile (\<lambda>r. \<not> run_on r) rs"

definition burst_spec :: "run list \<Rightarrow> int \<Rightarrow> nat \<Rightarrow> int list list" where
  "burst_spec rs gap mn =
     filter (\<lambda>b. mn \<le> length b) (map (\<lambda>p. strip_spaces (map run_signed (piece_body p))) (cut_at_gaps gap rs))"

lemma cut_at_gaps_ne [simp]: "cut_at_gaps gap rs \<noteq> []"
  by (cases rs) auto

definition first_piece :: "int list \<Rightarrow> run list \<Rightarrow> int list" where
  "first_piece cur p = cur @ map run_signed (if cur = [] then piece_body p else p)"

definition later_pieces :: "run list list \<Rightarrow> int list list" where
  "later_pieces ps = map (\<lambda>p. strip_spaces (map run_signed (piece_body p))) ps"

lemma first_piece_Nil [simp]: "first_piece [] p = map run_signed (piece_body p)"
  by (simp add: first_piece_def)

lemma later_cut:
  "strip_spaces (map run_signed (piece_body (hd (cut_at_gaps g rs)))) # later_pieces (tl (cut_at_gaps g rs))
     = later_pieces (cut_at_gaps g rs)"
  by (cases "cut_at_gaps g rs") (auto simp: later_pieces_def dest: cut_at_gaps_ne [THEN notE])

lemma acc_push_all_spec:
  assumes "length (first_piece (acc_current a) (hd (cut_at_gaps (acc_gap_us a) rs))) \<le> acc_max_edges a"
    and "\<forall>p \<in> set (tl (cut_at_gaps (acc_gap_us a) rs)). length (piece_body p) \<le> acc_max_edges a"
  shows "snd (acc_push_all a rs) @ opt_list (snd (acc_finish (fst (acc_push_all a rs)))) =
    filter (\<lambda>b. acc_min_edges a \<le> length b)
      (strip_spaces (first_piece (acc_current a) (hd (cut_at_gaps (acc_gap_us a) rs)))
       # later_pieces (tl (cut_at_gaps (acc_gap_us a) rs)))"
  using assms
proof (induction rs arbitrary: a)
  case Nil
  then show ?case by (auto simp: acc_finish_def Let_def first_piece_def later_pieces_def piece_body_def)
next
  case (Cons r rs)
  let ?cs = "cut_at_gaps (acc_gap_us a) rs"
  show ?case
  proof (cases "\<not> run_on r \<and> acc_gap_us a \<le> run_us r")
    case True
    let ?a1 = "fst (acc_finish a)"
    have p: "acc_push a r = acc_finish a" using True by (simp add: acc_push_def)
    have lim: "acc_gap_us ?a1 = acc_gap_us a" "acc_min_edges ?a1 = acc_min_edges a"
      "acc_max_edges ?a1 = acc_max_edges a"
      using acc_finish_limits [of a] by (auto simp: acc_same_limits_def)
    have sz: "\<forall>p \<in> set ?cs. length (piece_body p) \<le> acc_max_edges a" using Cons.prems(2) True by simp
    then have "length (piece_body (hd ?cs)) \<le> acc_max_edges a" by simp
    moreover have "\<forall>p \<in> set (tl ?cs). length (piece_body p) \<le> acc_max_edges a"
      using sz by (metis cut_at_gaps_ne list.set_sel(2))
    ultimately have ih: "snd (acc_push_all ?a1 rs) @ opt_list (snd (acc_finish (fst (acc_push_all ?a1 rs)))) =
        filter (\<lambda>b. acc_min_edges a \<le> length b) (later_pieces ?cs)"
      using Cons.IH [of ?a1] unfolding lim acc_finish_current first_piece_Nil later_cut by simp
    have "opt_list (snd (acc_finish a)) =
        filter (\<lambda>b. acc_min_edges a \<le> length b) [strip_spaces (acc_current a)]"
      by (simp add: acc_finish_def Let_def)
    then show ?thesis using ih True p
      by (simp add: split_beta first_piece_def piece_body_def)
  next
    case False
    show ?thesis
    proof (cases "acc_current a = [] \<and> \<not> run_on r")
      case True
      then have "acc_push a r = (a, None)" using False by (simp add: acc_push_def)
      then show ?thesis using Cons True False
        by (simp add: split_beta first_piece_def piece_body_def)
    next
      case act: False
      let ?a1 = "a\<lparr>acc_current := acc_current a @ [run_signed r]\<rparr>"
      have fp: "first_piece (acc_current a) (r # hd ?cs) = first_piece (acc_current ?a1) (hd ?cs)"
        using act by (auto simp: first_piece_def piece_body_def)
      have "length (acc_current a @ [run_signed r]) \<le> acc_max_edges a"
        using Cons.prems(1) False act by (auto simp: first_piece_def piece_body_def split: if_splits)
      then have "acc_push a r = (?a1, None)" using act False by (auto simp: acc_push_def Let_def)
      moreover have cut: "cut_at_gaps (acc_gap_us a) (r # rs) = (r # hd ?cs) # tl ?cs"
        using False by auto
      ultimately show ?thesis using Cons.IH [of ?a1] Cons.prems [unfolded cut] fp
        unfolding cut by (simp add: split_beta)
    qed
  qed
qed

lemma split_bursts_eq_spec:
  assumes "\<forall>p \<in> set (cut_at_gaps gap rs). length (piece_body p) \<le> max_burst_edges"
  shows "split_bursts rs gap mn = burst_spec rs gap mn"
proof -
  let ?cs = "cut_at_gaps gap rs" and ?a = "acc_new gap mn"
  have h: "length (piece_body (hd ?cs)) \<le> max_burst_edges"
    and t: "\<forall>p \<in> set (tl ?cs). length (piece_body p) \<le> max_burst_edges"
    using assms by (simp, metis cut_at_gaps_ne list.set_sel(2))
  have "split_bursts rs gap mn =
      snd (acc_push_all ?a rs) @ opt_list (snd (acc_finish (fst (acc_push_all ?a rs))))"
    by (simp add: split_bursts_def split_beta)
  also have "\<dots> = filter (\<lambda>b. mn \<le> length b) (later_pieces ?cs)"
    using acc_push_all_spec [of ?a rs] h t unfolding later_cut [symmetric]
    by (simp add: acc_new_def)
  finally show ?thesis by (simp only: burst_spec_def later_pieces_def)
qed

end
