(* ===== verification/Ook_Synth.thy ===== *)
theory Ook_Synth
  imports Ook_Runs
begin

text \<open>
  \<open>ook.rs\<close>, the other direction: timings to cs8 baseband (\<open>synthesize\<close>,
  \<open>render_transmission\<close>), and the small analyses over timings (\<open>width_histogram\<close>,
  \<open>compare_bursts\<close>, \<open>duration_us\<close>). The lemmas relate microseconds and samples through
  the doubles the code computes with.
\<close>

section \<open>Synthesis\<close>

definition samples_per_us :: "nat \<Rightarrow> f64" where
  "samples_per_us sample_rate = f_div (f64_of_nat sample_rate) (to_f64 1000000)"

text \<open>\<open>(t.unsigned_abs() as f64 * samples_per_us).round() as usize\<close>\<close>

definition sample_count :: "int \<Rightarrow> nat \<Rightarrow> nat" where
  "sample_count t sample_rate = f_as_u64 (f_round (f_mul (f64_of_nat (nat \<bar>t\<bar>)) (samples_per_us sample_rate)))"

definition synthesize :: "int list \<Rightarrow> nat \<Rightarrow> byte \<Rightarrow> byte list" where
  "synthesize timings sample_rate amplitude =
     concat (map (\<lambda>t. concat (replicate (sample_count t sample_rate)
                                 [if 0 < t then amplitude else 0, 0])) timings)"

definition render_transmission :: "int list \<Rightarrow> nat \<Rightarrow> nat \<Rightarrow> nat \<Rightarrow> byte \<Rightarrow> byte list" where
  "render_transmission timings repeat gap_us sample_rate amplitude =
     (let frame = synthesize timings sample_rate amplitude;
          gap = synthesize [- int gap_us] sample_rate amplitude
      in concat (map (\<lambda>iteration. frame @ (if iteration < repeat then gap else [])) [0..<repeat + 1]))"

section \<open>Analyses\<close>

definition duration_us :: "int list \<Rightarrow> int" where
  "duration_us timings = sum_list (map abs timings)"

definition div_euclid :: "int \<Rightarrow> int \<Rightarrow> int" where
  "div_euclid a b = sgn b * (a div \<bar>b\<bar>)"

text \<open>A bucket width of zero makes \<open>div_euclid\<close> panic: \<open>None\<close>, unless there is nothing to
  count. The \<open>BTreeMap\<close> is a partial map.\<close>

definition width_step :: "int \<Rightarrow> (int \<rightharpoonup> nat) \<Rightarrow> int \<Rightarrow> (int \<rightharpoonup> nat)" where
  "width_step bucket_us hist t =
     (let bucket = div_euclid t bucket_us * bucket_us
      in hist(bucket \<mapsto> (case hist bucket of None \<Rightarrow> 0 | Some c \<Rightarrow> c) + 1))"

definition width_histogram :: "int list \<Rightarrow> int \<Rightarrow> (int \<rightharpoonup> nat) option" where
  "width_histogram timings bucket_us =
     (if bucket_us = 0 \<and> timings \<noteq> [] then None
      else Some (foldl (width_step bucket_us) Map.empty timings))"

record burst_agreement =
  same_edge_count :: bool
  max_deviation_us :: int

definition agreement_step :: "int list \<Rightarrow> burst_agreement \<Rightarrow> int list \<Rightarrow> burst_agreement" where
  "agreement_step first g other =
     (if length other \<noteq> length first then g\<lparr>same_edge_count := False\<rparr>
      else g\<lparr>max_deviation_us := foldl (\<lambda>d (a, b). max d \<bar>a - b\<bar>) (max_deviation_us g) (zip first other)\<rparr>)"

definition compare_bursts :: "int list list \<Rightarrow> burst_agreement option" where
  "compare_bursts bursts =
     (case bursts of [] \<Rightarrow> None
      | first # others \<Rightarrow>
          Some (foldl (agreement_step first) \<lparr>same_edge_count = True, max_deviation_us = 0\<rparr> others))"

section \<open>Microseconds and samples\<close>

text \<open>The rates \<open>validate_sample_rate\<close> lets through.\<close>

definition rate_ok :: "nat \<Rightarrow> bool" where
  "rate_ok r \<longleftrightarrow> 2000000 \<le> r \<and> r \<le> 20000000"

definition us_rat :: "nat \<Rightarrow> rat" where "us_rat r = 1000000 / of_nat r"
definition spu_rat :: "nat \<Rightarrow> rat" where "spu_rat r = of_nat r / 1000000"

lemma rate_rat:
  assumes "rate_ok r"
  shows "1/20 \<le> us_rat r" "us_rat r \<le> 1/2" "2 \<le> spu_rat r" "spu_rat r \<le> 20" "spu_rat r * us_rat r = 1"
proof -
  have "2000000 \<le> r" "r \<le> 20000000" using assms by (simp_all add: rate_ok_def)
  then have "(of_nat 2000000 :: rat) \<le> of_nat r" "(of_nat r :: rat) \<le> of_nat 20000000"
    by (simp_all only: of_nat_le_iff)
  then show "1/20 \<le> us_rat r" "us_rat r \<le> 1/2" "2 \<le> spu_rat r" "spu_rat r \<le> 20" "spu_rat r * us_rat r = 1"
    by (simp_all add: us_rat_def spu_rat_def field_simps)
qed

lemma us_per_sample_eq: "rate_ok r \<Longrightarrow> us_per_sample r = to_f64 (us_rat r)"
  and samples_per_us_eq: "rate_ok r \<Longrightarrow> samples_per_us r = to_f64 (spu_rat r)"
proof -
  assume "rate_ok r"
  then have "f64_of_nat r = Fin (of_nat r)" "r \<noteq> 0"
    by (simp_all add: f64_of_nat_small rate_ok_def)
  moreover have "to_f64 1000000 = Fin 1000000" using to_f64_of_int [of 1000000] by simp
  ultimately show "us_per_sample r = to_f64 (us_rat r)" "samples_per_us r = to_f64 (spu_rat r)"
    by (simp_all add: us_per_sample_def samples_per_us_def us_rat_def spu_rat_def)
qed

lemma f_as_i64_round:
  "\<bar>y\<bar> \<le> 2 ^ 60 \<Longrightarrow> f_as_i64 (f_round (Fin y)) = round_away y"
proof -
  assume y: "\<bar>y\<bar> \<le> 2 ^ 60"
  have "\<bar>of_int (round_away y)\<bar> \<le> (2 ^ 62 :: rat)" using y abs_errD [OF round_away_bounds [of y]] by simp
  then have "(of_int \<bar>round_away y\<bar> :: rat) \<le> of_int (2 ^ 62)" by simp
  then have "\<bar>round_away y\<bar> \<le> 2 ^ 62" by (simp only: of_int_le_iff)
  then have "in_i64 (round_away y)" by (simp add: in_i64_def i64_min_def i64_max_def abs_le_iff)
  then show ?thesis by (simp add: f_as_i64_of_int)
qed

lemma f_as_u64_round:
  "0 \<le> y \<Longrightarrow> y \<le> 2 ^ 60 \<Longrightarrow> f_as_u64 (f_round (Fin y)) = nat (round_away y)"
proof -
  assume y: "0 \<le> y" "y \<le> 2 ^ 60"
  have "(of_int (round_away y) :: rat) \<le> of_int (2 ^ 62)"
    using y abs_errD [OF round_away_bounds [of y]] by simp
  then have "round_away y \<le> 2 ^ 62" by (simp only: of_int_le_iff)
  then show ?thesis using round_away_nonneg [OF y(1)] by (simp add: f_as_u64_of_int u64_max_def)
qed

text \<open>How far a computed duration or count is from the exact one before its final rounding.\<close>

lemma run_duration_approx:
  assumes r: "rate_ok r" and n: "1 \<le> n" "n < 2 ^ 50"
  obtains z where "run_duration n (us_per_sample r) = round_away z"
    and "\<bar>z - of_nat n * us_rat r\<bar> \<le> of_nat n * us_rat r / 2 ^ 51"
proof -
  define M where "M = of_nat n * us_rat r"
  have a: "1 / 2 ^ 20 \<le> us_rat r" "us_rat r \<le> 2 ^ 20" using rate_rat [OF r] by simp_all
  obtain z where z: "f_mul (f64_of_nat n) (to_f64 (us_rat r)) = Fin z" "\<bar>z - M\<bar> \<le> M / 2 ^ 51"
    using f_mul_nat_err [OF a n] unfolding M_def by blast
  have "(of_nat n :: rat) \<le> 2 ^ 50" using n by (simp add: of_nat_le_numeral_power_cancel_iff)
  then have "0 \<le> M" "M \<le> 2 ^ 50 * 1"
    unfolding M_def using rate_rat [OF r] by (simp, intro mult_mono) simp_all
  then have "\<bar>z\<bar> \<le> 2 ^ 60" using abs_errD [OF z(2)] by (intro abs_leI) simp_all
  then have "run_duration n (us_per_sample r) = round_away z"
    using z us_per_sample_eq [OF r] by (simp add: run_duration_def f_as_i64_round del: f_round.simps)
  then show ?thesis using that z unfolding M_def by blast
qed

lemma sample_count_approx:
  assumes r: "rate_ok r" and t: "t \<noteq> 0" "\<bar>t\<bar> < 2 ^ 45"
  obtains z where "sample_count t r = nat (round_away z)" and "0 < z"
    and "\<bar>z - of_int \<bar>t\<bar> * spu_rat r\<bar> \<le> of_int \<bar>t\<bar> * spu_rat r / 2 ^ 51"
proof -
  define n where "n = nat \<bar>t\<bar>"
  define M where "M = of_nat n * spu_rat r"
  have n: "1 \<le> n" "n < 2 ^ 45" using t by (simp_all add: n_def)
  have nt: "of_nat n = (of_int \<bar>t\<bar> :: rat)" by (simp add: n_def)
  have a: "1 / 2 ^ 20 \<le> spu_rat r" "spu_rat r \<le> 2 ^ 20" using rate_rat [OF r] by simp_all
  have n50: "n < 2 ^ 50" using n by simp
  obtain z where z: "f_mul (f64_of_nat n) (to_f64 (spu_rat r)) = Fin z" "\<bar>z - M\<bar> \<le> M / 2 ^ 51"
    using f_mul_nat_err [OF a n(1) n50] unfolding M_def by blast
  have "(of_nat n :: rat) \<le> 2 ^ 45" using n by (simp add: of_nat_le_numeral_power_cancel_iff)
  then have "0 < M" "M \<le> 2 ^ 45 * 20"
    unfolding M_def using rate_rat [OF r] n by (simp, intro mult_mono) simp_all
  then have zb: "0 < z" "z \<le> 2 ^ 60" using abs_errD [OF z(2)] by simp_all
  then have "sample_count t r = nat (round_away z)"
    using z samples_per_us_eq [OF r]
    by (simp add: sample_count_def n_def [symmetric] f_as_u64_round del: f_round.simps)
  then show ?thesis using that z zb unfolding M_def nt by blast
qed

lemma us_to_samples_approx:
  assumes r: "rate_ok r" and n: "1 \<le> n" "n < 2 ^ 45"
  obtains z where "us_to_samples (f64_of_nat n) (us_per_sample r) = nat (round_away z)" and "1 \<le> z"
    and "\<bar>z - of_nat n * spu_rat r\<bar> \<le> of_nat n * spu_rat r / 2 ^ 51"
proof -
  define M where "M = of_nat n * spu_rat r"
  have a: "1 / 2 ^ 20 \<le> us_rat r" "us_rat r \<le> 2 ^ 20" "0 < us_rat r" using rate_rat [OF r] by simp_all
  have n50: "n < 2 ^ 50" using n by simp
  have Meq: "of_nat n / us_rat r = M"
    using a(3) rate_rat(5) [OF r] by (simp add: M_def field_simps)
  obtain z where z: "f_div (f64_of_nat n) (to_f64 (us_rat r)) = Fin z" "\<bar>z - M\<bar> \<le> M / 2 ^ 51"
    using f_div_nat_err [OF a(1,2) n(1) n50] unfolding Meq by blast
  have nr: "(1::rat) \<le> of_nat n" "(of_nat n :: rat) \<le> 2 ^ 45"
    using n by (simp_all add: of_nat_le_numeral_power_cancel_iff)
  have "1 * 2 \<le> M" "M \<le> 2 ^ 45 * 20"
    unfolding M_def using rate_rat [OF r] nr by (intro mult_mono; simp)+
  then have zb: "1 \<le> z" "z \<le> 2 ^ 60" using abs_errD [OF z(2)] by simp_all
  then have "(1::int) \<le> round_away z" using round_away_mono [of 1 z] round_away_of_int [of 1] by simp
  then have "us_to_samples (f64_of_nat n) (us_per_sample r) = f_as_u64 (f_round (Fin z))"
    using z us_per_sample_eq [OF r] to_f64_of_int [of 1]
    by (simp add: us_to_samples_def max_def)
  also have "\<dots> = nat (round_away z)" using zb by (simp only: f_as_u64_round)
  finally show ?thesis using that z zb unfolding M_def by blast
qed

text \<open>The round trip of one duration through samples and back, at every rate the radio accepts.\<close>

lemma duration_roundtrip:
  assumes r: "rate_ok r" and t: "t \<noteq> 0" "\<bar>t\<bar> < 2 ^ 40"
  shows "1 \<le> sample_count t r" and "sample_count t r < 2 ^ 46"
    and "run_duration (sample_count t r) (us_per_sample r) = \<bar>t\<bar>"
proof -
  define T :: rat where "T = of_int \<bar>t\<bar>"
  define A where "A = spu_rat r"
  define B where "B = us_rat r"
  note ab = rate_rat [OF r, folded A_def B_def]
  have "(1::int) \<le> \<bar>t\<bar>" "\<bar>t\<bar> \<le> 2 ^ 40" using t by simp_all
  then have "(of_int 1 :: rat) \<le> of_int \<bar>t\<bar>" "(of_int \<bar>t\<bar> :: rat) \<le> of_int (2 ^ 40)"
    by (simp_all only: of_int_le_iff)
  then have T: "1 \<le> T" "T \<le> 2 ^ 40" by (simp_all add: T_def)
  obtain z where z: "sample_count t r = nat (round_away z)" "0 < z" "\<bar>z - T * A\<bar> \<le> T * A / 2 ^ 51"
    using sample_count_approx [OF r t(1)] t(2) unfolding T_def A_def by auto
  define C :: rat where "C = of_int (round_away z)"
  have C: "\<bar>C - z\<bar> \<le> 1/2" unfolding C_def by (rule round_away_bounds)
  have TA: "1 * 2 \<le> T * A" "T * A \<le> 2 ^ 40 * 20" using T ab by (intro mult_mono; simp)+
  define P where "P = T * A"
  have "1 \<le> C" "C < 2 ^ 46"
    using abs_errD [OF C] abs_errD [OF z(3) [folded P_def]] TA [folded P_def] by simp_all
  then have "of_int 1 \<le> C" "C < of_int (2 ^ 46)" by simp_all
  then have rz: "1 \<le> round_away z" "round_away z < 2 ^ 46"
    unfolding C_def by (simp_all only: of_int_le_iff of_int_less_iff)
  have cC: "of_nat (sample_count t r) = C" using rz by (simp add: z(1) C_def)
  show c: "1 \<le> sample_count t r" "sample_count t r < 2 ^ 46"
    using rz unfolding z(1) by (linarith, simp add: nat_less_iff)
  then have c50: "sample_count t r < 2 ^ 50" by simp
  obtain w where w: "run_duration (sample_count t r) (us_per_sample r) = round_away w"
    "\<bar>w - C * B\<bar> \<le> C * B / 2 ^ 51"
    using run_duration_approx [OF r c(1) c50] unfolding cC B_def by blast
  have "C \<le> P + P / 2 ^ 51 + 1/2" "P - P / 2 ^ 51 - 1/2 \<le> C"
    using abs_errD [OF C] abs_errD [OF z(3) [folded P_def]] by simp_all
  then have "C * B \<le> (P + P / 2 ^ 51 + 1/2) * B" "(P - P / 2 ^ 51 - 1/2) * B \<le> C * B"
    using ab by (intro mult_right_mono; simp)+
  moreover have "(P + P / 2 ^ 51 + 1/2) * B = P * B + P * B / 2 ^ 51 + B / 2"
    "(P - P / 2 ^ 51 - 1/2) * B = P * B - P * B / 2 ^ 51 - B / 2"
    by (simp_all add: distrib_right left_diff_distrib)
  moreover have "P * B = T" using ab(5) by (simp add: P_def mult.assoc)
  ultimately have cb: "C * B \<le> T + T / 2 ^ 51 + B / 2" "T - T / 2 ^ 51 - B / 2 \<le> C * B" by simp_all
  define D where "D = C * B"
  have "\<bar>w - of_int \<bar>t\<bar>\<bar> < 1/2"
    using cb [folded D_def] abs_errD [OF w(2) [folded D_def]] T ab(1-4) unfolding T_def [symmetric] abs_less_iff by simp
  then show "run_duration (sample_count t r) (us_per_sample r) = \<bar>t\<bar>"
    unfolding w(1) by (rule round_away_unique)
qed

lemma us_to_samples_0: "rate_ok r \<Longrightarrow> us_to_samples (f64_of_nat 0) (us_per_sample r) = 1"
proof -
  assume r: "rate_ok r"
  have "f64_range (us_rat r)" using rate_rat [OF r] by (intro f64_range_easy) simp_all
  then obtain y where y: "to_f64 (us_rat r) = Fin y" "\<bar>y - us_rat r\<bar> \<le> us_rat r / 2 ^ 53"
    using rate_rat [OF r] by (auto elim: to_f64_err)
  then have "y \<noteq> 0" using abs_errD [OF y(2)] rate_rat [OF r] by auto
  moreover have "to_f64 0 = Fin 0" "to_f64 1 = Fin 1"
    using to_f64_of_int [of 0] to_f64_of_int [of 1] by simp_all
  moreover have "round_away 0 = 0" using round_away_of_int [of 0] by simp
  moreover have "f_as_u64 (Fin 1) = 1" using f_as_u64_of_int [of 1] by (simp add: u64_max_def)
  ultimately show ?thesis
    using y r by (simp add: us_to_samples_def us_per_sample_eq f64_of_nat_def)
qed

text \<open>Monotonicity across the two different conversions.\<close>

lemma scaled_le:
  fixes y z P Q A :: rat
  assumes "\<bar>y - P\<bar> \<le> P / 2 ^ 51" "\<bar>z - Q\<bar> \<le> Q / 2 ^ 51"
    and "P + A \<le> Q" "Q \<le> 2 ^ 40 * 20" "0 \<le> P" "2 \<le> A"
  shows "y \<le> z"
  using abs_errD [OF assms(1)] abs_errD [OF assms(2)] assms(3-6) by simp

lemma sample_count_ge_min:
  assumes r: "rate_ok r" and t: "int m < \<bar>t\<bar>" "\<bar>t\<bar> < 2 ^ 40"
  shows "us_to_samples (f64_of_nat m) (us_per_sample r) \<le> sample_count t r"
proof (cases "m = 0")
  case True
  then show ?thesis using us_to_samples_0 [OF r] duration_roundtrip(1) [OF r] t by simp
next
  case False
  define T :: rat where "T = of_int \<bar>t\<bar>"
  define M :: rat where "M = of_nat m"
  define A where "A = spu_rat r"
  have m: "1 \<le> m" "m < 2 ^ 45" using False t by simp_all
  obtain y where y: "us_to_samples (f64_of_nat m) (us_per_sample r) = nat (round_away y)"
    "\<bar>y - M * A\<bar> \<le> M * A / 2 ^ 51"
    using us_to_samples_approx [OF r m] unfolding M_def A_def by blast
  have t': "t \<noteq> 0" "\<bar>t\<bar> < 2 ^ 45" using t by simp_all
  obtain z where z: "sample_count t r = nat (round_away z)" "\<bar>z - T * A\<bar> \<le> T * A / 2 ^ 51"
    using sample_count_approx [OF r t'] unfolding T_def A_def by blast
  have "int m + 1 \<le> \<bar>t\<bar>" "\<bar>t\<bar> \<le> 2 ^ 40" using t by simp_all
  then have "of_int (int m + 1) \<le> T" "T \<le> of_int (2 ^ 40)" unfolding T_def by (simp_all only: of_int_le_iff)
  then have MT: "M + 1 \<le> T" "T \<le> 2 ^ 40" by (simp_all add: M_def)
  have "0 \<le> M" by (simp add: M_def)
  have A: "2 \<le> A" "A \<le> 20" unfolding A_def by (rule rate_rat [OF r])+
  have "(M + 1) * A \<le> T * A" "T * A \<le> 2 ^ 40 * 20"
    using MT A \<open>0 \<le> M\<close> by (intro mult_mono; simp)+
  moreover have "0 \<le> M * A" using A \<open>0 \<le> M\<close> by simp
  ultimately have "M * A + A \<le> T * A" "T * A \<le> 2 ^ 40 * 20" "0 \<le> M * A" by (simp_all add: distrib_right)
  from scaled_le [OF y(2) z(2) this] A have "y \<le> z" by simp
  then show ?thesis unfolding y z by (intro nat_mono round_away_mono)
qed

lemma us_to_samples_mono:
  assumes r: "rate_ok r" and "m \<le> g" "g < 2 ^ 40"
  shows "us_to_samples (f64_of_nat m) (us_per_sample r) \<le> us_to_samples (f64_of_nat g) (us_per_sample r)"
proof (cases "m = 0 \<or> m = g")
  case True
  have "1 \<le> us_to_samples (f64_of_nat g) (us_per_sample r)"
  proof (cases "g = 0")
    case False
    then have "1 \<le> g" "g < 2 ^ 45" using assms by simp_all
    from us_to_samples_approx [OF r this] obtain z
      where "us_to_samples (f64_of_nat g) (us_per_sample r) = nat (round_away z)" "1 \<le> z" by blast
    then show ?thesis using round_away_mono [of 1 z] round_away_of_int [of 1] by simp
  qed (simp add: us_to_samples_0 [OF r])
  then show ?thesis using True us_to_samples_0 [OF r] by auto
next
  case False
  define M :: rat where "M = of_nat m"
  define G :: rat where "G = of_nat g"
  define A where "A = spu_rat r"
  have mg: "1 \<le> m" "m < 2 ^ 45" "1 \<le> g" "g < 2 ^ 45" using False assms by simp_all
  obtain y where y: "us_to_samples (f64_of_nat m) (us_per_sample r) = nat (round_away y)"
    "\<bar>y - M * A\<bar> \<le> M * A / 2 ^ 51"
    using us_to_samples_approx [OF r mg(1,2)] unfolding M_def A_def by blast
  obtain z where z: "us_to_samples (f64_of_nat g) (us_per_sample r) = nat (round_away z)"
    "\<bar>z - G * A\<bar> \<le> G * A / 2 ^ 51"
    using us_to_samples_approx [OF r mg(3,4)] unfolding G_def A_def by blast
  have "m + 1 \<le> g" "g \<le> 2 ^ 40" using False assms by simp_all
  then have "of_nat (m + 1) \<le> G" "G \<le> of_nat (2 ^ 40)" unfolding G_def by (simp_all only: of_nat_le_iff)
  then have MG: "M + 1 \<le> G" "G \<le> 2 ^ 40" by (simp_all add: M_def)
  have "0 \<le> M" by (simp add: M_def)
  have A: "2 \<le> A" "A \<le> 20" unfolding A_def by (rule rate_rat [OF r])+
  have "(M + 1) * A \<le> G * A" "G * A \<le> 2 ^ 40 * 20"
    using MG A \<open>0 \<le> M\<close> by (intro mult_mono; simp)+
  moreover have "0 \<le> M * A" using A \<open>0 \<le> M\<close> by simp
  ultimately have "M * A + A \<le> G * A" "G * A \<le> 2 ^ 40 * 20" "0 \<le> M * A" by (simp_all add: distrib_right)
  from scaled_le [OF y(2) z(2) this] A have "y \<le> z" by simp
  then show ?thesis unfolding y z by (intro nat_mono round_away_mono)
qed

lemma run_duration_ge:
  assumes r: "rate_ok r" and g: "1 \<le> g" "g < 2 ^ 40"
    and n: "us_to_samples (f64_of_nat g) (us_per_sample r) \<le> n" "n < 2 ^ 50"
  shows "int g \<le> run_duration n (us_per_sample r)"
proof -
  define G :: rat where "G = of_nat g"
  define N :: rat where "N = of_nat n"
  define A where "A = spu_rat r"
  define B where "B = us_rat r"
  note ab = rate_rat [OF r, folded A_def B_def]
  have g45: "g < 2 ^ 45" using g by simp
  obtain y where y: "us_to_samples (f64_of_nat g) (us_per_sample r) = nat (round_away y)" "1 \<le> y"
    "\<bar>y - G * A\<bar> \<le> G * A / 2 ^ 51"
    using us_to_samples_approx [OF r g(1) g45] unfolding G_def A_def by blast
  have "round_away y \<le> int n" using n(1) unfolding y(1) by linarith
  then have "of_int (round_away y) \<le> N" unfolding N_def by (metis of_int_le_iff of_int_of_nat_eq)
  then have Ny: "y - 1/2 \<le> N" using abs_errD [OF round_away_bounds [of y]] by simp
  have G: "1 \<le> G" "G \<le> 2 ^ 40" unfolding G_def
    using g by (simp_all add: of_nat_le_numeral_power_cancel_iff)
  have "0 < N" using Ny y(2) by simp
  then have n1: "1 \<le> n" by (cases n) (simp_all add: N_def)
  obtain w where w: "run_duration n (us_per_sample r) = round_away w" "\<bar>w - N * B\<bar> \<le> N * B / 2 ^ 51"
    using run_duration_approx [OF r n1 n(2)] unfolding N_def B_def by blast
  define Q where "Q = G * A"
  have "Q - Q / 2 ^ 51 - 1/2 \<le> N" using Ny abs_errD [OF y(3) [folded Q_def]] by simp
  then have "(Q - Q / 2 ^ 51 - 1/2) * B \<le> N * B" using ab by (intro mult_right_mono) simp_all
  moreover have "(Q - Q / 2 ^ 51 - 1/2) * B = Q * B - Q * B / 2 ^ 51 - B / 2"
    by (simp add: left_diff_distrib)
  moreover have "Q * B = G" using ab(5) by (simp add: Q_def mult.assoc)
  ultimately have NB: "G - G / 2 ^ 51 - B / 2 \<le> N * B" by simp
  define P where "P = N * B"
  have "G - 1/2 \<le> w" using NB [folded P_def] abs_errD [OF w(2) [folded P_def]] G ab by simp
  then have "round_away (G - 1/2) \<le> round_away w" by (rule round_away_mono)
  moreover have "round_away (G - 1/2) = int g"
    using G by (simp add: round_away_def G_def)
  ultimately show ?thesis unfolding w(1) by simp
qed

end
