(* ===== verification/Ook_Detector.thy ===== *)
theory Ook_Detector
  imports Ook_Synth
begin

text \<open>
  \<open>ook.rs\<close>, the live receiver: \<open>Detector\<close> slices a stream as it arrives, keeps one run of
  lookahead, delivers a burst the moment a silence outruns the gap, and moves its threshold
  once per window.
\<close>

section \<open>State\<close>

record burst =
  burst_timings :: "int list"
  burst_peak :: nat

record detector_config =
  dc_sample_rate :: nat
  dc_threshold_fraction :: f64
  dc_min_us :: nat
  dc_gap_us :: int
  dc_min_edges :: nat
  dc_noise_sigmas :: f64
  dc_window_samples :: nat

definition detector_config_new :: "nat \<Rightarrow> detector_config" where
  "detector_config_new sample_rate =
     \<lparr>dc_sample_rate = sample_rate, dc_threshold_fraction = to_f64 (1/2), dc_min_us = 40,
      dc_gap_us = 3000, dc_min_edges = 8, dc_noise_sigmas = to_f64 8,
      dc_window_samples = sample_rate\<rparr>"

record detector =
  det_config :: detector_config
  det_histogram :: amplitude_histogram
  det_window_seen :: nat
  det_threshold :: "nat option"
  det_min_samples :: nat
  det_gap_samples :: nat
  det_on :: bool
  det_run_samples :: nat
  det_pending :: "run option"
  det_accumulator :: burst_accumulator
  det_burst_peak :: nat

definition detector_new :: "detector_config \<Rightarrow> detector" where
  "detector_new c =
     (let ups = us_per_sample (dc_sample_rate c)
      in \<lparr>det_config = c, det_histogram = hist_new, det_window_seen = 0, det_threshold = None,
          det_min_samples = us_to_samples (f64_of_nat (dc_min_us c)) ups,
          det_gap_samples = us_to_samples (f64_of_int (dc_gap_us c)) ups,
          det_on = False, det_run_samples = 0, det_pending = None,
          det_accumulator = acc_new (dc_gap_us c) (dc_min_edges c), det_burst_peak = 0\<rparr>)"

definition det_overflows :: "detector \<Rightarrow> nat" where
  "det_overflows d = acc_overflows (det_accumulator d)"

section \<open>One sample\<close>

definition take_burst :: "detector \<Rightarrow> int list \<Rightarrow> detector \<times> burst" where
  "take_burst d ts = (d\<lparr>det_burst_peak := 0\<rparr>, \<lparr>burst_timings = ts, burst_peak = det_burst_peak d\<rparr>)"

text \<open>\<open>if let Some(timings) = \<dots> { bursts.push(self.take_burst(timings)) }\<close>\<close>

definition deliver :: "detector \<Rightarrow> int list option \<Rightarrow> burst list \<Rightarrow> detector \<times> burst list" where
  "deliver d res bursts =
     (case res of None \<Rightarrow> (d, bursts)
      | Some ts \<Rightarrow> let (d1, b) = take_burst d ts in (d1, bursts @ [b]))"

definition accumulate :: "detector \<Rightarrow> run \<Rightarrow> burst list \<Rightarrow> detector \<times> burst list" where
  "accumulate d r bursts =
     (let (a, res) = acc_push (det_accumulator d) r
      in deliver (d\<lparr>det_accumulator := a\<rparr>) res bursts)"

definition finished_run :: "detector \<Rightarrow> run" where
  "finished_run d =
     \<lparr>run_on = det_on d,
      run_us = run_duration (det_run_samples d) (us_per_sample (dc_sample_rate (det_config d)))\<rparr>"

definition emit_run :: "detector \<Rightarrow> run \<Rightarrow> burst list \<Rightarrow> detector \<times> burst list" where
  "emit_run d r bursts =
     (let glitch = det_run_samples d < det_min_samples d in
      case det_pending d of
        Some p \<Rightarrow>
          if glitch \<or> run_on p = run_on r
          then (d\<lparr>det_pending := Some (p\<lparr>run_us := run_us p + run_us r\<rparr>)\<rparr>, bursts)
          else accumulate (d\<lparr>det_pending := Some r\<rparr>) p bursts
      | None \<Rightarrow> (d\<lparr>det_pending := Some r\<rparr>, bursts))"

text \<open>The block guarded by \<open>run_samples == gap_samples\<close>: end the burst now.\<close>

definition flush_gap :: "detector \<Rightarrow> burst list \<Rightarrow> detector \<times> burst list" where
  "flush_gap d bursts =
     (let (d1, bursts1) =
        (case det_pending d of
           None \<Rightarrow> (d, bursts)
         | Some p \<Rightarrow> accumulate (d\<lparr>det_pending := None\<rparr>) p bursts);
          (a, res) = acc_finish (det_accumulator d1)
      in deliver (d1\<lparr>det_accumulator := a\<rparr>) res bursts1)"

definition push_sample :: "detector \<Rightarrow> nat \<Rightarrow> nat \<Rightarrow> burst list \<Rightarrow> detector \<times> burst list" where
  "push_sample d magnitude thr bursts =
     (let on = (thr \<le> magnitude);
          (d1, bursts1) =
            (if on = det_on d then (d\<lparr>det_run_samples := det_run_samples d + 1\<rparr>, bursts)
             else let (e, bs) = emit_run d (finished_run d) bursts
                  in (e\<lparr>det_on := on, det_run_samples := 1\<rparr>, bs));
          d2 = (if on then d1\<lparr>det_burst_peak := max (det_burst_peak d1) magnitude\<rparr> else d1)
      in if \<not> det_on d2 \<and> det_run_samples d2 = det_gap_samples d2 then flush_gap d2 bursts1
         else (d2, bursts1))"

section \<open>The window\<close>

definition robust_sigma :: f64 where "robust_sigma = to_f64 (674/1000)"

definition retuned_threshold :: "detector_config \<Rightarrow> amplitude_histogram \<Rightarrow> nat" where
  "retuned_threshold c h =
     (let floor = hist_percentile h p_median;
          quartile = hist_percentile h p_quartile;
          sig = hist_percentile h p_signal;
          sigma = f_div (f64_of_nat (quartile - floor)) robust_sigma;
          robust_floor = u16_sat_add floor (f_as_u16 (f_round (f_mul sigma (dc_noise_sigmas c))));
          span = f64_of_nat (sig - floor);
          sliced = u16_sat_add floor (f_as_u16 (f_round (f_mul span (dc_threshold_fraction c))))
      in max (max robust_floor sliced) 1)"

definition retune :: "detector \<Rightarrow> detector" where
  "retune d =
     d\<lparr>det_threshold := Some (retuned_threshold (det_config d) (det_histogram d)),
       det_histogram := hist_new, det_window_seen := 0\<rparr>"

definition det_step :: "detector \<times> burst list \<Rightarrow> nat \<Rightarrow> detector \<times> burst list" where
  "det_step st magnitude =
     (let (d, bursts) = st;
          d1 = d\<lparr>det_histogram := add_magnitude (det_histogram d) magnitude,
                 det_window_seen := det_window_seen d + 1\<rparr>;
          (d2, bursts2) =
            (case det_threshold d1 of None \<Rightarrow> (d1, bursts)
             | Some thr \<Rightarrow> push_sample d1 magnitude thr bursts)
      in (if dc_window_samples (det_config d2) \<le> det_window_seen d2 then retune d2 else d2, bursts2))"

definition det_push :: "detector \<Rightarrow> byte list \<Rightarrow> detector \<times> burst list" where
  "det_push d iq = foldl (\<lambda>st s. det_step st (sample_magnitude s)) (d, []) (iq_samples iq)"

section \<open>Chunking\<close>

text \<open>Bursts are only ever appended, so a push can be split at any sample boundary.\<close>

lemma det_push_envelope: "det_push d iq = foldl det_step (d, []) (envelope iq)"
  by (simp add: det_push_def envelope_def foldl_map)

lemma deliver_prefix: "deliver d res bursts = (fst (deliver d res []), bursts @ snd (deliver d res []))"
  by (simp add: deliver_def split_beta split: option.split)

lemma accumulate_prefix:
  "accumulate d r bursts = (fst (accumulate d r []), bursts @ snd (accumulate d r []))"
  unfolding accumulate_def split_beta Let_def by (rule deliver_prefix)

lemma emit_run_prefix: "emit_run d r bursts = (fst (emit_run d r []), bursts @ snd (emit_run d r []))"
proof -
  have a: "accumulate e p bursts = (fst (accumulate e p []), bursts @ snd (accumulate e p []))" for e p
    by (rule accumulate_prefix)
  show ?thesis by (cases "det_pending d") (simp_all add: emit_run_def Let_def a)
qed

lemma flush_gap_prefix: "flush_gap d bursts = (fst (flush_gap d []), bursts @ snd (flush_gap d []))"
proof (cases "det_pending d")
  case None
  then show ?thesis unfolding flush_gap_def by (simp add: split_beta deliver_prefix [symmetric])
next
  case (Some p)
  let ?d = "d\<lparr>det_pending := None\<rparr>"
  have a: "accumulate ?d p bursts = (fst (accumulate ?d p []), bursts @ snd (accumulate ?d p []))"
    by (rule accumulate_prefix)
  have d: "deliver e res (bursts @ x) = (fst (deliver e res x), bursts @ snd (deliver e res x))" for e res x
    by (simp add: deliver_def split_beta split: option.split)
  show ?thesis unfolding flush_gap_def Some by (simp add: split_beta a d)
qed

lemma push_sample_prefix:
  "push_sample d m thr bursts = (fst (push_sample d m thr []), bursts @ snd (push_sample d m thr []))"
proof -
  have f: "flush_gap e (bursts @ x) = (fst (flush_gap e x), bursts @ snd (flush_gap e x))" for e x
    by (subst (1 2 3) flush_gap_prefix) simp
  have g: "flush_gap e bursts = (fst (flush_gap e []), bursts @ snd (flush_gap e []))" for e
    by (rule flush_gap_prefix)
  have e: "emit_run d (finished_run d) bursts =
      (fst (emit_run d (finished_run d) []), bursts @ snd (emit_run d (finished_run d) []))"
    by (rule emit_run_prefix)
  show ?thesis unfolding push_sample_def Let_def by (simp add: split_beta e f g)
qed

lemma det_step_prefix: "det_step (d, bursts) m = (fst (det_step (d, []) m), bursts @ snd (det_step (d, []) m))"
proof (cases "det_threshold d")
  case (Some thr)
  have "push_sample e m thr bursts = (fst (push_sample e m thr []), bursts @ snd (push_sample e m thr []))" for e
    by (rule push_sample_prefix)
  then show ?thesis using Some by (simp add: det_step_def Let_def split_beta)
qed (simp add: det_step_def Let_def)

lemma det_fold_prefix:
  "foldl det_step (d, bursts) ms =
     (fst (foldl det_step (d, []) ms), bursts @ snd (foldl det_step (d, []) ms))"
proof (induction ms arbitrary: d bursts)
  case (Cons m ms)
  let ?s = "det_step (d, []) m"
  have "foldl det_step (d, bursts) (m # ms) = foldl det_step (fst ?s, bursts @ snd ?s) ms"
    using det_step_prefix [of d bursts m] by simp
  also have "\<dots> = (fst (foldl det_step (fst ?s, []) ms), (bursts @ snd ?s) @ snd (foldl det_step (fst ?s, []) ms))"
    by (rule Cons.IH)
  finally show ?case using Cons.IH [of "fst ?s" "snd ?s"] by simp
qed simp

lemma det_push_append:
  assumes "even (length xs)"
  shows "det_push d (xs @ ys) =
    (let (d1, b1) = det_push d xs; (d2, b2) = det_push d1 ys in (d2, b1 @ b2))"
proof -
  have "det_push d (xs @ ys) = foldl det_step (det_push d xs) (envelope ys)"
    using envelope_append [OF assms, of ys] by (simp add: det_push_envelope)
  then show ?thesis
    using det_fold_prefix [of "fst (det_push d xs)" "snd (det_push d xs)" "envelope ys"]
    by (simp add: split_beta det_push_envelope [of _ ys])
qed

end
