(* ===== verification/Engine.thy ===== *)
theory Engine
  imports Wire Radio Ook_Detector
begin

text \<open>
  \<open>engine.rs\<close>: the half-duplex arbiter. One thread owns the radio; its loop takes a command
  if there is one, retries a faulted radio, and otherwise receives. The radio, the clocks and
  the recording file are the world \<open>'w\<close> the thread acts on, through the operations of \<open>env\<close>;
  what the thread sends (events and replies) is the list \<open>a_out\<close>, in order. Log lines are not
  modelled.
\<close>

section \<open>The outside world\<close>

text \<open>The trait \<open>Transceiver\<close>, \<open>Instant::now\<close> (in nanoseconds), \<open>now_ms\<close>, \<open>thread::sleep\<close>, and
  the recording file: opening it, and appending one frame and flushing.\<close>

record tx_params =
  tp_frequency_hz :: nat
  tp_sample_rate :: nat
  tp_txvga_db :: nat
  tp_amp_enable :: bool

record 'w env =
  e_start_rx :: "nat \<Rightarrow> ('w, unit) io"
  e_read :: "('w, byte list) io"
  e_stop :: "('w, unit) io"
  e_transmit :: "tx_params \<Rightarrow> byte list \<Rightarrow> ('w, unit) io"
  e_describe :: "('w, string) io"
  e_now :: "'w \<Rightarrow> nat \<times> 'w"
  e_now_ms :: "'w \<Rightarrow> nat \<times> 'w"
  e_sleep :: "nat \<Rightarrow> 'w \<Rightarrow> 'w"
  e_log_open :: "('w, unit) io"
  e_log_append :: "rx_frame \<Rightarrow> ('w, unit) io"

datatype command =
    Cmd_Transmit transmit
  | Cmd_Configure_Rx "nat option" bool
  | Cmd_Status
  | Cmd_Device_Arrived

datatype outgoing =
    Event message
  | Transmit_Reply "error + int"
  | Configure_Reply "error + unit"
  | Status_Reply status

section \<open>Configuration and state\<close>

record config =
  cfg_sample_rate :: nat
  cfg_rx_frequency :: nat
  cfg_rx_enabled :: bool
  cfg_txvga_db :: nat
  cfg_tx_amplitude :: byte
  cfg_detector :: detector_config
  cfg_record :: bool

definition config_new :: "nat \<Rightarrow> nat \<Rightarrow> config" where
  "config_new sample_rate rx_frequency =
     \<lparr>cfg_sample_rate = sample_rate, cfg_rx_frequency = rx_frequency, cfg_rx_enabled = True,
      cfg_txvga_db = 30, cfg_tx_amplitude = 100, cfg_detector = detector_config_new sample_rate,
      cfg_record = False\<rparr>"

definition fault_backoff :: nat where "fault_backoff = 2 * 10 ^ 9"
definition max_fault_backoff :: nat where "max_fault_backoff = 60 * 10 ^ 9"
definition fault_poll :: nat where "fault_poll = 10 ^ 8"

record arbiter_state =
  s_config :: config
  s_rx_enabled :: bool
  s_rx_frequency :: nat
  s_rx_running :: bool
  s_faulted :: bool
  s_retry_at :: nat
  s_backoff :: nat
  s_receiving_proven :: bool
  s_device :: "string option"
  s_counters :: counters
  s_published :: "device_state option"

text \<open>The recorder holds an open file or none.\<close>

record recorder =
  rec_file :: bool

record 'w arbiter =
  a_state :: arbiter_state
  a_detector :: detector
  a_recorder :: "recorder option"
  a_world :: 'w
  a_out :: "outgoing list"

definition count_transmission :: "arbiter_state \<Rightarrow> arbiter_state" where
  "count_transmission s =
     s\<lparr>s_counters := (s_counters s)\<lparr>c_transmissions := c_transmissions (s_counters s) + 1\<rparr>\<rparr>"

definition count_rx_frame :: "arbiter_state \<Rightarrow> arbiter_state" where
  "count_rx_frame s = s\<lparr>s_counters := (s_counters s)\<lparr>c_rx_frames := c_rx_frames (s_counters s) + 1\<rparr>\<rparr>"

definition enter_fault :: "arbiter_state \<Rightarrow> arbiter_state" where
  "enter_fault s =
     s\<lparr>s_faulted := True, s_rx_running := False, s_receiving_proven := False,
       s_counters := (s_counters s)\<lparr>c_device_faults := c_device_faults (s_counters s) + 1\<rparr>\<rparr>"

text \<open>Acting on one part of the arbiter.\<close>

definition upd :: "(arbiter_state \<Rightarrow> arbiter_state) \<Rightarrow> 'w arbiter \<Rightarrow> 'w arbiter" where
  "upd f a = a\<lparr>a_state := f (a_state a)\<rparr>"

definition emit :: "outgoing \<Rightarrow> 'w arbiter \<Rightarrow> 'w arbiter" where
  "emit x a = a\<lparr>a_out := a_out a @ [x]\<rparr>"

definition act :: "('w \<Rightarrow> 'r \<times> 'w) \<Rightarrow> 'w arbiter \<Rightarrow> 'r \<times> 'w arbiter" where
  "act f a = (let (r, w) = f (a_world a) in (r, a\<lparr>a_world := w\<rparr>))"

section \<open>The recorder\<close>

definition recorder_append :: "'w env \<Rightarrow> rx_frame \<Rightarrow> recorder \<times> 'w \<Rightarrow> recorder \<times> 'w" where
  "recorder_append env frame rw =
     (case e_log_append env frame (snd rw) of
        (Inr _, w) \<Rightarrow> (fst rw, w)
      | (Inl _, w) \<Rightarrow> ((fst rw)\<lparr>rec_file := False\<rparr>, w))"

definition recorder_write :: "'w env \<Rightarrow> rx_frame \<Rightarrow> recorder \<times> 'w \<Rightarrow> recorder \<times> 'w" where
  "recorder_write env frame rw =
     (if rec_file (fst rw) then recorder_append env frame rw
      else case e_log_open env (snd rw) of
             (Inr _, w) \<Rightarrow> recorder_append env frame ((fst rw)\<lparr>rec_file := True\<rparr>, w)
           | (Inl _, w) \<Rightarrow> (fst rw, w))"

section \<open>Announcing, faulting\<close>

definition receiving :: "arbiter_state \<Rightarrow> bool" where
  "receiving s \<longleftrightarrow> s_rx_enabled s \<and> \<not> s_faulted s"

definition device_state_of :: "arbiter_state \<Rightarrow> device_state" where
  "device_state_of s = (if s_faulted s then Faulted else if s_rx_running s then Receiving else Idle)"

definition announce :: "device_state \<Rightarrow> 'w arbiter \<Rightarrow> 'w arbiter" where
  "announce d a = emit (Event (event (Device_State d))) (upd (\<lambda>s. s\<lparr>s_published := Some d\<rparr>) a)"

definition publish :: "'w arbiter \<Rightarrow> 'w arbiter" where
  "publish a =
     (let d = device_state_of (a_state a)
      in if s_published (a_state a) \<noteq> Some d then announce d a else a)"

definition back_off :: "'w env \<Rightarrow> 'w arbiter \<Rightarrow> 'w arbiter" where
  "back_off env a =
     (let b = min (s_backoff (a_state a) * 2) max_fault_backoff;
          (now, a1) = act (e_now env) a
      in upd (\<lambda>s. s\<lparr>s_backoff := b, s_retry_at := now + b\<rparr>) a1)"

definition fault :: "'w env \<Rightarrow> 'w arbiter \<Rightarrow> 'w arbiter" where
  "fault env a =
     publish (back_off env (upd enter_fault a))"

section \<open>Commands\<close>

text \<open>After the preemption: render, pad, send, and put the transmitter down.\<close>

definition tx_params_of :: "config \<Rightarrow> transmit \<Rightarrow> tx_params" where
  "tx_params_of c req =
     \<lparr>tp_frequency_hz = tx_frequency req, tp_sample_rate = cfg_sample_rate c,
      tp_txvga_db = (case tx_txvga_db req of None \<Rightarrow> cfg_txvga_db c | Some g \<Rightarrow> g),
      tp_amp_enable = tx_amp req\<rparr>"

definition tx_samples :: "config \<Rightarrow> transmit \<Rightarrow> byte list" where
  "tx_samples c req =
     pad_to_alignment (render_transmission (tx_timings req) (tx_repeat req) (tx_gap_us req)
       (cfg_sample_rate c) (cfg_tx_amplitude c))"

definition send :: "'w env \<Rightarrow> transmit \<Rightarrow> 'w arbiter \<Rightarrow> (error + int) \<times> 'w arbiter" where
  "send env req a =
     (let a1 = announce Transmitting a;
          c = s_config (a_state a);
          (result, a2) = act (e_transmit env (tx_params_of c req) (tx_samples c req)) a1;
          (_, a3) = act (e_stop env) a2
      in case result of
           Inl e \<Rightarrow> (Inl e, a3)
         | Inr _ \<Rightarrow>
             let a4 = upd count_transmission a3;
                 a5 = (if \<not> s_rx_enabled (a_state a4) then publish a4 else a4)
             in (Inr (air_time_us req), a5))"

definition preempt_transmit :: "'w env \<Rightarrow> transmit \<Rightarrow> 'w arbiter \<Rightarrow> (error + int) \<times> 'w arbiter" where
  "preempt_transmit env req a =
     (if s_rx_running (a_state a)
      then case act (e_stop env) a of
             (Inl e, a1) \<Rightarrow> (Inl e, a1)
           | (Inr _, a1) \<Rightarrow> send env req (upd (\<lambda>s. s\<lparr>s_rx_running := False\<rparr>) a1)
      else send env req a)"

text \<open>Bring the receiver up now, so that the reply says whether it came up.\<close>

definition start_receiver :: "'w env \<Rightarrow> 'w arbiter \<Rightarrow> (error + unit) \<times> 'w arbiter" where
  "start_receiver env a =
     (case act (e_start_rx env (s_rx_frequency (a_state a))) a of
        (Inr _, a1) \<Rightarrow> (Inr (), upd (\<lambda>s. s\<lparr>s_rx_running := True\<rparr>) a1)
      | (Inl e, a1) \<Rightarrow> (Inl e, fault env a1))"

definition configure :: "'w env \<Rightarrow> nat option \<Rightarrow> bool \<Rightarrow> 'w arbiter \<Rightarrow> 'w arbiter" where
  "configure env frequency enabled a =
     (let a1 = upd (\<lambda>s. s\<lparr>s_rx_frequency := (case frequency of Some f \<Rightarrow> f | None \<Rightarrow> s_rx_frequency s),
                          s_rx_enabled := enabled\<rparr>) a;
          a2 = (if s_rx_running (a_state a1)
                then upd (\<lambda>s. s\<lparr>s_rx_running := False\<rparr>) (snd (act (e_stop env) a1)) else a1);
          a3 = upd (\<lambda>s. s\<lparr>s_faulted := False\<rparr>)
                 (a2\<lparr>a_detector := detector_new (cfg_detector (s_config (a_state a2)))\<rparr>);
          (outcome, a4) = (if s_rx_enabled (a_state a3) then start_receiver env a3 else (Inr (), a3))
      in emit (Configure_Reply outcome) (publish a4))"

definition status_of :: "'w arbiter \<Rightarrow> status" where
  "status_of a =
     (let s = a_state a in
      \<lparr>st_daemon_version = daemon_version, st_protocol_version = protocol_version,
       st_state = device_state_of s, st_device = s_device s,
       st_rx = \<lparr>rs_enabled = s_rx_enabled s, rs_frequency = s_rx_frequency s,
                rs_sample_rate = cfg_sample_rate (s_config s), rs_threshold = det_threshold (a_detector a)\<rparr>,
       st_counters = (s_counters s)\<lparr>c_burst_overflows := det_overflows (a_detector a)\<rparr>\<rparr>)"

definition handle_command :: "'w env \<Rightarrow> command \<Rightarrow> 'w arbiter \<Rightarrow> 'w arbiter" where
  "handle_command env cmd a =
     (case cmd of
        Cmd_Transmit req \<Rightarrow>
          (case preempt_transmit env req a of
             (Inl e, a1) \<Rightarrow> emit (Transmit_Reply (Inl e)) (fault env a1)
           | (Inr t, a1) \<Rightarrow> emit (Transmit_Reply (Inr t)) a1)
      | Cmd_Configure_Rx frequency enabled \<Rightarrow> configure env frequency enabled a
      | Cmd_Device_Arrived \<Rightarrow>
          if s_faulted (a_state a)
          then let (now, a1) = act (e_now env) a
               in upd (\<lambda>s. s\<lparr>s_retry_at := now, s_backoff := fault_backoff\<rparr>) a1
          else a
      | Cmd_Status \<Rightarrow> emit (Status_Reply (status_of a)) a)"

section \<open>Receiving\<close>

definition deliver_burst :: "'w env \<Rightarrow> 'w arbiter \<Rightarrow> burst \<Rightarrow> 'w arbiter" where
  "deliver_burst env a b =
     (let a1 = upd count_rx_frame a;
          (ms, a2) = act (e_now_ms env) a1;
          frame = \<lparr>fr_frequency = s_rx_frequency (a_state a2), fr_timings = burst_timings b,
                   fr_rssi = burst_peak b, fr_timestamp_ms = ms\<rparr>;
          a3 = (case a_recorder a2 of
                  None \<Rightarrow> a2
                | Some r \<Rightarrow> let (r1, w) = recorder_write env frame (r, a_world a2)
                            in a2\<lparr>a_recorder := Some r1, a_world := w\<rparr>)
      in emit (Event (event (Rx_Frame frame))) a3)"

definition receive :: "'w env \<Rightarrow> 'w arbiter \<Rightarrow> 'w arbiter" where
  "receive env a =
     (case act (e_read env) a of
        (Inl e, a1) \<Rightarrow> fault env a1
      | (Inr iq, a1) \<Rightarrow>
          let a2 = (if \<not> s_receiving_proven (a_state a1)
                    then upd (\<lambda>s. s\<lparr>s_receiving_proven := True, s_backoff := fault_backoff\<rparr>) a1 else a1);
              (d, bursts) = det_push (a_detector a2) iq
          in foldl (deliver_burst env) (a2\<lparr>a_detector := d\<rparr>) bursts)"

definition pump :: "'w env \<Rightarrow> 'w arbiter \<Rightarrow> 'w arbiter" where
  "pump env a =
     (if s_rx_running (a_state a) then receive env a
      else case act (e_start_rx env (s_rx_frequency (a_state a))) a of
             (Inl e, a1) \<Rightarrow> fault env a1
           | (Inr _, a1) \<Rightarrow> receive env (publish (upd (\<lambda>s. s\<lparr>s_rx_running := True\<rparr>) a1)))"

definition retry :: "'w env \<Rightarrow> 'w arbiter \<Rightarrow> 'w arbiter" where
  "retry env a =
     (let (now, a1) = act (e_now env) a in
      if now < s_retry_at (a_state a1) then a1\<lparr>a_world := e_sleep env fault_poll (a_world a1)\<rparr>
      else let (_, a2) = act (e_stop env) a1 in
           case act (e_describe env) a2 of
             (Inr description, a3) \<Rightarrow>
               publish (upd (\<lambda>s. s\<lparr>s_device := Some description, s_faulted := False\<rparr>) a3)
           | (Inl e, a3) \<Rightarrow> back_off env a3)"

section \<open>The loop\<close>

text \<open>One pass of the loop body, after the inbox has answered \<open>polled\<close>.\<close>

definition loop_body :: "'w env \<Rightarrow> command option \<Rightarrow> 'w arbiter \<Rightarrow> 'w arbiter" where
  "loop_body env polled a =
     (let a1 = (case polled of None \<Rightarrow> a | Some cmd \<Rightarrow> handle_command env cmd a) in
      if s_faulted (a_state a1) then (if s_rx_enabled (a_state a1) then retry env a1 else a1)
      else if receiving (a_state a1) then pump env a1
      else a1)"

text \<open>With the receiver wanted the inbox is polled and may be empty; otherwise the thread
  blocks, so an empty poll is no pass at all.\<close>

definition loop_step :: "'w env \<Rightarrow> command option \<Rightarrow> 'w arbiter \<Rightarrow> 'w arbiter" where
  "loop_step env polled a =
     (if s_rx_enabled (a_state a) \<or> polled \<noteq> None then loop_body env polled a else a)"

definition state_new :: "'w env \<Rightarrow> config \<Rightarrow> 'w \<Rightarrow> arbiter_state \<times> 'w" where
  "state_new env c w =
     (let (now, w1) = e_now env w; (described, w2) = e_describe env w1
      in (\<lparr>s_config = c, s_rx_enabled = cfg_rx_enabled c, s_rx_frequency = cfg_rx_frequency c,
           s_rx_running = False, s_faulted = False, s_retry_at = now, s_backoff = fault_backoff,
           s_receiving_proven = False, s_device = (case described of Inl _ \<Rightarrow> None | Inr d \<Rightarrow> Some d),
           s_counters = counters_default, s_published = None\<rparr>, w2))"

definition arbiter_new :: "'w env \<Rightarrow> config \<Rightarrow> 'w \<Rightarrow> 'w arbiter" where
  "arbiter_new env c w =
     (let (s, w1) = state_new env c w
      in \<lparr>a_state = s, a_detector = detector_new (cfg_detector c),
          a_recorder = (if cfg_record c then Some \<lparr>rec_file = False\<rparr> else None), a_world = w1, a_out = []\<rparr>)"

text \<open>The whole thread, over what each poll of the inbox answers until the channel closes.\<close>

definition run_thread :: "'w env \<Rightarrow> config \<Rightarrow> 'w \<Rightarrow> command option list \<Rightarrow> 'w arbiter" where
  "run_thread env c w polls =
     snd (act (e_stop env) (foldl (\<lambda>a p. loop_step env p a) (arbiter_new env c w) polls))"

end
