(* ===== verification/Arbiter.thy ===== *)
theory Arbiter
  imports Engine
begin

text \<open>
  The arbiter's invariants. The first half holds over any world: what clients are told, the
  retry interval, the counters. The second half is proved inside the locale \<open>transceiver\<close>,
  the contract of the \<open>Transceiver\<close> trait: the receiver flag is the truth about the radio,
  and the radio is never asked to transmit while it receives.
\<close>

section \<open>Reachable states\<close>

inductive reachable :: "'w env \<Rightarrow> config \<Rightarrow> 'w \<Rightarrow> 'w arbiter \<Rightarrow> bool" for env c w where
  start: "reachable env c w (arbiter_new env c w)"
| step: "reachable env c w a \<Longrightarrow> reachable env c w (loop_step env p a)"

lemma reachable_run: "reachable env c w (foldl (\<lambda>a p. loop_step env p a) (arbiter_new env c w) polls)"
  by (induction polls rule: rev_induct) (auto intro: reachable.intros)

text \<open>To keep a predicate in every reachable state, keep it in the start state and in a pass.\<close>

lemma reachable_keeps:
  assumes "reachable env c w a" "P (arbiter_new env c w)"
    and "\<And>a p. P a \<Longrightarrow> P (loop_step env p a)"
  shows "P a"
  using assms by (induction rule: reachable.induct) auto

section \<open>The parts of the arbiter\<close>

lemma upd_simps [simp]:
  "a_state (upd f a) = f (a_state a)" "a_detector (upd f a) = a_detector a"
  "a_recorder (upd f a) = a_recorder a" "a_world (upd f a) = a_world a" "a_out (upd f a) = a_out a"
  by (simp_all add: upd_def)

lemma emit_simps [simp]:
  "a_state (emit x a) = a_state a" "a_detector (emit x a) = a_detector a"
  "a_recorder (emit x a) = a_recorder a" "a_world (emit x a) = a_world a" "a_out (emit x a) = a_out a @ [x]"
  by (simp_all add: emit_def)

lemma act_simps [simp]:
  "fst (act f a) = fst (f (a_world a))" "a_state (snd (act f a)) = a_state a"
  "a_detector (snd (act f a)) = a_detector a" "a_recorder (snd (act f a)) = a_recorder a"
  "a_world (snd (act f a)) = snd (f (a_world a))" "a_out (snd (act f a)) = a_out a"
  by (simp_all add: act_def split_beta)

lemma act_eq: "act f a = (r, b) \<Longrightarrow>
  a_state b = a_state a \<and> a_detector b = a_detector a \<and> a_recorder b = a_recorder a \<and>
  a_out b = a_out a \<and> f (a_world a) = (r, a_world b)"
  by (auto simp: act_def split_beta prod_eq_iff)

lemma announce_simps [simp]:
  "a_state (announce d a) = (a_state a)\<lparr>s_published := Some d\<rparr>" "a_detector (announce d a) = a_detector a"
  "a_recorder (announce d a) = a_recorder a" "a_world (announce d a) = a_world a"
  "a_out (announce d a) = a_out a @ [Event (event (Device_State d))]"
  by (simp_all add: announce_def)

lemma publish_simps [simp]:
  "a_detector (publish a) = a_detector a" "a_recorder (publish a) = a_recorder a"
  "a_world (publish a) = a_world a"
  "s_rx_enabled (a_state (publish a)) = s_rx_enabled (a_state a)"
  "s_rx_running (a_state (publish a)) = s_rx_running (a_state a)"
  "s_faulted (a_state (publish a)) = s_faulted (a_state a)"
  "s_rx_frequency (a_state (publish a)) = s_rx_frequency (a_state a)"
  "s_receiving_proven (a_state (publish a)) = s_receiving_proven (a_state a)"
  "s_backoff (a_state (publish a)) = s_backoff (a_state a)"
  "s_retry_at (a_state (publish a)) = s_retry_at (a_state a)"
  "s_counters (a_state (publish a)) = s_counters (a_state a)"
  "s_config (a_state (publish a)) = s_config (a_state a)"
  "s_published (a_state (publish a)) = Some (device_state_of (a_state a))"
  "device_state_of (a_state (publish a)) = device_state_of (a_state a)"
  by (simp_all add: publish_def Let_def device_state_of_def)

lemma back_off_simps [simp]:
  "a_detector (back_off env a) = a_detector a" "a_recorder (back_off env a) = a_recorder a"
  "a_world (back_off env a) = snd (e_now env (a_world a))" "a_out (back_off env a) = a_out a"
  "a_state (back_off env a) =
     (a_state a)\<lparr>s_backoff := min (s_backoff (a_state a) * 2) max_fault_backoff,
       s_retry_at := fst (e_now env (a_world a)) + min (s_backoff (a_state a) * 2) max_fault_backoff\<rparr>"
  by (simp_all add: back_off_def split_beta Let_def)

lemma count_simps [simp]:
  "s_published (count_transmission s) = s_published s" "s_published (count_rx_frame s) = s_published s"
  "s_published (enter_fault s) = s_published s"
  "s_backoff (count_transmission s) = s_backoff s" "s_backoff (count_rx_frame s) = s_backoff s"
  "s_backoff (enter_fault s) = s_backoff s"
  "s_rx_running (count_transmission s) = s_rx_running s" "s_rx_running (count_rx_frame s) = s_rx_running s"
  "\<not> s_rx_running (enter_fault s)"
  "s_faulted (count_transmission s) = s_faulted s" "s_faulted (count_rx_frame s) = s_faulted s"
  "s_faulted (enter_fault s)"
  "s_receiving_proven (count_transmission s) = s_receiving_proven s"
  "s_receiving_proven (count_rx_frame s) = s_receiving_proven s" "\<not> s_receiving_proven (enter_fault s)"
  "s_rx_enabled (count_transmission s) = s_rx_enabled s" "s_rx_enabled (count_rx_frame s) = s_rx_enabled s"
  "s_rx_enabled (enter_fault s) = s_rx_enabled s"
  "s_rx_frequency (count_transmission s) = s_rx_frequency s" "s_rx_frequency (count_rx_frame s) = s_rx_frequency s"
  "s_rx_frequency (enter_fault s) = s_rx_frequency s"
  "s_config (count_transmission s) = s_config s" "s_config (count_rx_frame s) = s_config s"
  "s_config (enter_fault s) = s_config s"
  "device_state_of (count_transmission s) = device_state_of s" "device_state_of (count_rx_frame s) = device_state_of s"
  by (simp_all add: count_transmission_def count_rx_frame_def enter_fault_def device_state_of_def)

section \<open>What clients are told\<close>

definition announced :: "outgoing \<Rightarrow> device_state option" where
  "announced x = (case x of Event m \<Rightarrow> (case msg_payload m of Device_State d \<Rightarrow> Some d | _ \<Rightarrow> None) | _ \<Rightarrow> None)"

text \<open>The device states announced so far, in order.\<close>

definition announcements :: "outgoing list \<Rightarrow> device_state list" where
  "announcements out = List.map_filter announced out"

definition last_announced :: "outgoing list \<Rightarrow> device_state option" where
  "last_announced out = (if announcements out = [] then None else Some (last (announcements out)))"

lemma announcements_snoc [simp]:
  "announcements (out @ [x]) = announcements out @ (case announced x of None \<Rightarrow> [] | Some d \<Rightarrow> [d])"
  by (simp add: announcements_def List.map_filter_def split: option.split)

lemma last_announced_snoc [simp]:
  "last_announced (out @ [x]) = (case announced x of None \<Rightarrow> last_announced out | Some d \<Rightarrow> Some d)"
  by (simp add: last_announced_def split: option.split)

lemma announced_simps [simp]:
  "announced (Event (event (Device_State d))) = Some d" "announced (Event (event (Rx_Frame f))) = None"
  "announced (Transmit_Reply r) = None" "announced (Configure_Reply u) = None" "announced (Status_Reply st) = None"
  by (simp_all add: announced_def event_def)

text \<open>No state is announced twice in a row, except \<open>transmitting\<close>.\<close>

fun no_repeats :: "device_state list \<Rightarrow> bool" where
  "no_repeats (x # y # zs) = ((x \<noteq> y \<or> y = Transmitting) \<and> no_repeats (y # zs))"
| "no_repeats _ = True"

lemma no_repeats_snoc:
  "no_repeats (xs @ [y]) \<longleftrightarrow> no_repeats xs \<and> (xs = [] \<or> last xs \<noteq> y \<or> y = Transmitting)"
  by (induction xs rule: no_repeats.induct) auto

text \<open>The bookkeeping every step keeps: what is published is what was last announced, and the
  retry interval stays between its bounds.\<close>

definition books :: "'w arbiter \<Rightarrow> bool" where
  "books a \<longleftrightarrow>
     last_announced (a_out a) = s_published (a_state a) \<and> no_repeats (announcements (a_out a)) \<and>
     fault_backoff \<le> s_backoff (a_state a) \<and> s_backoff (a_state a) \<le> max_fault_backoff"

text \<open>The flags agree, and what is published is the state of the device: at the head of the loop
  with one exception, and between a command and the rest of its pass with the radio still to
  be handed back.\<close>

definition flags_ok :: "arbiter_state \<Rightarrow> bool" where
  "flags_ok s \<longleftrightarrow> (s_faulted s \<longrightarrow> \<not> s_rx_running s \<and> \<not> s_receiving_proven s)"

definition told :: "arbiter_state \<Rightarrow> bool" where
  "told s \<longleftrightarrow>
     (case s_published s of
        None \<Rightarrow> device_state_of s = Idle
      | Some d \<Rightarrow> d = device_state_of s \<or> d = Transmitting \<and> s_faulted s \<and> s_rx_enabled s)"

definition told_mid :: "arbiter_state \<Rightarrow> bool" where
  "told_mid s \<longleftrightarrow>
     (case s_published s of
        None \<Rightarrow> device_state_of s = Idle
      | Some d \<Rightarrow> d = device_state_of s \<or> d = Transmitting \<and> \<not> s_rx_running s \<and> s_rx_enabled s)"

definition honest :: "'w arbiter \<Rightarrow> bool" where
  "honest a \<longleftrightarrow> books a \<and> flags_ok (a_state a) \<and> told (a_state a)"

definition honest_mid :: "'w arbiter \<Rightarrow> bool" where
  "honest_mid a \<longleftrightarrow> books a \<and> flags_ok (a_state a) \<and> told_mid (a_state a)"

lemma honest_imp_mid: "honest a \<Longrightarrow> honest_mid a"
  by (auto simp: honest_def honest_mid_def told_def told_mid_def flags_ok_def split: option.splits)

lemma books_announce: "books a \<Longrightarrow> d = Transmitting \<or> s_published (a_state a) \<noteq> Some d \<Longrightarrow> books (announce d a)"
  by (auto simp: books_def no_repeats_snoc) (auto simp: last_announced_def split: if_splits)

lemma books_publish: "books a \<Longrightarrow> books (publish a)"
  by (simp add: publish_def Let_def books_announce)

lemma books_back_off: "books a \<Longrightarrow> books (back_off env a)"
  by (simp add: books_def fault_backoff_def max_fault_backoff_def)

lemma publish_honest: "books a \<Longrightarrow> flags_ok (a_state a) \<Longrightarrow> honest (publish a)"
  using books_publish [of a] by (simp add: honest_def told_def flags_ok_def)

lemma fault_honest: "books a \<Longrightarrow> honest (fault env a)"
  unfolding fault_def
  by (intro publish_honest books_back_off) (simp_all add: books_def flags_ok_def)

text \<open>Updates that leave the bookkeeping alone.\<close>

lemma books_cong:
  "books a \<Longrightarrow> a_out b = a_out a \<Longrightarrow> s_published (a_state b) = s_published (a_state a) \<Longrightarrow>
   s_backoff (a_state b) = s_backoff (a_state a) \<Longrightarrow> books b"
  by (simp add: books_def)

lemma books_emit: "books a \<Longrightarrow> announced x = None \<Longrightarrow> books (emit x a)"
  by (simp add: books_def)

lemma honest_emit: "honest a \<Longrightarrow> announced x = None \<Longrightarrow> honest (emit x a)"
  by (simp add: honest_def books_emit)

lemma honest_mid_emit: "honest_mid a \<Longrightarrow> announced x = None \<Longrightarrow> honest_mid (emit x a)"
  by (simp add: honest_mid_def books_emit)

text \<open>An action on the world changes nothing the invariant reads.\<close>

lemma act_same:
  assumes "act f a = (r, b)"
  shows "books b = books a" "honest b = honest a" "honest_mid b = honest_mid a" "flags_ok (a_state b) = flags_ok (a_state a)"
  using act_eq [OF assms] by (simp_all add: books_def honest_def honest_mid_def)

lemma act_snd_same: "books (snd (act f a)) = books a" "honest_mid (snd (act f a)) = honest_mid a"
  by (simp_all add: books_def honest_mid_def)

section \<open>Commands keep the invariant\<close>

lemma send_honest:
  assumes "books a" "flags_ok (a_state a)" "\<not> s_rx_running (a_state a)"
  shows "send env req a = (Inl e, b) \<Longrightarrow> books b"
    and "send env req a = (Inr t, b) \<Longrightarrow> honest_mid b"
proof -
  define a1 where "a1 = announce Transmitting a"
  define a2 where "a2 = snd (act (e_transmit env (tx_params_of (s_config (a_state a)) req)
    (tx_samples (s_config (a_state a)) req)) a1)"
  define a3 where "a3 = snd (act (e_stop env) a2)"
  have b3: "books a3" using books_announce [OF assms(1)] by (simp add: a1_def a2_def a3_def act_snd_same)
  have s3: "a_state a3 = (a_state a)\<lparr>s_published := Some Transmitting\<rparr>" by (simp add: a1_def a2_def a3_def)
  define a4 where "a4 = upd count_transmission a3"
  have b4: "books a4" using b3 by (simp add: a4_def books_def)
  have f4: "flags_ok (a_state a4)" using assms(2) by (simp add: a4_def s3 flags_ok_def)
  have "honest_mid (if \<not> s_rx_enabled (a_state a4) then publish a4 else a4)"
    using publish_honest [OF b4 f4, THEN honest_imp_mid] b4 f4 assms(3)
    by (auto simp: honest_mid_def told_mid_def a4_def s3)
  then show "send env req a = (Inr t, b) \<Longrightarrow> honest_mid b"
    by (auto simp: send_def Let_def split_beta a1_def [symmetric] a2_def [symmetric] a3_def [symmetric]
        a4_def [symmetric] split: sum.splits)
  show "send env req a = (Inl e, b) \<Longrightarrow> books b" using b3
    by (auto simp: send_def Let_def split_beta a1_def [symmetric] a2_def [symmetric] a3_def [symmetric]
        split: sum.splits)
qed

lemma preempt_transmit_honest:
  assumes h: "honest a"
  shows "preempt_transmit env req a = (Inl e, b) \<Longrightarrow> books b"
    and "preempt_transmit env req a = (Inr t, b) \<Longrightarrow> honest_mid b"
proof -
  let ?off = "\<lambda>a. upd (\<lambda>s. s\<lparr>s_rx_running := False\<rparr>) a"
  have bk: "books a" "flags_ok (a_state a)" using h by (simp_all add: honest_def)
  have off: "books (?off c)" "flags_ok (a_state (?off c))" "\<not> s_rx_running (a_state (?off c))"
    if "act (e_stop env) a = (Inr u, c)" for u c
    using bk act_eq [OF that] by (simp_all add: books_def flags_ok_def)
  show "preempt_transmit env req a = (Inl e, b) \<Longrightarrow> books b"
    using bk off send_honest(1) act_same(1)
    by (fastforce simp: preempt_transmit_def split: if_splits prod.splits sum.splits)
  show "preempt_transmit env req a = (Inr t, b) \<Longrightarrow> honest_mid b"
    using bk off send_honest(2)
    by (fastforce simp: preempt_transmit_def split: if_splits prod.splits sum.splits)
qed

lemma configure_honest: "honest a \<Longrightarrow> honest (configure env f en a)"
proof -
  assume h: "honest a"
  define a1 where "a1 = upd (\<lambda>s. s\<lparr>s_rx_frequency := (case f of Some f \<Rightarrow> f | None \<Rightarrow> s_rx_frequency s), s_rx_enabled := en\<rparr>) a"
  define a2 where "a2 = (if s_rx_running (a_state a1) then upd (\<lambda>s. s\<lparr>s_rx_running := False\<rparr>) (snd (act (e_stop env) a1)) else a1)"
  define a3 where "a3 = upd (\<lambda>s. s\<lparr>s_faulted := False\<rparr>) (a2\<lparr>a_detector := detector_new (cfg_detector (s_config (a_state a2)))\<rparr>)"
  define r where "r = (if s_rx_enabled (a_state a3) then start_receiver env a3 else (Inr (), a3))"
  have b: "books a3" using h by (simp add: a3_def a2_def a1_def honest_def books_def)
  have fl: "flags_ok (a_state a3)" by (simp add: a3_def flags_ok_def)
  have "books (snd r) \<and> flags_ok (a_state (snd r))"
  proof (cases "s_rx_enabled (a_state a3)")
    case True
    then show ?thesis using b fault_honest [of "snd (act (e_start_rx env (s_rx_frequency (a_state a3))) a3)" env]
      by (auto simp: r_def start_receiver_def split_beta act_snd_same honest_def books_def flags_ok_def a3_def
          split: sum.split prod.split)
  qed (simp add: r_def b fl)
  then have "honest (emit (Configure_Reply (fst r)) (publish (snd r)))"
    by (intro honest_emit publish_honest) simp_all
  then show ?thesis
    unfolding configure_def Let_def a1_def [symmetric] a2_def [symmetric] a3_def [symmetric] r_def [symmetric]
    by (simp add: split_beta)
qed

lemma handle_command_honest:
  assumes h: "honest a"
  shows "honest_mid (handle_command env cmd a)"
proof (cases cmd)
  case (Cmd_Transmit req)
  then show ?thesis
    using preempt_transmit_honest [OF h, of env req] fault_honest [THEN honest_imp_mid]
    by (auto simp: handle_command_def split: prod.split sum.split intro!: honest_mid_emit)
next
  case (Cmd_Configure_Rx f en)
  then show ?thesis using configure_honest [OF h] honest_imp_mid by (auto simp: handle_command_def)
next
  case Cmd_Status
  then show ?thesis using honest_imp_mid [OF h] by (simp add: handle_command_def honest_mid_emit)
next
  case Cmd_Device_Arrived
  have "books b \<and> s_backoff (a_state b) = fault_backoff \<longrightarrow> fault_backoff \<le> max_fault_backoff" for b :: "'a arbiter"
    by (simp add: fault_backoff_def max_fault_backoff_def)
  then show ?thesis using honest_imp_mid [OF h] Cmd_Device_Arrived
    by (auto simp: handle_command_def split_beta Let_def honest_mid_def books_def flags_ok_def told_mid_def
        device_state_of_def fault_backoff_def max_fault_backoff_def split: option.splits)
qed

section \<open>Receiving and retrying keep the invariant\<close>

lemma deliver_burst_state:
  "a_state (deliver_burst env a b) = count_rx_frame (a_state a)"
  by (auto simp: deliver_burst_def split_beta Let_def split: option.split)

lemma deliver_burst_out:
  "\<exists>f. a_out (deliver_burst env a b) = a_out a @ [Event (event (Rx_Frame f))] \<and>
     fr_frequency f = s_rx_frequency (a_state a) \<and> fr_timings f = burst_timings b \<and> fr_rssi f = burst_peak b"
  by (auto simp: deliver_burst_def split_beta Let_def split: option.split)

lemma told_count_rx_frame [simp]: "told (count_rx_frame s) = told s" "flags_ok (count_rx_frame s) = flags_ok s"
  by (auto simp: told_def flags_ok_def split: option.split)

lemma deliver_burst_honest: "honest a \<Longrightarrow> honest (deliver_burst env a b)"
  using deliver_burst_out [of env a b]
  by (auto simp: deliver_burst_state honest_def books_def)

lemma deliver_bursts_honest: "honest a \<Longrightarrow> honest (foldl (deliver_burst env) a bs)"
  by (induction bs arbitrary: a) (auto intro: deliver_burst_honest)

lemma receive_honest:
  assumes "honest a" "\<not> s_faulted (a_state a)"
  shows "honest (receive env a)"
proof (cases "act (e_read env) a")
  case (Pair r a1)
  note a1 = act_eq [OF Pair]
  show ?thesis
  proof (cases r)
    case (Inl e)
    have "books a1" using act_same(1) [OF Pair] assms(1) by (simp add: honest_def)
    then show ?thesis using Pair Inl by (simp add: receive_def fault_honest)
  next
    case (Inr iq)
    have "honest (upd (\<lambda>s. s\<lparr>s_receiving_proven := True, s_backoff := fault_backoff\<rparr>) a1)"
      using assms a1 by (auto simp: honest_def books_def flags_ok_def told_def device_state_of_def
          fault_backoff_def max_fault_backoff_def split: option.splits)
    moreover have "honest (x\<lparr>a_detector := d\<rparr>)" if "honest x" for x :: "'a arbiter" and d
      using that by (simp add: honest_def books_def)
    ultimately show ?thesis using Pair Inr act_same(2) [OF Pair] assms(1)
      by (auto simp: receive_def Let_def split_beta intro!: deliver_bursts_honest)
  qed
qed

lemma pump_honest:
  assumes h: "honest_mid a" and "\<not> s_faulted (a_state a)"
  shows "honest (pump env a)"
proof (cases "s_rx_running (a_state a)")
  case True
  then have "honest a" using h
    by (auto simp: honest_mid_def honest_def told_mid_def told_def split: option.splits)
  then show ?thesis using True assms(2) by (simp add: pump_def receive_honest)
next
  case False
  obtain r a1 where r: "act (e_start_rx env (s_rx_frequency (a_state a))) a = (r, a1)" by force
  have b: "books a1" using act_same(1) [OF r] h by (simp add: honest_mid_def)
  let ?on = "upd (\<lambda>s. s\<lparr>s_rx_running := True\<rparr>) a1"
  have "honest (publish ?on)" using b act_eq [OF r] assms(2)
    by (intro publish_honest) (simp_all add: books_def flags_ok_def)
  then show ?thesis using False r b act_eq [OF r] assms(2)
    by (auto simp: pump_def fault_honest split: sum.split intro: receive_honest)
qed

lemma retry_honest:
  assumes h: "honest_mid a" and f: "s_faulted (a_state a)" "s_rx_enabled (a_state a)"
  shows "honest (retry env a)"
proof -
  have ha: "honest a" using h f
    by (auto simp: honest_mid_def honest_def told_mid_def told_def split: option.splits)
  obtain n a1 where a1: "act (e_now env) a = (n, a1)" by force
  obtain r1 a2 where a2: "act (e_stop env) a1 = (r1, a2)" by force
  obtain r a3 where a3: "act (e_describe env) a2 = (r, a3)" by force
  have h3: "honest a1" "honest a3" using ha act_same(2) a1 a2 a3 by metis+
  have "a_state a3 = a_state a" using act_eq [OF a1] act_eq [OF a2] act_eq [OF a3] by simp
  then have "honest (publish (upd (\<lambda>s. s\<lparr>s_device := Some x, s_faulted := False\<rparr>) a3))" for x
    using h3(2) by (intro publish_honest) (simp_all add: honest_def books_def flags_ok_def)
  moreover have "honest (back_off env a3)"
    using h3(2) books_back_off [of a3 env]
    by (auto simp: honest_def flags_ok_def told_def device_state_of_def split: option.splits)
  moreover have "honest (a1\<lparr>a_world := w\<rparr>)" for w using h3(1) by (simp add: honest_def books_def)
  ultimately show ?thesis by (auto simp: retry_def a1 a2 a3 split: sum.split)
qed

lemma loop_step_honest: "honest a \<Longrightarrow> honest (loop_step env p a)"
proof -
  assume h: "honest a"
  define a1 where "a1 = (case p of None \<Rightarrow> a | Some cmd \<Rightarrow> handle_command env cmd a)"
  have m: "honest_mid a1" using h by (auto simp: a1_def honest_imp_mid handle_command_honest split: option.split)
  have "honest a1" if "\<not> s_rx_enabled (a_state a1)"
    using m that by (auto simp: honest_mid_def honest_def told_mid_def told_def split: option.splits)
  then have "honest (loop_body env p a)" using m
    by (auto simp: loop_body_def a1_def [symmetric] Let_def receiving_def intro: retry_honest pump_honest)
  then show ?thesis using h by (simp add: loop_step_def)
qed

lemma arbiter_new_honest: "honest (arbiter_new env c w)"
  by (simp add: arbiter_new_def state_new_def split_beta Let_def honest_def books_def flags_ok_def told_def
      last_announced_def announcements_def device_state_of_def fault_backoff_def max_fault_backoff_def List.map_filter_def)

lemma reachable_honest: "reachable env c w a \<Longrightarrow> honest a"
  by (rule reachable_keeps [where P = honest]) (auto intro: arbiter_new_honest loop_step_honest)

section \<open>The contract of the transceiver\<close>

text \<open>What the arbiter relies on. \<open>ready\<close> is the provider's invariant, \<open>streaming\<close> says that a
  receive stream is open. Starting the receiver opens it exactly when it succeeds, a failed
  read loses it, stopping closes it. Transmitting is allowed only with no stream open: a
  provider promises nothing otherwise.\<close>

locale transceiver =
  fixes env :: "'w env" and ready :: "'w \<Rightarrow> bool" and streaming :: "'w \<Rightarrow> bool"
  assumes start_rx: "ready w \<Longrightarrow> e_start_rx env f w = (r, w1) \<Longrightarrow> ready w1 \<and> streaming w1 = is_ok r"
    and read: "ready w \<Longrightarrow> streaming w \<Longrightarrow> e_read env w = (iq, w1) \<Longrightarrow> ready w1 \<and> streaming w1 = is_ok iq"
    and stop: "ready w \<Longrightarrow> e_stop env w = (r, w1) \<Longrightarrow> ready w1 \<and> \<not> streaming w1"
    and transmit: "ready w \<Longrightarrow> \<not> streaming w \<Longrightarrow> e_transmit env p samples w = (r, w1) \<Longrightarrow>
        ready w1 \<and> \<not> streaming w1"
    and describe: "ready w \<Longrightarrow> \<not> streaming w \<Longrightarrow> e_describe env w = (d, w1) \<Longrightarrow> ready w1 \<and> \<not> streaming w1"
    and now: "ready w \<Longrightarrow> e_now env w = (n, w1) \<Longrightarrow> ready w1 \<and> streaming w1 = streaming w"
    and now_ms: "ready w \<Longrightarrow> e_now_ms env w = (n, w1) \<Longrightarrow> ready w1 \<and> streaming w1 = streaming w"
    and sleep: "ready w \<Longrightarrow> ready (e_sleep env n w) \<and> streaming (e_sleep env n w) = streaming w"
    and log_open: "ready w \<Longrightarrow> e_log_open env w = (r, w1) \<Longrightarrow> ready w1 \<and> streaming w1 = streaming w"
    and log_append: "ready w \<Longrightarrow> e_log_append env fr w = (r, w1) \<Longrightarrow> ready w1 \<and> streaming w1 = streaming w"
begin

text \<open>The receiver flag is the truth about the radio.\<close>

definition wired :: "'w arbiter \<Rightarrow> bool" where
  "wired a \<longleftrightarrow> ready (a_world a) \<and> streaming (a_world a) = s_rx_running (a_state a)"

definition silent :: "'w arbiter \<Rightarrow> bool" where
  "silent a \<longleftrightarrow> ready (a_world a) \<and> \<not> streaming (a_world a)"

lemma wired_cong:
  "a_world b = a_world a \<Longrightarrow> s_rx_running (a_state b) = s_rx_running (a_state a) \<Longrightarrow> wired b = wired a"
  by (simp add: wired_def)

lemma wired_simps [simp]:
  "wired (emit x a) = wired a" "wired (publish a) = wired a" "wired (announce d a) = wired a"
  "wired (upd count_transmission a) = wired a" "wired (upd count_rx_frame a) = wired a"
  by (simp_all add: wired_def)

lemma silent_simps [simp]:
  "silent (emit x a) = silent a" "silent (publish a) = silent a" "silent (announce d a) = silent a"
  "silent (upd f a) = silent a"
  by (simp_all add: silent_def)

lemma silent_wired: "silent a \<Longrightarrow> \<not> s_rx_running (a_state a) \<Longrightarrow> wired a"
  by (simp add: silent_def wired_def)

lemma wired_silent: "wired a \<Longrightarrow> \<not> s_rx_running (a_state a) \<Longrightarrow> silent a"
  by (simp add: silent_def wired_def)

lemma silent_act_stop: "ready (a_world a) \<Longrightarrow> silent (snd (act (e_stop env) a))"
  using stop [of "a_world a"] by (simp add: silent_def prod_eq_iff)

lemma silent_back_off: "silent a \<Longrightarrow> silent (back_off env a)"
  using now [of "a_world a"] by (simp add: silent_def prod_eq_iff)

lemma fault_wired: "silent a \<Longrightarrow> wired (fault env a)"
  unfolding fault_def
  by (intro silent_wired) (simp_all add: silent_back_off)

lemma send_silent:
  assumes "silent a" "\<not> s_rx_running (a_state a)"
  shows "silent (snd (send env req a)) \<and> \<not> s_rx_running (a_state (snd (send env req a)))"
proof -
  define a1 where "a1 = announce Transmitting a"
  define a2 where "a2 = snd (act (e_transmit env (tx_params_of (s_config (a_state a)) req)
    (tx_samples (s_config (a_state a)) req)) a1)"
  define a3 where "a3 = snd (act (e_stop env) a2)"
  have "silent a2" using assms(1) transmit [of "a_world a1"]
    by (simp add: a2_def a1_def silent_def prod_eq_iff)
  then have "silent a3" unfolding a3_def by (intro silent_act_stop) (simp add: silent_def)
  then show ?thesis using assms(2)
    by (simp add: send_def Let_def split_beta a1_def [symmetric] a2_def [symmetric] a3_def [symmetric] split: sum.split)
      (simp add: a3_def a2_def a1_def)
qed

lemma preempt_transmit_wired:
  assumes w: "wired a"
  shows "silent (snd (preempt_transmit env req a))"
    and "is_ok (fst (preempt_transmit env req a)) \<Longrightarrow> wired (snd (preempt_transmit env req a))"
proof -
  have *: "silent (snd (preempt_transmit env req a)) \<and>
      (is_ok (fst (preempt_transmit env req a)) \<longrightarrow> \<not> s_rx_running (a_state (snd (preempt_transmit env req a))))"
  proof (cases "s_rx_running (a_state a)")
    case False
    then show ?thesis using send_silent [of a req] wired_silent [OF w] by (simp add: preempt_transmit_def)
  next
    case True
    obtain r a1 where r: "act (e_stop env) a = (r, a1)" by force
    have s: "silent a1" using silent_act_stop [of a] w r by (simp add: wired_def)
    show ?thesis using True r s send_silent [of "upd (\<lambda>s. s\<lparr>s_rx_running := False\<rparr>) a1" req]
      by (simp add: preempt_transmit_def split: sum.split)
  qed
  then show "silent (snd (preempt_transmit env req a))" by blast
  from * show "is_ok (fst (preempt_transmit env req a)) \<Longrightarrow> wired (snd (preempt_transmit env req a))"
    by (blast intro: silent_wired)
qed

lemma start_rx_act:
  assumes "ready (a_world a)" "act (e_start_rx env f) a = (r, a1)"
  shows "ready (a_world a1)" "streaming (a_world a1) = is_ok r"
  using start_rx [OF assms(1)] act_eq [OF assms(2)] by blast+

lemma start_receiver_wired:
  assumes "ready (a_world a)"
  shows "wired (snd (start_receiver env a))"
proof -
  obtain r a1 where r: "act (e_start_rx env (s_rx_frequency (a_state a))) a = (r, a1)" by force
  show ?thesis using start_rx_act [OF assms r]
    by (cases r) (simp_all add: start_receiver_def r wired_def [of "upd f a" for f a] fault_wired silent_def)
qed

lemma configure_wired:
  assumes w: "wired a"
  shows "wired (configure env f en a)"
proof -
  define a1 where "a1 = upd (\<lambda>s. s\<lparr>s_rx_frequency := (case f of Some f \<Rightarrow> f | None \<Rightarrow> s_rx_frequency s), s_rx_enabled := en\<rparr>) a"
  define a2 where "a2 = (if s_rx_running (a_state a1) then upd (\<lambda>s. s\<lparr>s_rx_running := False\<rparr>) (snd (act (e_stop env) a1)) else a1)"
  define a3 where "a3 = upd (\<lambda>s. s\<lparr>s_faulted := False\<rparr>) (a2\<lparr>a_detector := detector_new (cfg_detector (s_config (a_state a2)))\<rparr>)"
  have "wired a1" using w by (simp add: a1_def wired_def)
  then have "wired a2" using silent_act_stop [of a1] by (auto simp: a2_def wired_def silent_def)
  then have "wired a3" by (simp add: a3_def wired_def)
  then have "wired (snd (if s_rx_enabled (a_state a3) then start_receiver env a3 else (Inr (), a3)))"
    using start_receiver_wired [of a3] by (simp add: wired_def [of a3])
  then show ?thesis
    unfolding configure_def Let_def a1_def [symmetric] a2_def [symmetric] a3_def [symmetric]
    by (simp add: split_beta)
qed

lemma handle_command_wired:
  assumes w: "wired a"
  shows "wired (handle_command env cmd a)"
proof (cases cmd)
  case (Cmd_Transmit req)
  then show ?thesis using preempt_transmit_wired [OF w, of req] fault_wired
    by (cases "preempt_transmit env req a") (auto simp: handle_command_def split: sum.split)
next
  case Cmd_Device_Arrived
  then show ?thesis using w now [of "a_world a"]
    by (simp add: handle_command_def split_beta Let_def wired_def prod_eq_iff)
qed (simp_all add: handle_command_def configure_wired w)

lemma recorder_write_keeps:
  assumes "ready (snd rw)"
  shows "ready (snd (recorder_write env fr rw)) \<and>
    streaming (snd (recorder_write env fr rw)) = streaming (snd rw)"
proof -
  have a: "ready (snd (recorder_append env fr x)) \<and> streaming (snd (recorder_append env fr x)) = streaming (snd x)"
    if "ready (snd x)" for x
    using log_append [OF that] by (auto simp: recorder_append_def split: prod.split sum.split)
  show ?thesis using log_open [OF assms] a assms
    by (auto simp: recorder_write_def split: prod.split sum.split)
qed

lemma deliver_burst_wired:
  assumes w: "wired a"
  shows "wired (deliver_burst env a b)"
proof -
  define a2 where "a2 = snd (act (e_now_ms env) (upd count_rx_frame a))"
  define fr where "fr = \<lparr>fr_frequency = s_rx_frequency (a_state a2), fr_timings = burst_timings b,
      fr_rssi = burst_peak b, fr_timestamp_ms = fst (act (e_now_ms env) (upd count_rx_frame a))\<rparr>"
  have w2: "wired a2" using w now_ms [of "a_world a"] by (simp add: a2_def wired_def prod_eq_iff)
  have "wired (a2\<lparr>a_recorder := Some r1, a_world := w1\<rparr>)" if "recorder_write env fr (r, a_world a2) = (r1, w1)" for r r1 w1
    using recorder_write_keeps [of "(r, a_world a2)" fr] that w2 by (simp add: wired_def)
  then show ?thesis using w2
    unfolding deliver_burst_def Let_def split_beta a2_def [symmetric] fr_def [symmetric]
    by (simp add: split_beta split: option.split)
qed

lemma receive_wired:
  assumes w: "wired a" "s_rx_running (a_state a)"
  shows "wired (receive env a)"
proof -
  obtain r a1 where r: "act (e_read env) a = (r, a1)" by force
  have k: "ready (a_world a1)" "streaming (a_world a1) = is_ok r" "a_state a1 = a_state a"
    using read [of "a_world a"] act_eq [OF r] w by (simp_all add: wired_def)
  have fold: "wired x \<Longrightarrow> wired (foldl (deliver_burst env) x bs)" for x bs
    by (induction bs arbitrary: x) (simp_all add: deliver_burst_wired)
  show ?thesis
  proof (cases r)
    case (Inl e)
    then show ?thesis using k by (simp add: receive_def r fault_wired silent_def)
  next
    case (Inr iq)
    have "wired (x\<lparr>a_detector := d\<rparr>)" if "a_world x = a_world a1" "s_rx_running (a_state x)" for x d
      using k Inr that by (simp add: wired_def)
    then show ?thesis using k w(2) Inr by (auto simp: receive_def r Let_def split_beta intro!: fold)
  qed
qed

lemma pump_wired:
  assumes w: "wired a"
  shows "wired (pump env a)"
proof (cases "s_rx_running (a_state a)")
  case False
  obtain r a1 where r: "act (e_start_rx env (s_rx_frequency (a_state a))) a = (r, a1)" by force
  have k: "ready (a_world a1)" "streaming (a_world a1) = is_ok r"
    using start_rx_act [OF _ r] w by (simp_all add: wired_def)
  show ?thesis
  proof (cases r)
    case (Inl e)
    then show ?thesis using False k by (simp add: pump_def r fault_wired silent_def)
  next
    case (Inr u)
    have "wired (publish (upd (\<lambda>s. s\<lparr>s_rx_running := True\<rparr>) a1))" using k Inr by (simp add: wired_def)
    then show ?thesis using False Inr by (simp add: pump_def r receive_wired)
  qed
qed (simp add: pump_def receive_wired w)

lemma retry_wired:
  assumes w: "wired a" "\<not> s_rx_running (a_state a)"
  shows "wired (retry env a)"
proof -
  obtain n a1 where a1: "act (e_now env) a = (n, a1)" by force
  obtain r1 a2 where a2: "act (e_stop env) a1 = (r1, a2)" by force
  obtain r a3 where a3: "act (e_describe env) a2 = (r, a3)" by force
  have s1: "silent a1" using now [of "a_world a"] act_eq [OF a1] w by (simp add: wired_def silent_def)
  have "silent a2" using silent_act_stop [of a1] s1 a2 by (simp add: silent_def)
  then have s3: "silent a3" using describe [of "a_world a2"] act_eq [OF a3] by (simp add: silent_def)
  have run: "\<not> s_rx_running (a_state a1)" "\<not> s_rx_running (a_state a3)"
    using act_eq [OF a1] act_eq [OF a2] act_eq [OF a3] w(2) by simp_all
  have "wired (a1\<lparr>a_world := e_sleep env fault_poll (a_world a1)\<rparr>)"
    using sleep [of "a_world a1" fault_poll] s1 run by (simp add: wired_def silent_def)
  moreover have "wired (back_off env a3)" using silent_back_off [OF s3] run by (intro silent_wired) simp_all
  moreover have "wired (publish (upd (\<lambda>s. s\<lparr>s_device := Some x, s_faulted := False\<rparr>) a3))" for x
    using s3 run by (intro silent_wired) simp_all
  ultimately show ?thesis by (simp add: retry_def a1 a2 a3 split: sum.split)
qed

lemma loop_step_wired: "wired a \<Longrightarrow> honest a \<Longrightarrow> wired (loop_step env p a)"
proof -
  assume w: "wired a" and h: "honest a"
  define a1 where "a1 = (case p of None \<Rightarrow> a | Some cmd \<Rightarrow> handle_command env cmd a)"
  have w1: "wired a1" using w by (simp add: a1_def handle_command_wired split: option.split)
  have "honest_mid a1" using h by (auto simp: a1_def honest_imp_mid handle_command_honest split: option.split)
  then have "s_faulted (a_state a1) \<longrightarrow> \<not> s_rx_running (a_state a1)" by (auto simp: honest_mid_def flags_ok_def)
  then have "wired (loop_body env p a)" using w1
    by (auto simp: loop_body_def a1_def [symmetric] Let_def retry_wired pump_wired)
  then show ?thesis using w by (simp add: loop_step_def)
qed

lemma reachable_wired:
  assumes "ready w" "\<not> streaming w" "reachable env c w a"
  shows "wired a"
  using assms(3)
proof (induction rule: reachable.induct)
  case start
  obtain n w1 where n: "e_now env w = (n, w1)" by force
  obtain d w2 where d: "e_describe env w1 = (d, w2)" by force
  have "ready w2 \<and> \<not> streaming w2" using describe [OF _ _ d] now [OF assms(1) n] assms(2) by blast
  then have "silent (arbiter_new env c w)" by (simp add: arbiter_new_def state_new_def n d silent_def)
  then show ?case
    by (intro silent_wired) (simp_all add: arbiter_new_def state_new_def split_beta Let_def)
next
  case (step a p)
  from loop_step_wired [OF step.IH reachable_honest [OF step.hyps]] show ?case .
qed

text \<open>The contract in use: the flag is the truth, and the thread leaves the radio stopped.\<close>

lemma reachable_streaming:
  "ready w \<Longrightarrow> \<not> streaming w \<Longrightarrow> reachable env c w a \<Longrightarrow>
   ready (a_world a) \<and> streaming (a_world a) = s_rx_running (a_state a)"
  using reachable_wired by (simp add: wired_def)

lemma run_thread_stops:
  assumes "ready w" "\<not> streaming w"
  shows "ready (a_world (run_thread env c w polls)) \<and> \<not> streaming (a_world (run_thread env c w polls))"
proof -
  have "ready (a_world (foldl (\<lambda>a p. loop_step env p a) (arbiter_new env c w) polls))"
    using reachable_streaming [OF assms reachable_run] by blast
  from silent_act_stop [OF this] show ?thesis by (simp add: run_thread_def silent_def)
qed

end

end
