(* ===== verification/Ook_Roundtrip.thy ===== *)
theory Ook_Roundtrip
  imports Ook_Synth
begin

text \<open>
  What the transmitter renders, the offline receiver reads back: the envelope of a
  synthesized buffer, its raw segments, its runs and its bursts.
\<close>

section \<open>The envelope of a synthesized buffer\<close>

lemma iq_samples_replicate: "iq_samples (concat (replicate n [i, q])) = replicate n (i, q)"
  by (induction n) auto

lemma even_length_replicate: "even (length (concat (replicate n [i, q])))"
  by (induction n) auto

lemma synthesize_append: "synthesize (ts @ us) r a = synthesize ts r a @ synthesize us r a"
  by (simp add: synthesize_def)

lemma synthesize_Cons:
  "synthesize (t # ts) r a =
     concat (replicate (sample_count t r) [if 0 < t then a else 0, 0]) @ synthesize ts r a"
  by (simp add: synthesize_def)

lemma even_length_synthesize [simp]: "even (length (synthesize ts r a))"
proof (induction ts)
  case (Cons t ts)
  then show ?case
    using even_length_replicate [of "sample_count t r" "if 0 < t then a else 0" 0]
    unfolding synthesize_Cons length_append even_add by blast
qed (simp add: synthesize_def)

definition amp_level :: "byte \<Rightarrow> nat" where "amp_level a = nat \<bar>sint a\<bar>"

lemma envelope_synthesize_Cons:
  "envelope (synthesize (t # ts) r a) =
     replicate (sample_count t r) (if 0 < t then amp_level a else 0) @ envelope (synthesize ts r a)"
proof -
  have "sample_magnitude (if 0 < t then a else 0, 0) = (if 0 < t then amp_level a else 0)"
    by (simp add: sample_magnitude_eq amp_level_def)
  then show ?thesis
    unfolding synthesize_Cons envelope_def
    by (subst iq_samples_append [OF even_length_replicate]) (simp add: iq_samples_replicate)
qed

lemma length_synthesize: "length (synthesize ts r a) = 2 * sum_list (map (\<lambda>t. sample_count t r) ts)"
proof (induction ts)
  case (Cons t ts)
  have "length (concat (replicate n [i, q])) = 2 * n" for n and i q :: byte
    by (induction n) auto
  then show ?case using Cons by (simp add: synthesize_Cons)
qed (simp add: synthesize_def)

section \<open>Its raw segments\<close>

definition slices :: "nat \<Rightarrow> nat list \<Rightarrow> bool list" where
  "slices thr mag = map (\<lambda>m. thr \<le> m) mag"

lemma rle_from_replicate: "rle_from cur len (replicate n cur @ bs) = rle_from cur (len + n) bs"
  by (induction n arbitrary: len) auto

lemma slices_synthesize_Cons:
  "0 < thr \<Longrightarrow> thr \<le> amp_level a \<Longrightarrow>
   slices thr (envelope (synthesize (t # ts) r a)) =
     replicate (sample_count t r) (0 < t) @ slices thr (envelope (synthesize ts r a))"
  by (simp add: envelope_synthesize_Cons slices_def)

lemma rle_synthesize:
  assumes thr: "0 < thr" "thr \<le> amp_level a"
    and "alternating mark_of (t # ts)" "\<forall>u \<in> set ts. 1 \<le> sample_count u r"
  shows "rle_from (0 < t) len (slices thr (envelope (synthesize ts r a))) =
         (0 < t, len) # map (\<lambda>u. (0 < u, sample_count u r)) ts"
  using assms(3,4)
proof (induction ts arbitrary: t len)
  case Nil
  then show ?case by (simp add: synthesize_def envelope_def slices_def)
next
  case (Cons u us)
  obtain n where n: "sample_count u r = Suc n" using Cons.prems by (cases "sample_count u r") auto
  have ne: "(0 < u) = (\<not> 0 < t)" using Cons.prems(1) by (auto simp: mark_of_def)
  have ih: "rle_from (0 < u) k (slices thr (envelope (synthesize us r a))) =
      (0 < u, k) # map (\<lambda>u. (0 < u, sample_count u r)) us" for k
    using Cons.IH [of u k] Cons.prems by simp
  show ?case by (simp add: slices_synthesize_Cons [OF thr] n rle_from_replicate ne ih [unfolded ne])
qed

lemma raw_segments_synthesize:
  assumes thr: "0 < thr" "thr \<le> amp_level a"
    and "alternating mark_of ts" "\<forall>u \<in> set ts. 1 \<le> sample_count u r"
  shows "raw_segments thr (envelope (synthesize ts r a)) = map (\<lambda>u. (0 < u, sample_count u r)) ts"
proof (cases ts)
  case Nil
  then show ?thesis by (simp add: synthesize_def envelope_def raw_segments_def)
next
  case (Cons t us)
  let ?mag = "envelope (synthesize ts r a)"
  obtain n where n: "sample_count t r = Suc n" using assms Cons by (cases "sample_count t r") auto
  have hd: "?mag = (if 0 < t then amp_level a else 0) #
      replicate n (if 0 < t then amp_level a else 0) @ envelope (synthesize us r a)"
    by (simp add: Cons envelope_synthesize_Cons n)
  then have "raw_segments thr ?mag = rle_from (0 < t) 0 (slices thr ?mag)"
    using thr by (auto simp: raw_segments_def slices_def)
  also have "\<dots> = rle_from (0 < t) (sample_count t r) (slices thr (envelope (synthesize us r a)))"
    using slices_synthesize_Cons [OF thr, of t us r] rle_from_replicate [of "0 < t" 0 "sample_count t r"]
    by (simp add: Cons)
  also have "\<dots> = (0 < t, sample_count t r) # map (\<lambda>u. (0 < u, sample_count u r)) us"
    using assms Cons by (intro rle_synthesize) auto
  finally show ?thesis by (simp add: Cons)
qed

section \<open>Its runs\<close>

definition timing_run :: "int \<Rightarrow> run" where
  "timing_run t = \<lparr>run_on = (0 < t), run_us = \<bar>t\<bar>\<rparr>"

lemma run_signed_timing [simp]: "t \<noteq> 0 \<Longrightarrow> run_signed (timing_run t) = t"
  by (simp add: run_signed_def timing_run_def)

text \<open>A timing list a receiver can resolve: alternating, every entry longer than the glitch
  floor and short enough for exact arithmetic (\<open>2 ^ 40\<close> microseconds is twelve days).\<close>

definition resolvable :: "nat \<Rightarrow> int list \<Rightarrow> bool" where
  "resolvable min_us ts \<longleftrightarrow>
     alternating mark_of ts \<and> (\<forall>t \<in> set ts. t \<noteq> 0 \<and> int min_us < \<bar>t\<bar> \<and> \<bar>t\<bar> < 2 ^ 40)"

lemma fold_push_run_clean:
  assumes "alternating mark_of (t # ts)"
    and "\<forall>u \<in> set ts. m \<le> sample_count u r \<and> run_duration (sample_count u r) ups = \<bar>u\<bar>"
  shows "foldl (\<lambda>out (on, n). push_run out on n m ups) (out @ [timing_run t])
           (map (\<lambda>u. (0 < u, sample_count u r)) ts) = out @ timing_run t # map timing_run ts"
  using assms
proof (induction ts arbitrary: t out)
  case (Cons u us)
  have "push_run (out @ [timing_run t]) (0 < u) (sample_count u r) m ups = (out @ [timing_run t]) @ [timing_run u]"
    using Cons.prems by (auto simp: push_run_def timing_run_def mark_of_def Let_def)
  then show ?case using Cons.IH [of u "out @ [timing_run t]"] Cons.prems by simp
qed simp

lemma runs_synthesize:
  assumes r: "rate_ok r" and thr: "0 < thr" "thr \<le> amp_level a" and ts: "resolvable min_us ts"
  shows "runs (envelope (synthesize ts r a)) thr r min_us = map timing_run ts"
proof -
  let ?ups = "us_per_sample r"
  let ?m = "us_to_samples (f64_of_nat min_us) ?ups"
  have each: "1 \<le> sample_count u r" "?m \<le> sample_count u r" "run_duration (sample_count u r) ?ups = \<bar>u\<bar>"
    if "u \<in> set ts" for u
    using that ts duration_roundtrip [OF r, of u] sample_count_ge_min [OF r, of min_us u]
    by (auto simp: resolvable_def)
  have seg: "raw_segments thr (envelope (synthesize ts r a)) = map (\<lambda>u. (0 < u, sample_count u r)) ts"
    using ts each by (intro raw_segments_synthesize [OF thr]) (auto simp: resolvable_def)
  show ?thesis
  proof (cases ts)
    case Nil
    show ?thesis using seg unfolding Nil by (simp add: runs_fold)
  next
    case (Cons t us)
    have "push_run [] (0 < t) (sample_count t r) ?m ?ups = [] @ [timing_run t]"
      using each(3) [of t] Cons by (simp add: push_run_def timing_run_def)
    moreover have "alternating mark_of (t # us)" using ts Cons by (simp add: resolvable_def)
    ultimately show ?thesis
      using fold_push_run_clean [of t us ?m r ?ups "[]"] each seg unfolding Cons by (simp add: runs_fold)
  qed
qed

section \<open>Its bursts\<close>

text \<open>The timings of a whole transmission: the frame repeated, a space between the copies.\<close>

definition transmission_timings :: "int list \<Rightarrow> nat \<Rightarrow> nat \<Rightarrow> int list" where
  "transmission_timings ts repeat gap_us =
     concat (map (\<lambda>i. ts @ (if i < repeat then [- int gap_us] else [])) [0..<repeat + 1])"

lemma synthesize_concat: "synthesize (concat tss) r a = concat (map (\<lambda>ts. synthesize ts r a) tss)"
  by (induction tss) (simp_all add: synthesize_append, simp add: synthesize_def)

lemma render_transmission_eq:
  "render_transmission ts n g r a = synthesize (transmission_timings ts n g) r a"
proof -
  have nil: "synthesize [] r a = []" by (simp add: synthesize_def)
  show ?thesis
    unfolding render_transmission_def transmission_timings_def synthesize_concat Let_def
    by (rule arg_cong [where f = concat]) (auto simp: synthesize_append nil)
qed

lemma transmission_timings_0: "transmission_timings ts 0 g = ts"
  by (simp add: transmission_timings_def)

lemma transmission_timings_Suc:
  "transmission_timings ts (Suc n) g = ts @ - int g # transmission_timings ts n g"
proof -
  have "[0..<Suc n + 1] = 0 # map Suc [0..<n + 1]" by (simp add: upt_conv_Cons map_Suc_upt del: upt_Suc)
  then show ?thesis by (simp add: transmission_timings_def o_def del: upt_Suc)
qed

text \<open>A frame the receiver delivers whole: it starts and ends on a mark and holds no gap.\<close>

definition deliverable :: "nat \<Rightarrow> int \<Rightarrow> nat \<Rightarrow> int list \<Rightarrow> bool" where
  "deliverable min_us gap_us min_edges ts \<longleftrightarrow>
     resolvable min_us ts \<and> ts \<noteq> [] \<and> mark_of (hd ts) \<and> mark_of (last ts) \<and>
     (\<forall>t \<in> set ts. t < 0 \<longrightarrow> - t < gap_us) \<and>
     min_edges \<le> length ts \<and> length ts \<le> max_burst_edges"

lemma resolvable_transmission:
  assumes "deliverable m gap k ts" "m < g" "g < 2 ^ 40"
  shows "resolvable m (transmission_timings ts n g)
       \<and> transmission_timings ts n g \<noteq> [] \<and> mark_of (hd (transmission_timings ts n g))"
proof (induction n)
  case 0
  then show ?case using assms by (simp add: transmission_timings_0 deliverable_def)
next
  case (Suc n)
  then show ?case using assms
    by (cases "transmission_timings ts n g")
       (auto simp: transmission_timings_Suc resolvable_def deliverable_def alternating_append mark_of_def)
qed

lemma cut_no_gap:
  "\<forall>t \<in> set ts. t < 0 \<longrightarrow> - t < gap \<Longrightarrow>
   cut_at_gaps gap (map timing_run ts @ rs) =
     (map timing_run ts @ hd (cut_at_gaps gap rs)) # tl (cut_at_gaps gap rs)" if "\<forall>t \<in> set ts. t \<noteq> 0"
  using that by (induction ts) (auto simp: timing_run_def)

lemma cut_transmission:
  assumes "deliverable m gap k ts" "gap \<le> int g" "0 < g"
  shows "cut_at_gaps gap (map timing_run (transmission_timings ts n g)) = replicate (n + 1) (map timing_run ts)"
proof (induction n)
  case 0
  then show ?case using assms cut_no_gap [of ts gap "[]"]
    by (simp add: transmission_timings_0 deliverable_def resolvable_def)
next
  case (Suc n)
  have "cut_at_gaps gap (timing_run (- int g) # map timing_run (transmission_timings ts n g)) =
      [] # replicate (n + 1) (map timing_run ts)"
  proof -
    have "timing_run (- int g) = \<lparr>run_on = False, run_us = int g\<rparr>"
      using assms(3) by (simp add: timing_run_def)
    then show ?thesis using Suc assms(2) by simp
  qed
  then show ?case using assms cut_no_gap [of ts gap "timing_run (- int g) # map timing_run (transmission_timings ts n g)"]
    by (simp add: transmission_timings_Suc deliverable_def resolvable_def)
qed

lemma strip_spaces_mark: "ts \<noteq> [] \<Longrightarrow> mark_of (last ts) \<Longrightarrow> strip_spaces ts = ts"
  by (cases ts rule: rev_cases) (auto simp: mark_of_def)

lemma piece_body_frame:
  "deliverable m gap k ts \<Longrightarrow> piece_body (map timing_run ts) = map timing_run ts"
  by (cases ts) (auto simp: piece_body_def deliverable_def timing_run_def mark_of_def)

lemma split_transmission:
  assumes d: "deliverable m gap k ts" and g: "gap \<le> int g" "0 < g"
  shows "split_bursts (map timing_run (transmission_timings ts n g)) gap k = replicate (n + 1) ts"
proof -
  have "map run_signed (map timing_run ts) = ts"
    using d by (simp add: deliverable_def resolvable_def map_idI)
  then have one: "strip_spaces (map run_signed (piece_body (map timing_run ts))) = ts"
    using piece_body_frame [OF d] strip_spaces_mark d by (simp add: deliverable_def)
  have "split_bursts (map timing_run (transmission_timings ts n g)) gap k =
        burst_spec (map timing_run (transmission_timings ts n g)) gap k"
    using piece_body_frame [OF d] d cut_transmission [OF d g, of n]
    by (intro split_bursts_eq_spec) (auto simp: deliverable_def)
  then show ?thesis
    using one d by (simp add: burst_spec_def cut_transmission [OF d g] deliverable_def map_replicate)
qed

end
