(* ===== verification/Ook_Stream.thy ===== *)
theory Ook_Stream
  imports Ook_Detector Ook_Roundtrip
begin

text \<open>
  The live detector against the offline splitter: between two threshold changes the
  detector delivers exactly the bursts that \<open>runs\<close> and \<open>split_bursts\<close> find in the same
  samples. The offline state is (runs so far, current polarity, its length); the detector is
  the same state with the last run held back, all earlier runs already accumulated, and a
  gap acted on before its run is complete.
\<close>

section \<open>The accumulator over a list of runs\<close>

lemma acc_push_all_append:
  "acc_push_all a (xs @ ys) =
     (let (a1, e1) = acc_push_all a xs; (a2, e2) = acc_push_all a1 ys in (a2, e1 @ e2))"
  by (induction xs arbitrary: a) (auto simp: split_beta)

definition acc_close :: "burst_accumulator \<times> int list list \<Rightarrow> burst_accumulator \<times> int list list" where
  "acc_close st = (let (a, b) = acc_finish (fst st) in (a, snd st @ opt_list b))"

definition acc_feed :: "burst_accumulator \<times> int list list \<Rightarrow> run \<Rightarrow> burst_accumulator \<times> int list list" where
  "acc_feed st r = (let (a, b) = acc_push (fst st) r in (a, snd st @ opt_list b))"

lemma acc_push_all_snoc: "acc_push_all a (xs @ [r]) = acc_feed (acc_push_all a xs) r"
  by (simp add: acc_push_all_append acc_feed_def split_beta)

lemma acc_feed_gap:
  "\<not> run_on r \<Longrightarrow> acc_gap_us (fst st) \<le> run_us r \<Longrightarrow> acc_feed st r = acc_close st"
  by (simp add: acc_feed_def acc_close_def acc_push_def)

lemma acc_close_empty:
  "acc_current (fst st) = [] \<Longrightarrow> 1 \<le> acc_min_edges (fst st) \<Longrightarrow> acc_close st = st"
  by (cases st) (simp add: acc_close_def acc_finish_def Let_def)

lemma acc_close_fields [simp]:
  "acc_current (fst (acc_close st)) = []"
  "acc_gap_us (fst (acc_close st)) = acc_gap_us (fst st)"
  "acc_min_edges (fst (acc_close st)) = acc_min_edges (fst st)"
  by (simp_all add: acc_close_def acc_finish_def Let_def split_beta)

lemma acc_push_all_fields:
  "acc_gap_us (fst (acc_push_all a rs)) = acc_gap_us a \<and>
   acc_min_edges (fst (acc_push_all a rs)) = acc_min_edges a \<and>
   acc_max_edges (fst (acc_push_all a rs)) = acc_max_edges a"
proof (induction rs arbitrary: a)
  case (Cons r rs)
  then show ?case using acc_push_limits [of a r] by (simp add: split_beta acc_same_limits_def)
qed simp

text \<open>A list that starts and ends on a mark and alternates has odd length.\<close>

lemma alternating_parity:
  "alternating f ts \<Longrightarrow> ts \<noteq> [] \<Longrightarrow> (f (hd ts) = (f (last ts) :: bool)) = odd (length ts)"
proof (induction ts rule: induct_list012)
  case (3 x y zs)
  then show ?case by auto
qed auto

lemma acc_close_feed_space:
  assumes "acc_wf (fst st)" "odd (length (acc_current (fst st))) \<or> acc_current (fst st) = []"
    and "even (acc_max_edges (fst st))" "1 \<le> acc_min_edges (fst st)"
    and p: "\<not> run_on p" "acc_current (fst st) \<noteq> [] \<longrightarrow> 0 < run_us p"
  shows "acc_close (acc_feed st p) = acc_close st"
proof (cases "acc_gap_us (fst st) \<le> run_us p")
  case True
  then show ?thesis using p assms(4) by (simp add: acc_feed_gap acc_close_empty)
next
  case False
  let ?a = "fst st"
  show ?thesis
  proof (cases "acc_current ?a = []")
    case True
    then show ?thesis using False p by (simp add: acc_feed_def acc_push_def)
  next
    case act: False
    have "length (acc_current ?a) \<le> acc_max_edges ?a" using assms(1) by (simp add: acc_wf_def)
    moreover have "odd (length (acc_current ?a))" using assms(2) act by blast
    ultimately have "length (acc_current ?a) + 1 \<le> acc_max_edges ?a"
      using assms(3) by (metis Suc_eq_plus1 le_neq_implies_less less_eq_Suc_le)
    then have "acc_feed st p = (?a\<lparr>acc_current := acc_current ?a @ [- run_us p]\<rparr>, snd st)"
      using False act p by (simp add: acc_feed_def acc_push_def run_signed_def)
    then show ?thesis using p act
      by (simp add: acc_close_def acc_finish_def Let_def split_beta)
  qed
qed

section \<open>The relation\<close>

text \<open>The slicing parameters and what the doubles guarantee about them: a run that is no glitch
  has a positive duration, and a run of \<open>gap_samples\<close> lasts at least \<open>gap_us\<close>. Both hold up
  to \<open>max_len\<close> samples.\<close>

record slicing =
  sl_ups :: f64
  sl_min_samples :: nat
  sl_gap_samples :: nat
  sl_gap_us :: int
  sl_min_edges :: nat
  sl_max_len :: nat

definition slicing_ok :: "slicing \<Rightarrow> bool" where
  "slicing_ok p \<longleftrightarrow>
     1 \<le> sl_min_samples p \<and> sl_min_samples p \<le> sl_gap_samples p \<and> 1 \<le> sl_min_edges p \<and>
     (\<forall>n < sl_max_len p. 0 \<le> run_duration n (sl_ups p)) \<and>
     (\<forall>n < sl_max_len p. sl_min_samples p \<le> n \<longrightarrow> 0 < run_duration n (sl_ups p)) \<and>
     (\<forall>n < sl_max_len p. sl_gap_samples p \<le> n \<longrightarrow> sl_gap_us p \<le> run_duration n (sl_ups p))"

definition out_ok :: "run list \<Rightarrow> bool" where
  "out_ok out \<longleftrightarrow>
     alternating run_on out \<and> (out \<noteq> [] \<longrightarrow> \<not> run_on (hd out) \<and> 0 \<le> run_us (hd out)) \<and>
     (\<forall>r \<in> set (tl out). 0 < run_us r)"

abbreviation fed :: "slicing \<Rightarrow> run list \<Rightarrow> burst_accumulator \<times> int list list" where
  "fed p out \<equiv> acc_push_all (acc_new (sl_gap_us p) (sl_min_edges p)) out"

text \<open>Between gaps: nothing yet, or the last run held back; or, after an early flush, a gap
  held back whose burst is already delivered.\<close>

definition rel_open :: "slicing \<Rightarrow> run list \<Rightarrow> run option \<Rightarrow> burst_accumulator \<times> int list list \<Rightarrow> bool" where
  "rel_open p out pend st \<longleftrightarrow>
     out = [] \<and> pend = None \<and> st = fed p [] \<or>
     (\<exists>out' r. out = out' @ [r] \<and> pend = Some r \<and> st = fed p out') \<or>
     (\<exists>out' r q. out = out' @ [r] \<and> pend = Some q \<and> \<not> run_on r \<and> \<not> run_on q \<and>
        sl_gap_us p \<le> run_us r \<and> sl_gap_us p \<le> run_us q \<and> st = acc_close (fed p out'))"

text \<open>Inside a gap that has been acted on. A space before it will coalesce with it offline.\<close>

definition before_gap :: "run list \<Rightarrow> run list" where
  "before_gap out = (if out \<noteq> [] \<and> \<not> run_on (last out) then butlast out else out)"

definition rel_gap :: "slicing \<Rightarrow> run list \<Rightarrow> run option \<Rightarrow> burst_accumulator \<times> int list list \<Rightarrow> bool" where
  "rel_gap p out pend st \<longleftrightarrow> pend = None \<and> st = acc_close (fed p (before_gap out))"

lemma out_ok_push:
  assumes "slicing_ok p" "out_ok out" "n < sl_max_len p" "out = [] \<longrightarrow> \<not> on"
  shows "out_ok (push_run out on n (sl_min_samples p) (sl_ups p))"
proof -
  have d: "0 \<le> run_duration n (sl_ups p)" "sl_min_samples p \<le> n \<longrightarrow> 0 < run_duration n (sl_ups p)"
    using assms(1,3) by (simp_all add: slicing_ok_def)
  have alt: "alternating run_on (push_run out on n (sl_min_samples p) (sl_ups p))"
    using assms(2) by (intro push_run_alternating) (simp add: out_ok_def)
  show ?thesis
  proof (cases out rule: rev_cases)
    case Nil
    then show ?thesis using alt assms(4) d by (simp add: push_run_def out_ok_def)
  next
    case (snoc xs r)
    show ?thesis
    proof (cases xs)
      case Nil
      then show ?thesis using alt assms(2) d snoc by (auto simp: push_run_def out_ok_def Let_def)
    next
      case (Cons y ys)
      then show ?thesis using alt assms(2) d snoc by (auto simp: push_run_def out_ok_def Let_def)
    qed
  qed
qed

lemma out_ok_prefix: "out_ok (xs @ ys) \<Longrightarrow> out_ok xs"
proof -
  assume ok: "out_ok (xs @ ys)"
  then have "alternating run_on xs" by (simp add: out_ok_def alternating_append)
  then show ?thesis using ok by (cases xs) (auto simp: out_ok_def)
qed

lemma out_ok_runs_pos: "out_ok out \<Longrightarrow> runs_pos out"
  by (cases out) (auto simp: out_ok_def runs_pos_def)

text \<open>What the accumulator holds when the runs so far end on a mark.\<close>

lemma fed_state:
  assumes "out_ok out"
  shows "acc_wf (fst (fed p out))"
    and "out \<noteq> [] \<Longrightarrow> acc_current (fst (fed p out)) \<noteq> [] \<Longrightarrow>
         mark_of (last (acc_current (fst (fed p out)))) = run_on (last out)"
proof -
  have acc0: "out \<noteq> [] \<longrightarrow> acc_accepts (acc_new g k) (hd out)" if "out_ok out" for out g k
    using that by (auto simp: out_ok_def acc_accepts_def acc_new_def)
  have wf: "acc_wf (fst (fed p out))" if "out_ok out" for out
    using acc_push_all_bursts [of out "acc_new (sl_gap_us p) (sl_min_edges p)"] that acc0 out_ok_runs_pos
    by (simp add: out_ok_def)
  show "acc_wf (fst (fed p out))" using wf assms by blast
  show "out \<noteq> [] \<Longrightarrow> acc_current (fst (fed p out)) \<noteq> [] \<Longrightarrow>
         mark_of (last (acc_current (fst (fed p out)))) = run_on (last out)"
    using assms
  proof (induction out rule: rev_induct)
    case (snoc r out)
    have okp: "out_ok out" using snoc.prems by (blast dest: out_ok_prefix)
    have "acc_accepts (fst (fed p out)) r"
    proof (cases "out = []")
      case True
      then show ?thesis using acc0 [OF snoc.prems(3)] by simp
    next
      case False
      then have "run_on (last out) \<noteq> run_on r" "0 < run_us r"
        using snoc.prems(3) by (auto simp: out_ok_def alternating_append)
      then show ?thesis using snoc.IH False okp by (auto simp: acc_accepts_def)
    qed
    from acc_push_burst(3) [OF wf [OF okp] this] show ?case
      using snoc.prems(2) by (simp add: acc_push_all_snoc acc_feed_def split_beta)
  qed simp
qed

lemma fed_odd:
  assumes "out_ok out" "out = [] \<or> run_on (last out)"
  shows "odd (length (acc_current (fst (fed p out)))) \<or> acc_current (fst (fed p out)) = []"
proof (cases "acc_current (fst (fed p out)) = [] \<or> out = []")
  case True
  then show ?thesis by (auto simp: acc_new_def)
next
  case False
  let ?c = "acc_current (fst (fed p out))"
  have "mark_of (last ?c)" using fed_state(2) [OF assms(1), of p] assms(2) False by blast
  moreover have "alternating mark_of ?c" "mark_of (hd ?c)"
    using fed_state(1) [OF assms(1), of p] False by (auto simp: acc_wf_def timings_wf_def)
  ultimately show ?thesis using alternating_parity [of mark_of ?c] False by simp
qed

lemma fed_fields [simp]:
  "acc_gap_us (fst (fed p out)) = sl_gap_us p"
  "acc_min_edges (fst (fed p out)) = sl_min_edges p"
  "acc_max_edges (fst (fed p out)) = max_burst_edges"
  using acc_push_all_fields [of "acc_new (sl_gap_us p) (sl_min_edges p)" out] by (simp_all add: acc_new_def)

section \<open>The detector's three moves keep the relation\<close>

text \<open>\<open>emit_run\<close>, \<open>flush_gap\<close> on the part of the detector the relation sees.\<close>

definition emit_core ::
  "slicing \<Rightarrow> bool \<Rightarrow> nat \<Rightarrow> run option \<Rightarrow> burst_accumulator \<times> int list list
    \<Rightarrow> run option \<times> (burst_accumulator \<times> int list list)" where
  "emit_core p on n pend st =
     (let r = \<lparr>run_on = on, run_us = run_duration n (sl_ups p)\<rparr> in
      case pend of
        None \<Rightarrow> (Some r, st)
      | Some q \<Rightarrow>
          if n < sl_min_samples p \<or> run_on q = on
          then (Some (q\<lparr>run_us := run_us q + run_us r\<rparr>), st)
          else (Some r, acc_feed st q))"

definition flush_core ::
  "run option \<Rightarrow> burst_accumulator \<times> int list list \<Rightarrow> burst_accumulator \<times> int list list" where
  "flush_core pend st = acc_close (case pend of None \<Rightarrow> st | Some q \<Rightarrow> acc_feed st q)"

lemma emit_open:
  assumes p: "slicing_ok p" and n: "n < sl_max_len p" and rel: "rel_open p out pend st"
  shows "rel_open p (push_run out on n (sl_min_samples p) (sl_ups p))
           (fst (emit_core p on n pend st)) (snd (emit_core p on n pend st))"
proof -
  let ?us = "run_duration n (sl_ups p)"
  let ?r = "\<lparr>run_on = on, run_us = ?us\<rparr>"
  have us: "0 \<le> ?us" using p n by (simp add: slicing_ok_def)
  from rel consider
      (start) "out = []" "pend = None" "st = fed p []"
    | (held) out' r where "out = out' @ [r]" "pend = Some r" "st = fed p out'"
    | (gap) out' r q where "out = out' @ [r]" "pend = Some q" "\<not> run_on r" "\<not> run_on q"
        "sl_gap_us p \<le> run_us r" "sl_gap_us p \<le> run_us q" "st = acc_close (fed p out')"
    unfolding rel_open_def by blast
  then show ?thesis
  proof cases
    case start
    then have "push_run out on n (sl_min_samples p) (sl_ups p) = [] @ [?r]" by (simp add: push_run_def)
    then show ?thesis using start unfolding rel_open_def emit_core_def by simp
  next
    case held
    show ?thesis
    proof (cases "n < sl_min_samples p \<or> run_on r = on")
      case True
      then have "push_run out on n (sl_min_samples p) (sl_ups p) = out' @ [r\<lparr>run_us := run_us r + ?us\<rparr>]"
        using held by (auto simp: push_run_def Let_def)
      then show ?thesis using held True unfolding rel_open_def emit_core_def by (simp add: Let_def)
    next
      case False
      then have "push_run out on n (sl_min_samples p) (sl_ups p) = (out' @ [r]) @ [?r]"
        using held by (simp add: push_run_def Let_def)
      then show ?thesis using held False unfolding rel_open_def emit_core_def
        by (simp add: Let_def acc_push_all_snoc)
    qed
  next
    case gap
    show ?thesis
    proof (cases "n < sl_min_samples p \<or> \<not> on")
      case True
      then have "push_run out on n (sl_min_samples p) (sl_ups p) = out' @ [r\<lparr>run_us := run_us r + ?us\<rparr>]"
        using gap by (auto simp: push_run_def Let_def)
      then show ?thesis using gap True us unfolding rel_open_def emit_core_def by (simp add: Let_def)
    next
      case False
      then have out1: "push_run out on n (sl_min_samples p) (sl_ups p) = (out' @ [r]) @ [?r]"
        using gap by (simp add: push_run_def Let_def)
      have "acc_feed st q = acc_close st" using gap by (intro acc_feed_gap) auto
      also have "\<dots> = st" using gap p by (intro acc_close_empty) (auto simp: slicing_ok_def)
      also have "st = fed p (out' @ [r])"
        using gap by (simp add: acc_push_all_snoc acc_feed_gap)
      finally show ?thesis using gap False out1 unfolding rel_open_def emit_core_def by (simp add: Let_def)
    qed
  qed
qed

lemma emit_gap:
  assumes p: "slicing_ok p" and n: "n < sl_max_len p" "sl_gap_samples p \<le> n"
    and ok: "out_ok out" and rel: "rel_gap p out pend st"
  shows "rel_open p (push_run out False n (sl_min_samples p) (sl_ups p))
           (fst (emit_core p False n pend st)) (snd (emit_core p False n pend st))"
proof -
  let ?us = "run_duration n (sl_ups p)"
  let ?r = "\<lparr>run_on = False, run_us = ?us\<rparr>"
  have us: "sl_gap_us p \<le> ?us" "\<not> n < sl_min_samples p" using p n by (auto simp: slicing_ok_def)
  have e: "emit_core p False n pend st = (Some ?r, acc_close (fed p (before_gap out)))"
    using rel by (simp add: emit_core_def rel_gap_def)
  show ?thesis
  proof (cases "out \<noteq> [] \<and> \<not> run_on (last out)")
    case False
    then have "push_run out False n (sl_min_samples p) (sl_ups p) = before_gap out @ [?r]"
      using us by (auto simp: push_run_def Let_def before_gap_def)
    then show ?thesis using us e unfolding rel_open_def by simp
  next
    case True
    then obtain xs l where xs: "out = xs @ [l]" by (meson rev_exhaust)
    have "0 \<le> run_us l" using ok xs by (cases xs) (auto simp: out_ok_def)
    moreover have "push_run out False n (sl_min_samples p) (sl_ups p) = xs @ [l\<lparr>run_us := run_us l + ?us\<rparr>]"
      using True us xs by (auto simp: push_run_def Let_def)
    moreover have "before_gap out = xs" using True xs by (simp add: before_gap_def)
    ultimately show ?thesis using us e True xs unfolding rel_open_def by simp
  qed
qed

lemma flush_open:
  assumes p: "slicing_ok p" and ok: "out_ok out" and rel: "rel_open p out pend st"
  shows "rel_gap p out None (flush_core pend st)"
proof -
  from rel consider
      (start) "out = []" "pend = None" "st = fed p []"
    | (held) out' r where "out = out' @ [r]" "pend = Some r" "st = fed p out'"
    | (gap) out' r q where "out = out' @ [r]" "pend = Some q" "\<not> run_on r" "\<not> run_on q"
        "sl_gap_us p \<le> run_us r" "sl_gap_us p \<le> run_us q" "st = acc_close (fed p out')"
    unfolding rel_open_def by blast
  then show ?thesis
  proof cases
    case start
    then show ?thesis by (simp add: rel_gap_def flush_core_def before_gap_def)
  next
    case held
    show ?thesis
    proof (cases "run_on r")
      case True
      then show ?thesis using held by (simp add: rel_gap_def flush_core_def before_gap_def acc_push_all_snoc)
    next
      case False
      have okp: "out_ok out'" using ok held by (blast dest: out_ok_prefix)
      have last: "out' = [] \<or> run_on (last out')"
        using ok held False by (auto simp: out_ok_def alternating_append)
      have "acc_current (fst (fed p out')) \<noteq> [] \<longrightarrow> 0 < run_us r"
        using ok held by (cases out') (auto simp: out_ok_def acc_new_def)
      then have "acc_close (acc_feed (fed p out') r) = acc_close (fed p out')"
        using fed_state(1) [OF okp, of p] fed_odd [OF okp last, of p] p False
        by (intro acc_close_feed_space) (auto simp: slicing_ok_def max_burst_edges_def)
      then show ?thesis using held False by (simp add: rel_gap_def flush_core_def before_gap_def)
    qed
  next
    case gap
    have "acc_feed st q = acc_close st" using gap by (intro acc_feed_gap) auto
    also have "\<dots> = st" using gap p by (intro acc_close_empty) (auto simp: slicing_ok_def)
    finally have "flush_core pend st = st"
      using gap p acc_close_empty [of st] by (simp add: flush_core_def slicing_ok_def)
    then show ?thesis using gap by (simp add: rel_gap_def before_gap_def)
  qed
qed

text \<open>At the end of a gap both sides have delivered the same bursts.\<close>

lemma rel_gap_end:
  assumes p: "slicing_ok p" and n: "n < sl_max_len p" "sl_gap_samples p \<le> n"
    and ok: "out_ok out" and rel: "rel_gap p out pend st"
  shows "split_bursts (push_run out False n (sl_min_samples p) (sl_ups p)) (sl_gap_us p) (sl_min_edges p) = snd st"
proof -
  let ?o = "push_run out False n (sl_min_samples p) (sl_ups p)"
  have us: "sl_gap_us p \<le> run_duration n (sl_ups p)" "\<not> n < sl_min_samples p"
    using p n by (auto simp: slicing_ok_def)
  obtain g where g: "?o = before_gap out @ [g]" "\<not> run_on g" "sl_gap_us p \<le> run_us g"
  proof (cases "out \<noteq> [] \<and> \<not> run_on (last out)")
    case False
    then show ?thesis using that us by (auto simp: push_run_def Let_def before_gap_def)
  next
    case True
    then obtain xs l where xs: "out = xs @ [l]" by (meson rev_exhaust)
    have "0 \<le> run_us l" using ok xs by (cases xs) (auto simp: out_ok_def)
    then show ?thesis using that True us xs by (auto simp: push_run_def Let_def before_gap_def)
  qed
  have fo: "fed p ?o = st"
    using g rel by (simp add: acc_push_all_snoc acc_feed_gap rel_gap_def)
  have "acc_close st = st" using rel p by (intro acc_close_empty) (auto simp: rel_gap_def slicing_ok_def)
  then have "snd (acc_close (fed p ?o)) = snd st" using fo by simp
  then show ?thesis by (simp add: split_bursts_def acc_close_def split_beta)
qed

section \<open>From the moves to whole samples\<close>

abbreviation timings_of :: "burst list \<Rightarrow> int list list" where
  "timings_of bs \<equiv> map burst_timings bs"

text \<open>The fields a move leaves alone, and what it does to the others.\<close>

definition same_frame :: "detector \<Rightarrow> detector \<Rightarrow> bool" where
  "same_frame d e \<longleftrightarrow>
     det_config e = det_config d \<and> det_threshold e = det_threshold d \<and>
     det_window_seen e = det_window_seen d \<and> det_min_samples e = det_min_samples d \<and>
     det_gap_samples e = det_gap_samples d \<and> det_on e = det_on d \<and>
     det_run_samples e = det_run_samples d"

lemma deliver_effect:
  "same_frame d (fst (deliver d res bs)) \<and> det_pending (fst (deliver d res bs)) = det_pending d \<and>
   det_accumulator (fst (deliver d res bs)) = det_accumulator d \<and>
   timings_of (snd (deliver d res bs)) = timings_of bs @ opt_list res"
  by (cases res) (simp_all add: deliver_def take_burst_def same_frame_def)

lemma accumulate_effect:
  "same_frame d (fst (accumulate d r bs)) \<and> det_pending (fst (accumulate d r bs)) = det_pending d \<and>
   (det_accumulator (fst (accumulate d r bs)), timings_of (snd (accumulate d r bs))) =
     acc_feed (det_accumulator d, timings_of bs) r"
  using deliver_effect [of "d\<lparr>det_accumulator := fst (acc_push (det_accumulator d) r)\<rparr>"
      "snd (acc_push (det_accumulator d) r)" bs]
  by (simp add: accumulate_def acc_feed_def split_beta same_frame_def)

definition det_matches :: "slicing \<Rightarrow> detector \<Rightarrow> bool" where
  "det_matches p d \<longleftrightarrow>
     sl_ups p = us_per_sample (dc_sample_rate (det_config d)) \<and>
     sl_min_samples p = det_min_samples d \<and> sl_gap_samples p = det_gap_samples d"

lemma emit_run_effect:
  assumes "det_matches p d"
  shows "same_frame d (fst (emit_run d (finished_run d) bs)) \<and>
    (det_pending (fst (emit_run d (finished_run d) bs)),
     det_accumulator (fst (emit_run d (finished_run d) bs)),
     timings_of (snd (emit_run d (finished_run d) bs))) =
      emit_core p (det_on d) (det_run_samples d) (det_pending d) (det_accumulator d, timings_of bs)"
proof (cases "det_pending d")
  case None
  then show ?thesis using assms
    by (simp add: emit_run_def emit_core_def finished_run_def det_matches_def same_frame_def Let_def)
next
  case (Some q)
  let ?r = "finished_run d"
  show ?thesis
    using accumulate_effect [of "d\<lparr>det_pending := Some ?r\<rparr>" q bs] Some assms
    by (simp add: emit_run_def emit_core_def finished_run_def det_matches_def same_frame_def Let_def)
qed

lemma flush_gap_effect:
  "same_frame d (fst (flush_gap d bs)) \<and> det_pending (fst (flush_gap d bs)) = None \<and>
   (det_accumulator (fst (flush_gap d bs)), timings_of (snd (flush_gap d bs))) =
     flush_core (det_pending d) (det_accumulator d, timings_of bs)"
proof -
  define s where "s = (case det_pending d of None \<Rightarrow> (d, bs) | Some q \<Rightarrow> accumulate (d\<lparr>det_pending := None\<rparr>) q bs)"
  define a where "a = acc_finish (det_accumulator (fst s))"
  define e where "e = (fst s)\<lparr>det_accumulator := fst a\<rparr>"
  have s: "same_frame d (fst s)" "det_pending (fst s) = None"
      "flush_core (det_pending d) (det_accumulator d, timings_of bs) =
       acc_close (det_accumulator (fst s), timings_of (snd s))"
    using accumulate_effect [of "d\<lparr>det_pending := None\<rparr>" "the (det_pending d)" bs]
    by (cases "det_pending d"; simp add: s_def same_frame_def flush_core_def)+
  have f: "flush_gap d bs = deliver e (snd a) (snd s)"
    by (simp add: flush_gap_def split_beta s_def a_def e_def)
  have e: "same_frame d e" "det_pending e = None" "det_accumulator e = fst a"
    using s(1,2) by (simp_all add: e_def same_frame_def)
  have c: "flush_core (det_pending d) (det_accumulator d, timings_of bs) = (fst a, timings_of (snd s) @ opt_list (snd a))"
    unfolding s(3) by (simp add: acc_close_def split_beta a_def)
  show ?thesis unfolding f c using deliver_effect [of e "snd a" "snd s"] e
    by (auto simp: same_frame_def)
qed

definition det_rel :: "slicing \<Rightarrow> detector \<times> burst list \<Rightarrow> run list \<Rightarrow> bool \<Rightarrow> nat \<Rightarrow> bool" where
  "det_rel p st out cur len \<longleftrightarrow>
     (let (d, bs) = st in
      det_matches p d \<and> det_on d = cur \<and> det_run_samples d = len \<and> out_ok out \<and> (out = [] \<longrightarrow> \<not> cur) \<and>
      (if \<not> cur \<and> sl_gap_samples p \<le> len
       then rel_gap p out (det_pending d) (det_accumulator d, timings_of bs)
       else rel_open p out (det_pending d) (det_accumulator d, timings_of bs)))"

text \<open>The check at the end of \<open>push_sample\<close>, from a state whose run has just reached \<open>len\<close>.\<close>

lemma gap_check:
  assumes p: "slicing_ok p" and m: "det_matches p d" "det_on d = cur" "det_run_samples d = len"
    and ok: "out_ok out" "out = [] \<longrightarrow> \<not> cur"
    and rel: "if \<not> cur \<and> sl_gap_samples p < len
       then rel_gap p out (det_pending d) (det_accumulator d, timings_of bs)
       else rel_open p out (det_pending d) (det_accumulator d, timings_of bs)"
  shows "det_rel p (if \<not> det_on d \<and> det_run_samples d = det_gap_samples d then flush_gap d bs else (d, bs)) out cur len"
proof (cases "\<not> cur \<and> len = sl_gap_samples p")
  case True
  have gs: "det_gap_samples d = len" using m(1) True by (simp add: det_matches_def)
  have "rel_gap p out None (flush_core (det_pending d) (det_accumulator d, timings_of bs))"
    using rel True by (intro flush_open [OF p ok(1)]) simp
  then show ?thesis using flush_gap_effect [of d bs] m ok True gs
    by (auto simp: det_rel_def split_beta same_frame_def det_matches_def)
next
  case False
  then have ne: "\<not> (\<not> det_on d \<and> det_run_samples d = det_gap_samples d)"
    using m by (auto simp: det_matches_def)
  have "(\<not> cur \<and> sl_gap_samples p \<le> len) = (\<not> cur \<and> sl_gap_samples p < len)" using False by auto
  then show ?thesis using rel m ok unfolding if_not_P [OF ne] det_rel_def by simp
qed

lemma push_sample_rel:
  assumes p: "slicing_ok p" and rel: "det_rel p (d, bs) out cur len" and len: "len < sl_max_len p"
  shows "if (thr \<le> m) = cur
         then det_rel p (push_sample d m thr bs) out cur (len + 1)
         else det_rel p (push_sample d m thr bs)
                (push_run out cur len (sl_min_samples p) (sl_ups p)) (thr \<le> m) 1"
proof -
  define on where "on = (thr \<le> m)"
  define mk where "mk e = (if on then e\<lparr>det_burst_peak := max (det_burst_peak e) m\<rparr> else e)" for e :: detector
  define ck where "ck e b = (if \<not> det_on e \<and> det_run_samples e = det_gap_samples e then flush_gap e b else (e, b))"
    for e :: detector and b
  define s where "s = emit_run d (finished_run d) bs"
  have push: "push_sample d m thr bs =
      (if on = det_on d then ck (mk (d\<lparr>det_run_samples := det_run_samples d + 1\<rparr>)) bs
       else ck (mk ((fst s)\<lparr>det_on := on, det_run_samples := 1\<rparr>)) (snd s))"
    unfolding push_sample_def Let_def split_beta on_def [symmetric] s_def mk_def ck_def
    by (cases "on = det_on d") (simp_all only: if_True if_False fst_conv snd_conv simp_thms)
  have d: "det_matches p d" "det_on d = cur" "det_run_samples d = len" "out_ok out" "out = [] \<longrightarrow> \<not> cur"
    using rel by (simp_all add: det_rel_def)
  have mk: "det_matches p (mk e) = det_matches p e" "det_on (mk e) = det_on e"
    "det_run_samples (mk e) = det_run_samples e" "det_pending (mk e) = det_pending e"
    "det_accumulator (mk e) = det_accumulator e" for e
    by (simp_all add: mk_def det_matches_def)
  have bump: "det_rel p (ck (mk e) b) o' c k"
    if "det_matches p e" "det_on e = c" "det_run_samples e = k" "out_ok o'" "o' = [] \<longrightarrow> \<not> c"
       "if \<not> c \<and> sl_gap_samples p < k
        then rel_gap p o' (det_pending e) (det_accumulator e, timings_of b)
        else rel_open p o' (det_pending e) (det_accumulator e, timings_of b)" for e b o' c k
    unfolding ck_def by (rule gap_check [OF p]) (use that in \<open>simp_all add: mk\<close>)
  show ?thesis
  proof (cases "on = cur")
    case True
    have "det_rel p (ck (mk (d\<lparr>det_run_samples := len + 1\<rparr>)) bs) out cur (len + 1)"
      by (rule bump) (use rel d in \<open>auto simp: det_rel_def det_matches_def\<close>)
    then show ?thesis using True d by (simp add: push on_def)
  next
    case False
    let ?o = "push_run out cur len (sl_min_samples p) (sl_ups p)"
    have eff: "same_frame d (fst s)" "(det_pending (fst s), det_accumulator (fst s), timings_of (snd s)) =
        emit_core p cur len (det_pending d) (det_accumulator d, timings_of bs)"
      using emit_run_effect [OF d(1), of bs] d by (auto simp: s_def)
    have "rel_open p ?o (fst (emit_core p cur len (det_pending d) (det_accumulator d, timings_of bs)))
          (snd (emit_core p cur len (det_pending d) (det_accumulator d, timings_of bs)))"
    proof (cases "\<not> cur \<and> sl_gap_samples p \<le> len")
      case True
      then show ?thesis using emit_gap [OF p len _ d(4)] rel by (simp add: det_rel_def)
    next
      case False
      then show ?thesis using emit_open [OF p len] rel by (auto simp: det_rel_def)
    qed
    then have ro: "rel_open p ?o (det_pending (fst s)) (det_accumulator (fst s), timings_of (snd s))"
      unfolding eff(2) [symmetric] by simp
    have ok: "out_ok ?o" using out_ok_push [OF p d(4) len] d(5) by blast
    have ne: "?o \<noteq> []" by (simp add: push_run_def Let_def)
    have gs: "\<not> sl_gap_samples p < 1" using p by (auto simp: slicing_ok_def)
    have "det_rel p (ck (mk ((fst s)\<lparr>det_on := on, det_run_samples := 1\<rparr>)) (snd s)) ?o on 1"
      by (rule bump) (use d eff(1) ro ok gs ne in \<open>auto simp: det_matches_def same_frame_def\<close>)
    then show ?thesis using False d by (simp add: push on_def)
  qed
qed

section \<open>A window of samples\<close>

lemma det_rel_ignores:
  assumes "det_rel p (d, bs) out cur len"
  shows "det_rel p (d\<lparr>det_histogram := h, det_window_seen := n\<rparr>, bs) out cur len"
    and "det_rel p (d\<lparr>det_threshold := t, det_histogram := h, det_window_seen := n\<rparr>, bs) out cur len"
  using assms by (auto simp: det_rel_def det_matches_def)

lemma det_rel_retune: "det_rel p (d, bs) out cur len \<Longrightarrow> det_rel p (retune d, bs) out cur len"
  unfolding retune_def by (rule det_rel_ignores(2))

text \<open>The frame of a sample: only the histogram and the window count move, until the retune.\<close>

lemma push_sample_frame:
  "det_config (fst (push_sample d m thr bs)) = det_config d \<and>
   det_threshold (fst (push_sample d m thr bs)) = det_threshold d \<and>
   det_window_seen (fst (push_sample d m thr bs)) = det_window_seen d"
proof -
  define p where "p = \<lparr>sl_ups = us_per_sample (dc_sample_rate (det_config d)), sl_min_samples = det_min_samples d,
    sl_gap_samples = det_gap_samples d, sl_gap_us = 0, sl_min_edges = 0, sl_max_len = 0\<rparr>"
  have m: "det_matches p d" by (simp add: p_def det_matches_def)
  have e: "same_frame d (fst (emit_run d (finished_run d) bs))" using emit_run_effect [OF m] by blast
  have f: "same_frame x (fst (flush_gap x b))" for x b using flush_gap_effect by blast
  show ?thesis using e f unfolding push_sample_def Let_def split_beta same_frame_def
    by (cases "thr \<le> m"; cases "(thr \<le> m) = det_on d") simp_all
qed

fun tail_run :: "nat \<Rightarrow> bool \<times> nat \<Rightarrow> nat list \<Rightarrow> bool \<times> nat" where
  "tail_run thr s [] = s"
| "tail_run thr s (m # ms) =
     tail_run thr (if (thr \<le> m) = fst s then (fst s, snd s + 1) else (thr \<le> m, 1)) ms"

lemma tail_run_append: "tail_run thr s (xs @ ys) = tail_run thr (tail_run thr s xs) ys"
  by (induction xs arbitrary: s) auto

lemma tail_run_silence:
  "\<forall>m \<in> set ms. m < thr \<Longrightarrow> \<not> fst s \<Longrightarrow> tail_run thr s ms = (False, snd s + length ms)"
  by (induction ms arbitrary: s) (auto simp: not_le)

lemma tail_run_gap:
  assumes "\<forall>m \<in> set ys. m < thr" "ys \<noteq> []"
  shows "\<not> fst (tail_run thr s (xs @ ys)) \<and> length ys \<le> snd (tail_run thr s (xs @ ys))"
proof -
  obtain y zs where y: "ys = y # zs" using assms(2) by (cases ys) auto
  define t where "t = tail_run thr s xs"
  have "tail_run thr s (xs @ ys) = tail_run thr (False, if fst t then 1 else snd t + 1) zs"
    using assms y by (auto simp: tail_run_append t_def [symmetric] not_le)
  then show ?thesis using assms y tail_run_silence [of zs thr "(False, if fst t then 1 else snd t + 1)"] by auto
qed

lemma det_fold_rel:
  assumes "slicing_ok p" "det_rel p (d, bs) out cur len" "len + length ms < sl_max_len p"
    and "ms \<noteq> [] \<longrightarrow> det_threshold d = Some thr"
    and "det_window_seen d + length ms \<le> dc_window_samples (det_config d)"
  shows "\<exists>out' cur' len'. (cur', len') = tail_run thr (cur, len) ms \<and> len' < sl_max_len p \<and>
     det_rel p (foldl det_step (d, bs) ms) out' cur' len' \<and>
     runs_loop ms thr (sl_min_samples p) (sl_ups p) out cur len =
       push_run out' cur' len' (sl_min_samples p) (sl_ups p)"
  using assms
proof (induction ms arbitrary: d bs out cur len)
  case Nil
  then show ?case by auto
next
  case (Cons m ms)
  define d1 where "d1 = d\<lparr>det_histogram := add_magnitude (det_histogram d) m, det_window_seen := det_window_seen d + 1\<rparr>"
  define s where "s = push_sample d1 m thr bs"
  define d2 where "d2 = (if dc_window_samples (det_config (fst s)) \<le> det_window_seen (fst s) then retune (fst s) else fst s)"
  have thr: "det_threshold d = Some thr" using Cons.prems(4) by simp
  have step: "det_step (d, bs) m = (d2, snd s)"
    using thr by (simp add: det_step_def Let_def split_beta d1_def [symmetric] d2_def s_def) (simp add: d1_def)
  have fr: "det_config (fst s) = det_config d" "det_threshold (fst s) = Some thr"
      "det_window_seen (fst s) = det_window_seen d + 1"
    using push_sample_frame [of d1 m thr bs] thr by (simp_all add: s_def d1_def)
  have d2: "det_config d2 = det_config d" "ms \<noteq> [] \<longrightarrow> det_threshold d2 = Some thr"
      "det_window_seen d2 + length ms \<le> dc_window_samples (det_config d2)"
    using fr Cons.prems(5) by (cases ms; simp add: d2_def retune_def)+
  define o' where "o' = (if (thr \<le> m) = cur then out else push_run out cur len (sl_min_samples p) (sl_ups p))"
  define l' where "l' = (if (thr \<le> m) = cur then len + 1 else 1)"
  have r1: "det_rel p (d1, bs) out cur len" using det_rel_ignores(1) [OF Cons.prems(2)] by (simp add: d1_def)
  have "det_rel p (fst s, snd s) o' (thr \<le> m) l'"
    using push_sample_rel [OF Cons.prems(1) r1, of thr m] Cons.prems(3)
    by (auto simp: s_def [symmetric] o'_def l'_def split: if_splits)
  then have r2: "det_rel p (d2, snd s) o' (thr \<le> m) l'" by (simp add: d2_def det_rel_retune)
  have l': "l' + length ms < sl_max_len p" using Cons.prems(3) by (simp add: l'_def)
  have loop: "runs_loop (m # ms) thr (sl_min_samples p) (sl_ups p) out cur len =
      runs_loop ms thr (sl_min_samples p) (sl_ups p) o' (thr \<le> m) l'"
    and tail: "tail_run thr (cur, len) (m # ms) = tail_run thr (thr \<le> m, l') ms"
    by (auto simp: o'_def l'_def Let_def)
  show ?case unfolding loop tail foldl_Cons step
    by (rule Cons.IH [OF Cons.prems(1) r2 l' d2(2,3)])
qed

section \<open>Learning, then slicing\<close>

definition slicing_of :: "detector_config \<Rightarrow> slicing" where
  "slicing_of c = \<lparr>sl_ups = us_per_sample (dc_sample_rate c), sl_min_samples = det_min_samples (detector_new c),
     sl_gap_samples = det_gap_samples (detector_new c), sl_gap_us = dc_gap_us c,
     sl_min_edges = dc_min_edges c, sl_max_len = 2 ^ 50\<rparr>"

definition config_ok :: "detector_config \<Rightarrow> bool" where
  "config_ok c \<longleftrightarrow>
     rate_ok (dc_sample_rate c) \<and> 1 \<le> dc_min_us c \<and> int (dc_min_us c) \<le> dc_gap_us c \<and>
     dc_gap_us c < 2 ^ 40 \<and> 1 \<le> dc_min_edges c"

lemma run_duration_0: "rate_ok r \<Longrightarrow> run_duration 0 (us_per_sample r) = 0"
proof -
  assume r: "rate_ok r"
  have "f64_range (us_rat r)" using rate_rat [OF r] by (intro f64_range_easy) simp_all
  then obtain y where "to_f64 (us_rat r) = Fin y" by (auto elim: to_f64_err)
  moreover have "to_f64 0 = Fin 0" using to_f64_of_int [of 0] by simp
  moreover have "round_away 0 = 0" "f_as_i64 (Fin 0) = 0"
    using round_away_of_int [of 0] f_as_i64_of_int [of 0] by (simp_all add: in_i64_def i64_min_def i64_max_def)
  ultimately show ?thesis using r by (simp add: run_duration_def us_per_sample_eq f64_of_nat_def)
qed

lemma run_duration_nonneg:
  assumes r: "rate_ok r" and n: "n < 2 ^ 50"
  shows "0 \<le> run_duration n (us_per_sample r)"
proof (cases "n = 0")
  case False
  define P where "P = of_nat n * us_rat r"
  obtain z where "run_duration n (us_per_sample r) = round_away z" "\<bar>z - P\<bar> \<le> P / 2 ^ 51"
    unfolding P_def using run_duration_approx [OF r _ n] False by (metis One_nat_def Suc_leI neq0_conv)
  moreover have "0 \<le> P" using rate_rat [OF r] by (simp add: P_def)
  ultimately show ?thesis using abs_errD [of z P "P / 2 ^ 51"] by (simp add: round_away_nonneg)
qed (simp add: r run_duration_0)

lemma slicing_of_ok:
  assumes "config_ok c"
  shows "slicing_ok (slicing_of c)"
proof -
  let ?r = "dc_sample_rate c" and ?m = "dc_min_us c"
  define g where "g = nat (dc_gap_us c)"
  have c: "rate_ok ?r" "1 \<le> ?m" "?m \<le> g" "g < 2 ^ 40" "1 \<le> dc_min_edges c" "dc_gap_us c = int g"
    using assms by (auto simp: config_ok_def g_def)
  have gs: "det_gap_samples (detector_new c) = us_to_samples (f64_of_nat g) (us_per_sample ?r)"
    by (simp add: detector_new_def Let_def c(6) f64_of_int_def f64_of_nat_def)
  have ms: "det_min_samples (detector_new c) = us_to_samples (f64_of_nat ?m) (us_per_sample ?r)"
    by (simp add: detector_new_def Let_def)
  have m40: "?m < 2 ^ 40" using c by simp
  have "us_to_samples (f64_of_nat 0) (us_per_sample ?r) \<le> us_to_samples (f64_of_nat ?m) (us_per_sample ?r)"
    by (rule us_to_samples_mono [OF c(1) _ m40]) simp
  then have "1 \<le> us_to_samples (f64_of_nat ?m) (us_per_sample ?r)" using us_to_samples_0 [OF c(1)] by simp
  moreover have "us_to_samples (f64_of_nat ?m) (us_per_sample ?r) \<le> us_to_samples (f64_of_nat g) (us_per_sample ?r)"
    by (rule us_to_samples_mono [OF c(1) c(3) c(4)])
  moreover have "0 < run_duration n (us_per_sample ?r)"
    if "n < 2 ^ 50" "us_to_samples (f64_of_nat ?m) (us_per_sample ?r) \<le> n" for n
    using run_duration_ge [OF c(1) c(2) m40 that(2,1)] c(2) by simp
  moreover have "int g \<le> run_duration n (us_per_sample ?r)"
    if "n < 2 ^ 50" "us_to_samples (f64_of_nat g) (us_per_sample ?r) \<le> n" for n
    using run_duration_ge [OF c(1) _ c(4) that(2,1)] c by simp
  ultimately show ?thesis using c run_duration_nonneg [OF c(1)]
    unfolding slicing_ok_def by (simp add: slicing_of_def gs ms)
qed

text \<open>Until the first window is full the detector only measures.\<close>

lemma det_learns:
  assumes "det_threshold d = None"
    and "det_window_seen d + length ms \<le> dc_window_samples (det_config d)"
  shows "foldl det_step (d, bs) ms =
     (let h = foldl add_magnitude (det_histogram d) ms; n = det_window_seen d + length ms
      in (if ms \<noteq> [] \<and> n = dc_window_samples (det_config d)
          then d\<lparr>det_threshold := Some (retuned_threshold (det_config d) h), det_histogram := hist_new,
                 det_window_seen := 0\<rparr>
          else d\<lparr>det_histogram := h, det_window_seen := n\<rparr>, bs))"
  using assms
proof (induction ms arbitrary: d)
  case (Cons m ms)
  define d1 where "d1 = d\<lparr>det_histogram := add_magnitude (det_histogram d) m, det_window_seen := det_window_seen d + 1\<rparr>"
  have step: "det_step (d, bs) m =
      (if dc_window_samples (det_config d) \<le> det_window_seen d + 1 then retune d1 else d1, bs)"
    using Cons.prems(1) by (simp add: det_step_def Let_def d1_def)
  show ?case
  proof (cases "ms = []")
    case True
    then show ?thesis unfolding foldl_Cons step using Cons.prems(2) by (simp add: d1_def retune_def Let_def)
  next
    case False
    then have "\<not> dc_window_samples (det_config d) \<le> det_window_seen d + 1"
      using Cons.prems(2) by (cases ms) auto
    then show ?thesis unfolding foldl_Cons step using Cons.IH [of d1] Cons.prems False
      by (simp add: d1_def Let_def)
  qed
qed simp

definition armed :: "detector_config \<Rightarrow> nat \<Rightarrow> detector" where
  "armed c thr = (detector_new c)\<lparr>det_threshold := Some thr\<rparr>"

lemma det_first_window:
  assumes "length (envelope iq) = dc_window_samples c" "1 \<le> dc_window_samples c"
  shows "det_push (detector_new c) iq =
     (armed c (retuned_threshold c (add_iq hist_new iq)), [])"
  using assms det_learns [of "detector_new c" "envelope iq" "[]"]
  by (auto simp: det_push_envelope armed_def detector_new_def Let_def add_iq_envelope)

lemma armed_rel: "slicing_ok (slicing_of c) \<Longrightarrow> det_rel (slicing_of c) (armed c thr, []) [] False 0"
proof -
  assume p: "slicing_ok (slicing_of c)"
  let ?p = "slicing_of c"
  have m: "det_matches ?p (armed c thr)"
    by (simp add: det_matches_def armed_def slicing_of_def detector_new_def Let_def)
  have r: "rel_open ?p [] None (acc_new (dc_gap_us c) (dc_min_edges c), [])"
    by (simp add: rel_open_def slicing_of_def)
  have g: "0 < sl_gap_samples (slicing_of c)" using p by (simp add: slicing_ok_def)
  show ?thesis using m r g unfolding det_rel_def
    by (simp add: armed_def detector_new_def Let_def out_ok_def)
qed

text \<open>The main lemma: an armed detector over one window that starts and ends in silence.\<close>

lemma armed_stream:
  assumes c: "config_ok c" and mag: "envelope iq = xs @ ys"
    and start: "xs = [] \<or> hd xs < thr"
    and quiet: "\<forall>m \<in> set ys. m < thr" "det_gap_samples (detector_new c) \<le> length ys"
    and window: "length (envelope iq) \<le> dc_window_samples c" "length (envelope iq) < 2 ^ 50"
  shows "timings_of (snd (det_push (armed c thr) iq)) =
     split_bursts (runs (envelope iq) thr (dc_sample_rate c) (dc_min_us c)) (dc_gap_us c) (dc_min_edges c)"
proof -
  let ?p = "slicing_of c" and ?ms = "envelope iq"
  have p: "slicing_ok ?p" by (rule slicing_of_ok [OF c])
  have ys: "ys \<noteq> []" using quiet(2) p by (auto simp: slicing_ok_def slicing_of_def)
  have hd: "hd ?ms < thr" "?ms \<noteq> []" using start quiet(1) ys mag by (cases xs; cases ys; auto)+
  have seen: "det_window_seen (armed c thr) + length ?ms \<le> dc_window_samples (det_config (armed c thr))"
    using window by (simp add: armed_def detector_new_def Let_def)
  have len: "0 + length ?ms < sl_max_len ?p" using window(2) by (simp add: slicing_of_def)
  obtain out cur n where o: "(cur, n) = tail_run thr (False, 0) ?ms" "n < sl_max_len ?p"
      "det_rel ?p (foldl det_step (armed c thr, []) ?ms) out cur n"
      "runs_loop ?ms thr (sl_min_samples ?p) (sl_ups ?p) [] False 0 = push_run out cur n (sl_min_samples ?p) (sl_ups ?p)"
    using det_fold_rel [OF p armed_rel [OF p] len _ seen, of thr] by (auto simp: armed_def)
  have g: "\<not> cur" "sl_gap_samples ?p \<le> n"
    using tail_run_gap [OF quiet(1) ys, of "(False, 0)" xs] o(1) quiet(2) mag
    by (auto simp: slicing_of_def dest: sym [of "(cur, n)"])
  define d where "d = fst (foldl det_step (armed c thr, []) ?ms)"
  define bs where "bs = snd (foldl det_step (armed c thr, []) ?ms)"
  have rg: "rel_gap ?p out (det_pending d) (det_accumulator d, timings_of bs)" "out_ok out"
    using o(3) g by (auto simp: det_rel_def d_def bs_def split_beta)
  have "runs ?ms thr (dc_sample_rate c) (dc_min_us c) =
      runs_loop ?ms thr (sl_min_samples ?p) (sl_ups ?p) [] False 0"
    using hd by (cases ?ms) (auto simp: runs_def slicing_of_def detector_new_def Let_def)
  then have "split_bursts (runs ?ms thr (dc_sample_rate c) (dc_min_us c)) (sl_gap_us ?p) (sl_min_edges ?p) = timings_of bs"
    using rel_gap_end [OF p o(2) g(2) rg(2,1)] o(4) g(1) by simp
  then show ?thesis by (simp add: slicing_of_def bs_def det_push_envelope)
qed

end
