(* ===== verification/Arbiter_Properties.thy ===== *)
theory Arbiter_Properties
  imports Arbiter Ook_Stream
begin

text \<open>
  What the arbiter promises the server and its clients: one reply per request and of its
  kind, true announcements, counters that add up, bounded retries, and frames exactly as the
  detector hears them.
\<close>

section \<open>The ledger: replies, frames and their counters\<close>

definition is_reply :: "outgoing \<Rightarrow> bool" where
  "is_reply x = (case x of Event _ \<Rightarrow> False | _ \<Rightarrow> True)"

definition frame_of :: "outgoing \<Rightarrow> rx_frame option" where
  "frame_of x = (case x of Event m \<Rightarrow> (case msg_payload m of Rx_Frame f \<Rightarrow> Some f | _ \<Rightarrow> None) | _ \<Rightarrow> None)"

definition replies :: "outgoing list \<Rightarrow> outgoing list" where
  "replies out = filter is_reply out"

definition frames :: "outgoing list \<Rightarrow> rx_frame list" where
  "frames out = List.map_filter frame_of out"

lemma is_reply_simps [simp]:
  "\<not> is_reply (Event m)" "is_reply (Transmit_Reply r)" "is_reply (Configure_Reply u)" "is_reply (Status_Reply st)"
  by (simp_all add: is_reply_def)

lemma frame_of_simps [simp]:
  "frame_of (Event (event (Device_State d))) = None" "frame_of (Event (event (Rx_Frame f))) = Some f"
  "frame_of (Transmit_Reply r) = None" "frame_of (Configure_Reply u) = None" "frame_of (Status_Reply st) = None"
  by (simp_all add: frame_of_def event_def)

lemma snoc_simps [simp]:
  "replies (out @ [x]) = replies out @ (if is_reply x then [x] else [])"
  "frames (out @ [x]) = frames out @ (case frame_of x of None \<Rightarrow> [] | Some f \<Rightarrow> [f])"
  by (simp_all add: replies_def frames_def List.map_filter_def split: option.split)

record ledger =
  l_replies :: "outgoing list"
  l_frames :: "rx_frame list"
  l_transmissions :: nat
  l_rx_frames :: nat

definition ledger_of :: "'w arbiter \<Rightarrow> ledger" where
  "ledger_of a =
     \<lparr>l_replies = replies (a_out a), l_frames = frames (a_out a),
      l_transmissions = c_transmissions (s_counters (a_state a)),
      l_rx_frames = c_rx_frames (s_counters (a_state a))\<rparr>"

lemma ledger_same [simp]:
  "ledger_of (announce d a) = ledger_of a" "ledger_of (publish a) = ledger_of a"
  "ledger_of (back_off env a) = ledger_of a" "ledger_of (snd (act f a)) = ledger_of a"
  "ledger_of (upd enter_fault a) = ledger_of a"
  by (simp_all add: ledger_of_def publish_def Let_def enter_fault_def)

lemma ledger_upd: "s_counters (f (a_state a)) = s_counters (a_state a) \<Longrightarrow> ledger_of (upd f a) = ledger_of a"
  by (simp add: ledger_of_def)

lemma ledger_fields [simp]:
  "ledger_of (a\<lparr>a_detector := d\<rparr>) = ledger_of a" "ledger_of (a\<lparr>a_world := w\<rparr>) = ledger_of a"
  "ledger_of (a\<lparr>a_recorder := r, a_world := w\<rparr>) = ledger_of a"
  by (simp_all add: ledger_of_def)

lemma ledger_fault [simp]: "ledger_of (fault env a) = ledger_of a"
  by (simp add: fault_def)

lemma ledger_act: "act f a = (r, b) \<Longrightarrow> ledger_of b = ledger_of a"
  using ledger_same(4) [of f a] by simp

lemma ledger_count:
  "ledger_of (upd count_transmission a) = (ledger_of a)\<lparr>l_transmissions := l_transmissions (ledger_of a) + 1\<rparr>"
  "ledger_of (upd count_rx_frame a) = (ledger_of a)\<lparr>l_rx_frames := l_rx_frames (ledger_of a) + 1\<rparr>"
  by (simp_all add: ledger_of_def count_transmission_def count_rx_frame_def)

lemma ledger_emit_reply:
  "is_reply x \<Longrightarrow> ledger_of (emit x a) = (ledger_of a)\<lparr>l_replies := l_replies (ledger_of a) @ [x]\<rparr>"
  by (cases x) (simp_all add: ledger_of_def)

lemma ledger_send:
  "ledger_of (snd (send env req a)) =
     (if is_ok (fst (send env req a)) then (ledger_of a)\<lparr>l_transmissions := l_transmissions (ledger_of a) + 1\<rparr>
      else ledger_of a)"
  by (simp add: send_def Let_def split_beta ledger_count split: sum.split)

lemma ledger_preempt:
  "ledger_of (snd (preempt_transmit env req a)) =
     (if is_ok (fst (preempt_transmit env req a))
      then (ledger_of a)\<lparr>l_transmissions := l_transmissions (ledger_of a) + 1\<rparr> else ledger_of a)"
proof -
  obtain r a1 where r: "act (e_stop env) a = (r, a1)" by force
  have "ledger_of (upd (\<lambda>s. s\<lparr>s_rx_running := False\<rparr>) a1) = ledger_of a"
    using ledger_act [OF r] by (simp add: ledger_upd)
  then show ?thesis using ledger_act [OF r]
    by (auto simp: preempt_transmit_def r ledger_send split: sum.split)
qed

lemma ledger_start_receiver: "ledger_of (snd (start_receiver env a)) = ledger_of a"
  by (auto simp: start_receiver_def ledger_upd split: prod.split sum.split dest: ledger_act)

lemma ledger_configure:
  "\<exists>r. ledger_of (configure env f en a) = (ledger_of a)\<lparr>l_replies := l_replies (ledger_of a) @ [Configure_Reply r]\<rparr>"
proof -
  define a1 where "a1 = upd (\<lambda>s. s\<lparr>s_rx_frequency := (case f of Some f \<Rightarrow> f | None \<Rightarrow> s_rx_frequency s), s_rx_enabled := en\<rparr>) a"
  define a2 where "a2 = (if s_rx_running (a_state a1) then upd (\<lambda>s. s\<lparr>s_rx_running := False\<rparr>) (snd (act (e_stop env) a1)) else a1)"
  define a3 where "a3 = upd (\<lambda>s. s\<lparr>s_faulted := False\<rparr>) (a2\<lparr>a_detector := detector_new (cfg_detector (s_config (a_state a2)))\<rparr>)"
  define r where "r = (if s_rx_enabled (a_state a3) then start_receiver env a3 else (Inr (), a3))"
  have "ledger_of a3 = ledger_of a" by (simp add: a3_def a2_def a1_def ledger_upd)
  then have "ledger_of (snd r) = ledger_of a" by (simp add: r_def ledger_start_receiver)
  moreover have "configure env f en a = emit (Configure_Reply (fst r)) (publish (snd r))"
    unfolding configure_def Let_def a1_def [symmetric] a2_def [symmetric] a3_def [symmetric] r_def [symmetric]
    by (simp add: split_beta)
  ultimately show ?thesis by (auto simp: ledger_emit_reply)
qed

text \<open>What a command adds to the ledger.\<close>

definition answers :: "command \<Rightarrow> outgoing list \<Rightarrow> nat \<Rightarrow> bool" where
  "answers cmd out sent \<longleftrightarrow>
     (case cmd of
        Cmd_Transmit req \<Rightarrow>
          (\<exists>e. out = [Transmit_Reply (Inl e)] \<and> sent = 0) \<or>
          out = [Transmit_Reply (Inr (air_time_us req))] \<and> sent = 1
      | Cmd_Configure_Rx f en \<Rightarrow> \<exists>r. out = [Configure_Reply r] \<and> sent = 0
      | Cmd_Status \<Rightarrow> \<exists>st. out = [Status_Reply st] \<and> sent = 0
      | Cmd_Device_Arrived \<Rightarrow> out = [] \<and> sent = 0)"

definition adds :: "'w arbiter \<Rightarrow> outgoing list \<Rightarrow> nat \<Rightarrow> 'w arbiter \<Rightarrow> bool" where
  "adds a out sent b \<longleftrightarrow>
     ledger_of b = (ledger_of a)\<lparr>l_replies := l_replies (ledger_of a) @ out, l_transmissions := l_transmissions (ledger_of a) + sent\<rparr>"

lemma preempt_transmit_value:
  "preempt_transmit env req a = (Inr t, b) \<Longrightarrow> t = air_time_us req"
  by (auto simp: preempt_transmit_def send_def Let_def split_beta split: if_splits sum.splits prod.splits)

lemma handle_command_adds: "\<exists>out sent. adds a out sent (handle_command env cmd a) \<and> answers cmd out sent"
proof (cases cmd)
  case (Cmd_Transmit req)
  obtain r b where r: "preempt_transmit env req a = (r, b)" by force
  show ?thesis
  proof (cases r)
    case (Inl e)
    then have "adds a [Transmit_Reply (Inl e)] 0 (handle_command env cmd a)"
      using Cmd_Transmit r ledger_preempt [of env req a]
      by (simp add: handle_command_def adds_def ledger_emit_reply)
    then show ?thesis using Cmd_Transmit by (auto simp: answers_def)
  next
    case (Inr t)
    then have "adds a [Transmit_Reply (Inr t)] 1 (handle_command env cmd a)"
      using Cmd_Transmit r ledger_preempt [of env req a]
      by (simp add: handle_command_def adds_def ledger_emit_reply)
    moreover have "t = air_time_us req" using preempt_transmit_value r Inr by blast
    ultimately show ?thesis using Cmd_Transmit by (auto simp: answers_def)
  qed
next
  case (Cmd_Configure_Rx f en)
  then show ?thesis using ledger_configure [of env f en a]
    by (auto simp: handle_command_def adds_def answers_def)
next
  case Cmd_Status
  then show ?thesis by (auto simp: handle_command_def adds_def answers_def ledger_emit_reply)
next
  case Cmd_Device_Arrived
  then have "adds a [] 0 (handle_command env cmd a)"
    by (simp add: handle_command_def adds_def split_beta Let_def ledger_upd)
  then show ?thesis using Cmd_Device_Arrived by (auto simp: answers_def)
qed

text \<open>What receiving adds: frames, each with its count.\<close>

definition hears :: "'w arbiter \<Rightarrow> rx_frame list \<Rightarrow> 'w arbiter \<Rightarrow> bool" where
  "hears a fs b \<longleftrightarrow>
     ledger_of b = (ledger_of a)\<lparr>l_frames := l_frames (ledger_of a) @ fs, l_rx_frames := l_rx_frames (ledger_of a) + length fs\<rparr>"

lemma hears_trans: "hears a fs b \<Longrightarrow> hears b gs c \<Longrightarrow> hears a (fs @ gs) c"
  by (simp add: hears_def)

lemma hears_nothing: "ledger_of b = ledger_of a \<Longrightarrow> hears a [] b"
  by (simp add: hears_def)

text \<open>The frame a burst becomes, up to its time stamp.\<close>

definition frame_matches :: "nat \<Rightarrow> burst \<Rightarrow> rx_frame \<Rightarrow> bool" where
  "frame_matches frequency b f \<longleftrightarrow>
     fr_frequency f = frequency \<and> fr_timings f = burst_timings b \<and> fr_rssi f = burst_peak b"

lemma deliver_burst_hears:
  "\<exists>f. hears a [f] (deliver_burst env a b) \<and> frame_matches (s_rx_frequency (a_state a)) b f"
proof -
  obtain f where f: "a_out (deliver_burst env a b) = a_out a @ [Event (event (Rx_Frame f))]"
    "frame_matches (s_rx_frequency (a_state a)) b f"
    using deliver_burst_out [of env a b] by (auto simp: frame_matches_def)
  then have "hears a [f] (deliver_burst env a b)"
    by (simp add: hears_def ledger_of_def deliver_burst_state count_rx_frame_def)
  then show ?thesis using f(2) by blast
qed

lemma deliver_bursts_hear:
  "\<exists>fs. hears a fs (foldl (deliver_burst env) a bs) \<and>
     list_all2 (frame_matches (s_rx_frequency (a_state a))) bs fs"
proof (induction bs arbitrary: a)
  case Nil
  show ?case using hears_nothing by force
next
  case (Cons b bs)
  obtain f where f: "hears a [f] (deliver_burst env a b)" "frame_matches (s_rx_frequency (a_state a)) b f"
    using deliver_burst_hears by blast
  obtain fs where fs: "hears (deliver_burst env a b) fs (foldl (deliver_burst env) (deliver_burst env a b) bs)"
    "list_all2 (frame_matches (s_rx_frequency (a_state a))) bs fs"
    using Cons.IH [of "deliver_burst env a b"] by (auto simp: deliver_burst_state)
  then show ?case using hears_trans [OF f(1) fs(1)] f(2) by (auto intro!: exI [of _ "f # fs"])
qed

text \<open>A transfer that arrives: the detector takes it, and its bursts are the frames.\<close>

lemma receive_hears:
  assumes "e_read env (a_world a) = (Inr iq, w1)"
  shows "\<exists>fs. hears a fs (receive env a) \<and>
     list_all2 (frame_matches (s_rx_frequency (a_state a))) (snd (det_push (a_detector a) iq)) fs \<and>
     a_detector (receive env a) = fst (det_push (a_detector a) iq)"
proof -
  define a1 where "a1 = a\<lparr>a_world := w1\<rparr>"
  have r: "act (e_read env) a = (Inr iq, a1)" using assms by (simp add: act_def a1_def)
  define a2 where "a2 = (if \<not> s_receiving_proven (a_state a1)
      then upd (\<lambda>s. s\<lparr>s_receiving_proven := True, s_backoff := fault_backoff\<rparr>) a1 else a1)"
  define a3 where "a3 = a2\<lparr>a_detector := fst (det_push (a_detector a) iq)\<rparr>"
  have same: "ledger_of a3 = ledger_of a" "s_rx_frequency (a_state a3) = s_rx_frequency (a_state a)"
    "a_detector a2 = a_detector a"
    by (simp_all add: a3_def a2_def a1_def ledger_upd)
  have rec: "receive env a = foldl (deliver_burst env) a3 (snd (det_push (a_detector a) iq))"
    by (simp add: receive_def r Let_def a2_def [symmetric] a3_def split_beta same(3))
  have det: "a_detector (foldl (deliver_burst env) x bs) = a_detector x" for x bs
    by (induction bs arbitrary: x) (simp_all add: deliver_burst_def Let_def split_beta split: option.split)
  obtain fs where "hears a3 fs (receive env a)"
    "list_all2 (frame_matches (s_rx_frequency (a_state a))) (snd (det_push (a_detector a) iq)) fs"
    using deliver_bursts_hear [of a3 env] unfolding rec same(2) by blast
  moreover have "a_detector (receive env a) = fst (det_push (a_detector a) iq)" by (simp add: rec det a3_def)
  ultimately show ?thesis using same(1) by (auto simp: hears_def)
qed

lemma receive_hears_some: "\<exists>fs. hears a fs (receive env a)"
proof (cases "e_read env (a_world a)")
  case (Pair r w1)
  show ?thesis
  proof (cases r)
    case (Inl e)
    then have "ledger_of (receive env a) = ledger_of a" using Pair
      by (simp add: receive_def act_def)
    then show ?thesis using hears_nothing by blast
  next
    case (Inr iq)
    then show ?thesis using receive_hears [of env a iq w1] Pair by blast
  qed
qed

lemma pump_hears: "\<exists>fs. hears a fs (pump env a)"
proof -
  obtain r a1 where r: "act (e_start_rx env (s_rx_frequency (a_state a))) a = (r, a1)" by force
  have l: "ledger_of (publish (upd (\<lambda>s. s\<lparr>s_rx_running := True\<rparr>) a1)) = ledger_of a"
    using ledger_act [OF r] by (simp add: ledger_upd)
  obtain fs where "hears (publish (upd (\<lambda>s. s\<lparr>s_rx_running := True\<rparr>) a1)) fs
      (receive env (publish (upd (\<lambda>s. s\<lparr>s_rx_running := True\<rparr>) a1)))"
    using receive_hears_some by blast
  then have "hears a fs (receive env (publish (upd (\<lambda>s. s\<lparr>s_rx_running := True\<rparr>) a1)))"
    using l by (simp add: hears_def)
  moreover have "hears a [] (fault env a1)" using ledger_act [OF r] by (intro hears_nothing) simp
  ultimately show ?thesis using receive_hears_some [of a env] by (auto simp: pump_def r split: sum.split)
qed

lemma retry_hears: "hears a [] (retry env a)"
proof -
  obtain n a1 where a1: "act (e_now env) a = (n, a1)" by force
  obtain r1 a2 where a2: "act (e_stop env) a1 = (r1, a2)" by force
  obtain r a3 where a3: "act (e_describe env) a2 = (r, a3)" by force
  have "ledger_of a1 = ledger_of a" "ledger_of a3 = ledger_of a"
    using ledger_act a1 a2 a3 by metis+
  then show ?thesis
    by (intro hears_nothing) (simp add: retry_def a1 a2 a3 ledger_upd split: sum.split)
qed

lemma loop_step_ledger:
  "\<exists>out sent fs. (case p of None \<Rightarrow> out = [] \<and> sent = 0 | Some cmd \<Rightarrow> answers cmd out sent) \<and>
     ledger_of (loop_step env p a) = (ledger_of a)\<lparr>l_replies := l_replies (ledger_of a) @ out,
       l_frames := l_frames (ledger_of a) @ fs, l_transmissions := l_transmissions (ledger_of a) + sent,
       l_rx_frames := l_rx_frames (ledger_of a) + length fs\<rparr>"
proof (cases "s_rx_enabled (a_state a) \<or> p \<noteq> None")
  case True
  define a1 where "a1 = (case p of None \<Rightarrow> a | Some cmd \<Rightarrow> handle_command env cmd a)"
  obtain out sent where o: "case p of None \<Rightarrow> out = [] \<and> sent = 0 | Some cmd \<Rightarrow> answers cmd out sent" "adds a out sent a1"
    using handle_command_adds by (cases p) (fastforce simp: a1_def adds_def)+
  have "\<exists>fs. hears a1 fs (loop_body env p a)"
    using pump_hears [of a1 env] retry_hears [of a1 env] hears_nothing [OF refl, of a1]
    unfolding loop_body_def a1_def [symmetric] Let_def by (simp split: if_split) blast
  then obtain fs where "hears a1 fs (loop_body env p a)" ..
  then have "ledger_of (loop_step env p a) = (ledger_of a)\<lparr>l_replies := l_replies (ledger_of a) @ out,
       l_frames := l_frames (ledger_of a) @ fs, l_transmissions := l_transmissions (ledger_of a) + sent,
       l_rx_frames := l_rx_frames (ledger_of a) + length fs\<rparr>"
    using o(2) True by (simp add: hears_def adds_def loop_step_def)
  then show ?thesis using o(1) by blast
next
  case False
  then have "loop_step env p a = a" "p = None" by (auto simp: loop_step_def)
  then show ?thesis by (intro exI [of _ "[]"] exI [of _ 0] conjI) simp_all
qed

section \<open>What clients can rely on\<close>

text \<open>C11: What clients are told is the truth. In every reachable state the last device state
  announced is the one the arbiter remembers publishing, no state but \<open>transmitting\<close> is
  announced twice in a row, and what was announced is the device's state, with exactly one
  exception: \<open>transmitting\<close> may stay announced while the radio is faulted and the receiver
  wanted.\<close>

theorem announcements_are_true:
  assumes "reachable env c w a"
  shows "last_announced (a_out a) = s_published (a_state a) \<and> no_repeats (announcements (a_out a)) \<and>
     (case last_announced (a_out a) of
        None \<Rightarrow> device_state_of (a_state a) = Idle
      | Some d \<Rightarrow> d = device_state_of (a_state a) \<or>
          d = Transmitting \<and> device_state_of (a_state a) = Faulted \<and> s_rx_enabled (a_state a))"
  using reachable_honest [OF assms]
  by (auto simp: honest_def books_def told_def device_state_of_def split: option.splits if_splits)

lemma faulted_transmit_facts:
  assumes "s_faulted (a_state a)" "s_rx_enabled (a_state a)" "\<not> s_rx_running (a_state a)"
    and "is_ok (fst (preempt_transmit env req a))"
  shows "a_state (snd (preempt_transmit env req a)) =
     count_transmission ((a_state a)\<lparr>s_published := Some Transmitting\<rparr>)"
  using assms by (auto simp: preempt_transmit_def send_def Let_def split_beta split: sum.splits)

text \<open>C39: The exception is real. A transmit request that succeeds while the receiver is wanted but
  faulted, with the retry interval still running, ends its pass with \<open>transmitting\<close> as the
  last state announced although the device state is \<open>faulted\<close>.\<close>

theorem transmitting_stays_announced:
  assumes f: "s_faulted (a_state a)" "s_rx_enabled (a_state a)" "\<not> s_rx_running (a_state a)"
    and ok: "is_ok (fst (preempt_transmit env req a))"
    and wait: "fst (e_now env (a_world (snd (preempt_transmit env req a)))) < s_retry_at (a_state a)"
  shows "s_published (a_state (loop_step env (Some (Cmd_Transmit req)) a)) = Some Transmitting \<and>
     device_state_of (a_state (loop_step env (Some (Cmd_Transmit req)) a)) = Faulted"
proof -
  obtain r b where r: "preempt_transmit env req a = (r, b)" by force
  have st: "a_state b = count_transmission ((a_state a)\<lparr>s_published := Some Transmitting\<rparr>)"
    using faulted_transmit_facts [OF f ok] r by simp
  obtain t where t: "r = Inr t" using ok r by (cases r) auto
  define a1 where "a1 = emit (Transmit_Reply (Inr t)) b"
  have "handle_command env (Cmd_Transmit req) a = a1" by (simp add: handle_command_def r t a1_def)
  moreover obtain n a2 where n: "act (e_now env) a1 = (n, a2)" by force
  ultimately have "loop_step env (Some (Cmd_Transmit req)) a = a2\<lparr>a_world := e_sleep env fault_poll (a_world a2)\<rparr>"
    using f st wait r act_eq [OF n]
    by (auto simp: loop_step_def loop_body_def retry_def a1_def count_transmission_def)
  then show ?thesis using act_eq [OF n] st f(1)
    by (simp add: a1_def device_state_of_def count_transmission_def)
qed

text \<open>Every request gets exactly one reply, of its own kind. A pass of the loop adds to the
  replies what its command asks for and nothing else: a transmit request its air time or an
  error, a configuration its outcome, a status request a status, a hotplug notice nothing.
  The transmission counter moves exactly with the successful transmit replies, and the frame
  counter with the frames published.\<close>

theorem one_reply_per_command:
  "\<exists>out sent fs.
     (case p of None \<Rightarrow> out = [] \<and> sent = 0 | Some cmd \<Rightarrow> answers cmd out sent) \<and>
     replies (a_out (loop_step env p a)) = replies (a_out a) @ out \<and>
     frames (a_out (loop_step env p a)) = frames (a_out a) @ fs \<and>
     c_transmissions (s_counters (a_state (loop_step env p a))) = c_transmissions (s_counters (a_state a)) + sent \<and>
     c_rx_frames (s_counters (a_state (loop_step env p a))) = c_rx_frames (s_counters (a_state a)) + length fs"
  using loop_step_ledger [of p env a] unfolding ledger_of_def by (simp only: ledger.simps ledger.update_convs) blast

text \<open>The receiver publishes what the detector hears. A transfer read by a running receiver
  goes through the detector, and each burst it completes becomes one \<open>rx_frame\<close> event, in
  order, with the tuned frequency, the burst's timings and its peak.\<close>

theorem frames_are_bursts:
  assumes "e_read env (a_world a) = (Inr iq, w1)" "s_rx_running (a_state a)"
  shows "\<exists>fs. frames (a_out (pump env a)) = frames (a_out a) @ fs \<and>
     list_all2 (frame_matches (s_rx_frequency (a_state a))) (snd (det_push (a_detector a) iq)) fs \<and>
     a_detector (pump env a) = fst (det_push (a_detector a) iq)"
  using receive_hears [OF assms(1)] assms(2) by (auto simp: pump_def hears_def ledger_of_def)

section \<open>Retrying\<close>

lemma funpow_back_off:
  "fault_backoff \<le> s_backoff (a_state a) \<Longrightarrow> s_backoff (a_state a) \<le> max_fault_backoff \<Longrightarrow>
   s_backoff (a_state ((back_off env ^^ n) a)) = min (s_backoff (a_state a) * 2 ^ n) max_fault_backoff"
  by (induction n) (auto simp: min_def)

text \<open>The retry interval is bounded and doubles. It stays between two seconds and a minute in
  every reachable state, and after \<open>n\<close> failures in a row it is \<open>2 ^ n\<close> times what it was, or a
  minute; the next attempt is that far from the clock.\<close>

theorem backoff_doubles_up_to_a_minute:
  assumes "reachable env c w a"
  shows "fault_backoff \<le> s_backoff (a_state a) \<and> s_backoff (a_state a) \<le> max_fault_backoff \<and>
     s_backoff (a_state ((back_off env ^^ n) a)) = min (s_backoff (a_state a) * 2 ^ n) max_fault_backoff \<and>
     s_retry_at (a_state (back_off env a)) = fst (e_now env (a_world a)) + s_backoff (a_state (back_off env a))"
  using reachable_honest [OF assms] funpow_back_off [where a = a and env = env and n = n]
  by (simp add: honest_def books_def)

text \<open>A hotplug notice cuts the wait short. If the radio is faulted and wanted and the clock
  does not run backwards, the pass that takes the notice stops the radio and asks it to
  identify itself at once, instead of sleeping.\<close>

theorem arrival_retries_now:
  assumes f: "s_faulted (a_state a)" "s_rx_enabled (a_state a)"
    and clock: "e_now env (a_world a) = (n0, w0)" "e_now env w0 = (n1, w1)" "n0 \<le> n1"
    and radio: "e_stop env w1 = (r, w2)" "e_describe env w2 = (Inr description, w3)"
  shows "a_world (loop_step env (Some Cmd_Device_Arrived) a) = w3 \<and>
     \<not> s_faulted (a_state (loop_step env (Some Cmd_Device_Arrived) a)) \<and>
     s_device (a_state (loop_step env (Some Cmd_Device_Arrived) a)) = Some description"
proof -
  define a1 where "a1 = upd (\<lambda>s. s\<lparr>s_retry_at := n0, s_backoff := fault_backoff\<rparr>) (a\<lparr>a_world := w0\<rparr>)"
  have h: "handle_command env Cmd_Device_Arrived a = a1"
    using f clock(1) by (simp add: handle_command_def act_def a1_def)
  have a1: "s_faulted (a_state a1)" "s_rx_enabled (a_state a1)" "a_world a1 = w0" "s_retry_at (a_state a1) = n0"
    using f by (simp_all add: a1_def)
  have "retry env a1 = publish (upd (\<lambda>s. s\<lparr>s_device := Some description, s_faulted := False\<rparr>) (a1\<lparr>a_world := w3\<rparr>))"
    using a1 clock(2,3) radio by (simp add: retry_def act_def)
  moreover have "s_device (a_state (publish b)) = s_device (a_state b)" for b :: "'a arbiter"
    by (simp add: publish_def Let_def)
  ultimately show ?thesis using h a1 by (simp add: loop_step_def loop_body_def)
qed

text \<open>While the retry interval runs, the radio is left alone: a pass without a command only
  reads the clock and sleeps, and changes neither the state nor what clients have been told.\<close>

theorem waiting_leaves_the_radio_alone:
  assumes "s_faulted (a_state a)" "s_rx_enabled (a_state a)"
    and "e_now env (a_world a) = (n, w1)" "n < s_retry_at (a_state a)"
  shows "loop_step env None a = a\<lparr>a_world := e_sleep env fault_poll w1\<rparr>"
  using assms by (simp add: loop_step_def loop_body_def retry_def act_def)

section \<open>Outcomes of a request\<close>

text \<open>C14: A transmit request reports the truth. It is answered with the air time exactly when the
  receiver could be stopped, if it was running, and the radio sent the padded rendering of the
  request with the requested settings; any failure is answered as an error and leaves the
  arbiter faulted, with the fault announced. Either way the receiver is not left running.\<close>

theorem transmit_outcome:
  assumes a: "s_rx_running (a_state a) \<Longrightarrow> e_stop env (a_world a) = (stopped, w1)"
    and w1: "\<not> s_rx_running (a_state a) \<Longrightarrow> stopped = Inr () \<and> w1 = a_world a"
    and t: "e_transmit env (tx_params_of (s_config (a_state a)) req) (tx_samples (s_config (a_state a)) req) w1 = (sent, w2)"
  shows "(is_ok stopped \<and> is_ok sent \<longrightarrow>
       last (a_out (handle_command env (Cmd_Transmit req) a)) = Transmit_Reply (Inr (air_time_us req)) \<and>
       s_faulted (a_state (handle_command env (Cmd_Transmit req) a)) = s_faulted (a_state a)) \<and>
     (\<not> (is_ok stopped \<and> is_ok sent) \<longrightarrow>
       (\<exists>e. last (a_out (handle_command env (Cmd_Transmit req) a)) = Transmit_Reply (Inl e)) \<and>
       s_faulted (a_state (handle_command env (Cmd_Transmit req) a)) \<and>
       s_published (a_state (handle_command env (Cmd_Transmit req) a)) = Some Faulted) \<and>
     \<not> s_rx_running (a_state (handle_command env (Cmd_Transmit req) a))"
proof -
  let ?off = "upd (\<lambda>s. s\<lparr>s_rx_running := False\<rparr>)"
  have flt: "s_faulted (a_state (fault env b)) \<and> \<not> s_rx_running (a_state (fault env b)) \<and>
      s_published (a_state (fault env b)) = Some Faulted" for b :: "'a arbiter"
    by (simp add: fault_def device_state_of_def)
  have send: "fst (send env req b) = (case sent of Inl e \<Rightarrow> Inl e | Inr _ \<Rightarrow> Inr (air_time_us req)) \<and>
      s_faulted (a_state (snd (send env req b))) = s_faulted (a_state b) \<and>
      s_rx_running (a_state (snd (send env req b))) = s_rx_running (a_state b)"
    if "a_world b = w1" "s_config (a_state b) = s_config (a_state a)" for b
    using that t by (auto simp: send_def Let_def split_beta split: sum.split)
  have eq: "preempt_transmit env req a =
      (if is_ok stopped then send env req (if s_rx_running (a_state a) then ?off (a\<lparr>a_world := w1\<rparr>) else a)
       else (map_sum id (\<lambda>_. 0) stopped, a\<lparr>a_world := w1\<rparr>))"
    using a w1 by (cases stopped) (auto simp: preempt_transmit_def act_def)
  show ?thesis
  proof (cases "is_ok stopped")
    case False
    then obtain e where e: "stopped = Inl e" by (cases stopped) auto
    then show ?thesis using False eq flt [of "a\<lparr>a_world := w1\<rparr>"] by (simp add: handle_command_def)
  next
    case True
    define b where "b = (if s_rx_running (a_state a) then ?off (a\<lparr>a_world := w1\<rparr>) else a)"
    have b: "a_world b = w1" "s_config (a_state b) = s_config (a_state a)" "\<not> s_rx_running (a_state b)"
      "s_faulted (a_state b) = s_faulted (a_state a)"
      using w1 by (auto simp: b_def)
    obtain r c where r: "send env req b = (r, c)" by force
    show ?thesis using True eq send [OF b(1,2)] b(3,4) r flt [of c]
      by (cases sent) (simp_all add: handle_command_def b_def [symmetric])
  qed
qed

text \<open>A receiver configuration reports the truth. The reply is an error exactly when the
  receiver was wanted and could not be started; then the arbiter is faulted, and otherwise it
  is not and the receiver runs exactly if it is wanted. Either way the new frequency is in
  force, the detector starts from scratch and clients have been told the resulting state.\<close>

theorem configure_outcome:
  "\<exists>r. last (a_out (configure env f en a)) = Configure_Reply r \<and>
     (is_ok r \<longrightarrow> \<not> s_faulted (a_state (configure env f en a)) \<and>
        s_rx_running (a_state (configure env f en a)) = en) \<and>
     (\<not> is_ok r \<longrightarrow> en \<and> s_faulted (a_state (configure env f en a))) \<and>
     s_rx_enabled (a_state (configure env f en a)) = en \<and>
     s_rx_frequency (a_state (configure env f en a)) = (case f of Some x \<Rightarrow> x | None \<Rightarrow> s_rx_frequency (a_state a)) \<and>
     a_detector (configure env f en a) = detector_new (cfg_detector (s_config (a_state a))) \<and>
     s_published (a_state (configure env f en a)) = Some (device_state_of (a_state (configure env f en a)))"
proof -
  define a1 where "a1 = upd (\<lambda>s. s\<lparr>s_rx_frequency := (case f of Some f \<Rightarrow> f | None \<Rightarrow> s_rx_frequency s), s_rx_enabled := en\<rparr>) a"
  define a2 where "a2 = (if s_rx_running (a_state a1) then upd (\<lambda>s. s\<lparr>s_rx_running := False\<rparr>) (snd (act (e_stop env) a1)) else a1)"
  define a3 where "a3 = upd (\<lambda>s. s\<lparr>s_faulted := False\<rparr>) (a2\<lparr>a_detector := detector_new (cfg_detector (s_config (a_state a2)))\<rparr>)"
  define r where "r = (if s_rx_enabled (a_state a3) then start_receiver env a3 else (Inr (), a3))"
  have a3: "s_rx_enabled (a_state a3) = en" "\<not> s_rx_running (a_state a3)" "\<not> s_faulted (a_state a3)"
    "s_rx_frequency (a_state a3) = (case f of Some x \<Rightarrow> x | None \<Rightarrow> s_rx_frequency (a_state a))"
    "a_detector a3 = detector_new (cfg_detector (s_config (a_state a)))"
    by (simp_all add: a3_def a2_def a1_def)
  have sr: "s_rx_enabled (a_state (snd (start_receiver env b))) = s_rx_enabled (a_state b) \<and>
      s_rx_frequency (a_state (snd (start_receiver env b))) = s_rx_frequency (a_state b) \<and>
      a_detector (snd (start_receiver env b)) = a_detector b \<and>
      s_rx_running (a_state (snd (start_receiver env b))) = is_ok (fst (start_receiver env b)) \<and>
      (if is_ok (fst (start_receiver env b)) then s_faulted (a_state (snd (start_receiver env b))) = s_faulted (a_state b)
       else s_faulted (a_state (snd (start_receiver env b))))" for b
    by (auto simp: start_receiver_def fault_def split: prod.split sum.split dest: act_eq)
  have eq: "configure env f en a = emit (Configure_Reply (fst r)) (publish (snd r))"
    unfolding configure_def Let_def a1_def [symmetric] a2_def [symmetric] a3_def [symmetric] r_def [symmetric]
    by (simp add: split_beta)
  show ?thesis unfolding eq using a3 sr [of a3]
    by (intro exI [of _ "fst r"]) (auto simp: r_def split: if_splits)
qed

end
