(* ===== verification/Server.thy ===== *)
theory Server
  imports Arbiter_Properties
begin

text \<open>
  \<open>server.rs\<close>: a connection's request loop and the dispatch of one request. Parsing JSON
  (serde) and decoding UTF-8 lossily are parameters. The server reaches the radio thread
  through \<open>ask\<close>, one typed question per kind of command: \<open>link\<close> is that interface, on a
  state \<open>'s\<close>, and the locale \<open>radio_service\<close> is what the server expects of it.
\<close>

section \<open>Asking the radio thread\<close>

datatype ask_error = Thread_Gone | Request_Dropped

text \<open>\<open>ask\<close>: the channel may be closed, or the thread may drop the reply channel.\<close>

record 's link =
  ask_transmit :: "transmit \<Rightarrow> 's \<Rightarrow> (ask_error + (error + int)) \<times> 's"
  ask_configure :: "nat option \<Rightarrow> bool \<Rightarrow> 's \<Rightarrow> (ask_error + (error + unit)) \<times> 's"
  ask_status :: "'s \<Rightarrow> (ask_error + status) \<times> 's"

fun gone_text :: "ask_error \<Rightarrow> error_text" where
  "gone_text Thread_Gone = Radio_Thread_Gone"
| "gone_text Request_Dropped = Radio_Thread_Dropped"

definition error_reply :: "string option \<Rightarrow> error_text \<Rightarrow> message" where
  "error_reply i t = reply i (Error t)"

definition status_reply :: "'s link \<Rightarrow> string option \<Rightarrow> 's \<Rightarrow> message \<times> 's" where
  "status_reply lk i s =
     (case ask_status lk s of
        (Inr st, s1) \<Rightarrow> (reply i (Status st), s1)
      | (Inl gone, s1) \<Rightarrow> (error_reply i (gone_text gone), s1))"

section \<open>Dispatching a request\<close>

definition dispatch_transmit :: "'s link \<Rightarrow> string option \<Rightarrow> transmit \<Rightarrow> 's \<Rightarrow> message \<times> 's" where
  "dispatch_transmit lk i t s =
     (case validate t of
        Inl invalid \<Rightarrow> (error_reply i (Refused invalid), s)
      | Inr _ \<Rightarrow>
          (case ask_transmit lk t s of
             (Inr (Inr air_us), s1) \<Rightarrow> (reply i (Transmitted air_us), s1)
           | (Inr (Inl e), s1) \<Rightarrow> (error_reply i (From_Radio e), s1)
           | (Inl gone, s1) \<Rightarrow> (error_reply i (gone_text gone), s1)))"

definition rx_frequency_ok :: "nat option \<Rightarrow> bool" where
  "rx_frequency_ok f = (case f of None \<Rightarrow> True | Some x \<Rightarrow> 1000000 \<le> x \<and> x \<le> 6000000000)"

definition dispatch_configure :: "'s link \<Rightarrow> string option \<Rightarrow> configure_rx \<Rightarrow> 's \<Rightarrow> message \<times> 's" where
  "dispatch_configure lk i c s =
     (if \<not> rx_frequency_ok (rx_frequency_opt c)
      then (error_reply i (Rx_Frequency_Out_Of_Range (the (rx_frequency_opt c))), s)
      else case ask_configure lk (rx_frequency_opt c) (rx_enable c) s of
             (Inr (Inr _), s1) \<Rightarrow> status_reply lk i s1
           | (Inr (Inl e), s1) \<Rightarrow> (error_reply i (From_Radio e), s1)
           | (Inl gone, s1) \<Rightarrow> (error_reply i (gone_text gone), s1))"

definition dispatch :: "'s link \<Rightarrow> (string \<Rightarrow> error + request) \<Rightarrow> string \<Rightarrow> 's \<Rightarrow> message \<times> 's" where
  "dispatch lk parse txt s =
     (case parse txt of
        Inl e \<Rightarrow> (event (Error (Could_Not_Parse e)), s)
      | Inr req \<Rightarrow>
          if req_v req \<noteq> protocol_version then (error_reply (req_id req) (Version_Not_Supported (req_v req)), s)
          else case req_payload req of
                 Transmit t \<Rightarrow> dispatch_transmit lk (req_id req) t s
               | Configure_Rx c \<Rightarrow> dispatch_configure lk (req_id req) c s
               | Status_Request \<Rightarrow> status_reply lk (req_id req) s)"

section \<open>A connection\<close>

datatype ws_message = Text string | Binary "byte list" | Ping | Pong | Raw_Frame | Close

text \<open>The read loop: what the socket yields until it ends, and the queue to the writer, which
  refuses a message once the client is gone.\<close>

fun read_loop ::
  "'s link \<Rightarrow> (string \<Rightarrow> error + request) \<Rightarrow> (byte list \<Rightarrow> string) \<Rightarrow> (message \<Rightarrow> 's \<Rightarrow> bool \<times> 's)
    \<Rightarrow> (error + ws_message) list \<Rightarrow> 's \<Rightarrow> (error + unit) \<times> 's" where
  "read_loop lk parse lossy outbound [] s = (Inr (), s)"
| "read_loop lk parse lossy outbound (received # rest) s =
     (case received of
        Inl e \<Rightarrow> (Inl (Context ''connection failed'' e), s)
      | Inr Close \<Rightarrow> (Inr (), s)
      | Inr (Text txt) \<Rightarrow>
          (let (m, s1) = dispatch lk parse txt s; (taken, s2) = outbound m s1
           in if taken then read_loop lk parse lossy outbound rest s2 else (Inr (), s2))
      | Inr (Binary bytes) \<Rightarrow>
          (let (m, s1) = dispatch lk parse (lossy bytes) s; (taken, s2) = outbound m s1
           in if taken then read_loop lk parse lossy outbound rest s2 else (Inr (), s2))
      | Inr _ \<Rightarrow> read_loop lk parse lossy outbound rest s)"

text \<open>The forwarder: events go to the client until its queue closes; a lag is survived.\<close>

datatype recv_result = Received message | Lagged nat | Closed

fun forward :: "(message \<Rightarrow> 's \<Rightarrow> bool \<times> 's) \<Rightarrow> recv_result list \<Rightarrow> 's \<Rightarrow> 's" where
  "forward outbound [] s = s"
| "forward outbound (r # rs) s =
     (case r of
        Received m \<Rightarrow> (let (taken, s1) = outbound m s in if taken then forward outbound rs s1 else s1)
      | Lagged missed \<Rightarrow> forward outbound rs s
      | Closed \<Rightarrow> s)"

section \<open>The contract of the radio thread\<close>

text \<open>What the server relies on: \<open>settled\<close> is the thread's invariant, \<open>sent\<close> counts the
  transmissions. Only a successful transmit answer moves the count, by one, and the answer is
  the request's air time.\<close>

locale radio_service =
  fixes lk :: "'s link" and settled :: "'s \<Rightarrow> bool" and sent :: "'s \<Rightarrow> nat"
  assumes transmit_settled: "settled s \<Longrightarrow> ask_transmit lk t s = (r, s1) \<Longrightarrow> settled s1"
    and transmit_sent: "ask_transmit lk t s = (r, s1) \<Longrightarrow>
        sent s1 = (case r of Inr (Inr d) \<Rightarrow> sent s + 1 | _ \<Rightarrow> sent s)"
    and transmit_air_time: "ask_transmit lk t s = (Inr (Inr d), s1) \<Longrightarrow> d = air_time_us t"
    and configure_settled: "settled s \<Longrightarrow> ask_configure lk f en s = (c, s1) \<Longrightarrow> settled s1 \<and> sent s1 = sent s"
    and status_settled: "settled s \<Longrightarrow> ask_status lk s = (st, s1) \<Longrightarrow> settled s1 \<and> sent s1 = sent s"
begin

definition is_transmitted :: "message \<Rightarrow> bool" where
  "is_transmitted m = (case msg_payload m of Transmitted d \<Rightarrow> True | _ \<Rightarrow> False)"

lemma not_transmitted [simp]:
  "\<not> is_transmitted (error_reply i t)" "\<not> is_transmitted (reply i (Status st))"
  "is_transmitted (reply i (Transmitted d))" "\<not> is_transmitted (event (Error t))"
  by (simp_all add: is_transmitted_def error_reply_def reply_def event_def)

lemma status_reply_counts:
  "settled s \<Longrightarrow> status_reply lk i s = (m, s1) \<Longrightarrow> settled s1 \<and> sent s1 = sent s \<and> \<not> is_transmitted m"
  using status_settled [of s]
  by (auto simp: status_reply_def split: prod.splits sum.splits)

lemma dispatch_transmit_counts:
  assumes "settled s" "dispatch_transmit lk i t s = (m, s1)"
  shows "settled s1 \<and> sent s1 = sent s + (if is_transmitted m then 1 else 0)"
proof (cases "validate t")
  case (Inr u)
  obtain r s2 where r: "ask_transmit lk t s = (r, s2)" by force
  show ?thesis using assms Inr transmit_settled [OF assms(1) r] transmit_sent [OF r] r
    by (auto simp: dispatch_transmit_def split: sum.splits)
qed (use assms in \<open>auto simp: dispatch_transmit_def\<close>)

lemma dispatch_configure_counts:
  assumes "settled s" "dispatch_configure lk i c s = (m, s1)"
  shows "settled s1 \<and> sent s1 = sent s \<and> \<not> is_transmitted m"
proof -
  obtain r s2 where r: "ask_configure lk (rx_frequency_opt c) (rx_enable c) s = (r, s2)" by force
  note k = configure_settled [OF assms(1) r]
  show ?thesis using assms r k status_reply_counts [of s2 i m s1]
    by (auto simp: dispatch_configure_def split: sum.splits if_splits)
qed

lemma dispatch_counts:
  assumes "settled s" "dispatch lk parse txt s = (m, s1)"
  shows "settled s1 \<and> sent s1 = sent s + (if is_transmitted m then 1 else 0)"
proof (cases "parse txt")
  case (Inr req)
  show ?thesis
  proof (cases "req_v req = protocol_version")
    case True
    show ?thesis
    proof (cases "req_payload req")
      case (Transmit t)
      then show ?thesis using assms Inr True dispatch_transmit_counts by (simp add: dispatch_def)
    next
      case (Configure_Rx c)
      then have "dispatch_configure lk (req_id req) c s = (m, s1)" using assms(2) Inr True by (simp add: dispatch_def)
      then show ?thesis using dispatch_configure_counts [OF assms(1)] by simp
    next
      case Status_Request
      then have "status_reply lk (req_id req) s = (m, s1)" using assms(2) Inr True by (simp add: dispatch_def)
      then show ?thesis using status_reply_counts [OF assms(1)] by simp
    qed
  qed (use assms Inr in \<open>auto simp: dispatch_def\<close>)
qed (use assms in \<open>auto simp: dispatch_def\<close>)

end

section \<open>The arbiter provides it\<close>

text \<open>A question is one pass of the loop with the command, and the reply it adds.\<close>

definition ask_pass :: "'w env \<Rightarrow> command \<Rightarrow> 'w arbiter \<Rightarrow> outgoing \<times> 'w arbiter" where
  "ask_pass env cmd a = (let a1 = loop_step env (Some cmd) a in (last (replies (a_out a1)), a1))"

definition arbiter_link :: "'w env \<Rightarrow> 'w arbiter link" where
  "arbiter_link env =
     \<lparr>ask_transmit = (\<lambda>t a. case ask_pass env (Cmd_Transmit t) a of
          (Transmit_Reply r, a1) \<Rightarrow> (Inr r, a1) | (_, a1) \<Rightarrow> (Inl Request_Dropped, a1)),
      ask_configure = (\<lambda>f en a. case ask_pass env (Cmd_Configure_Rx f en) a of
          (Configure_Reply r, a1) \<Rightarrow> (Inr r, a1) | (_, a1) \<Rightarrow> (Inl Request_Dropped, a1)),
      ask_status = (\<lambda>a. case ask_pass env Cmd_Status a of
          (Status_Reply st, a1) \<Rightarrow> (Inr st, a1) | (_, a1) \<Rightarrow> (Inl Request_Dropped, a1))\<rparr>"

definition sent_count :: "'w arbiter \<Rightarrow> nat" where
  "sent_count a = c_transmissions (s_counters (a_state a))"

lemma ask_pass_answers:
  assumes "ask_pass env cmd a = (x, a1)" "cmd \<noteq> Cmd_Device_Arrived"
  shows "\<exists>n. answers cmd [x] n \<and> sent_count a1 = sent_count a + n"
proof -
  obtain out n fs where o: "answers cmd out n"
    "ledger_of (loop_step env (Some cmd) a) = (ledger_of a)\<lparr>l_replies := l_replies (ledger_of a) @ out,
       l_frames := l_frames (ledger_of a) @ fs, l_transmissions := l_transmissions (ledger_of a) + n,
       l_rx_frames := l_rx_frames (ledger_of a) + length fs\<rparr>"
    using loop_step_ledger [of "Some cmd" env a] by auto
  have a1: "a1 = loop_step env (Some cmd) a" "x = last (replies (a_out a1))"
    using assms(1) by (auto simp: ask_pass_def Let_def)
  have "replies (a_out a1) = replies (a_out a) @ out" "sent_count a1 = sent_count a + n"
    using o(2) by (simp_all add: a1(1) ledger_of_def sent_count_def)
  moreover have "\<exists>y. out = [y]" using o(1) assms(2) by (cases cmd) (auto simp: answers_def)
  ultimately show ?thesis using o(1) a1(2) by auto
qed

lemma ask_pass_honest: "ask_pass env cmd a = (x, a1) \<Longrightarrow> honest a \<Longrightarrow> honest a1"
  by (auto simp: ask_pass_def Let_def loop_step_honest)

interpretation radio: radio_service "arbiter_link env" honest sent_count
  for env :: "'w env"
proof
  fix s s1 :: "'w arbiter" and t r d f en c st
  show "honest s1" if "honest s" "ask_transmit (arbiter_link env) t s = (r, s1)"
    using that by (auto simp: arbiter_link_def split: prod.splits outgoing.splits dest: ask_pass_honest)
  show "sent_count s1 = (case r of Inr (Inr d) \<Rightarrow> sent_count s + 1 | _ \<Rightarrow> sent_count s)"
    if "ask_transmit (arbiter_link env) t s = (r, s1)"
    using that ask_pass_answers [of env "Cmd_Transmit t" s]
    by (auto simp: arbiter_link_def answers_def split: prod.splits)
  show "d = air_time_us t" if "ask_transmit (arbiter_link env) t s = (Inr (Inr d), s1)"
    using that ask_pass_answers [of env "Cmd_Transmit t" s]
    by (auto simp: arbiter_link_def answers_def split: prod.splits)
  show "honest s1 \<and> sent_count s1 = sent_count s" if "honest s" "ask_configure (arbiter_link env) f en s = (c, s1)"
    using that ask_pass_answers [of env "Cmd_Configure_Rx f en" s] ask_pass_honest
    by (auto simp: arbiter_link_def answers_def split: prod.splits) blast
  show "honest s1 \<and> sent_count s1 = sent_count s" if "honest s" "ask_status (arbiter_link env) s = (st, s1)"
    using that ask_pass_answers [of env Cmd_Status s] ask_pass_honest
    by (auto simp: arbiter_link_def answers_def split: prod.splits) blast
qed

section \<open>What a client can rely on\<close>

text \<open>Every reply can be matched to its request. Whatever arrives, the answer carries the
  protocol version and echoes the request's id; only a request that does not parse, and so has
  no id to echo, is answered without one.\<close>

theorem reply_echoes_the_request:
  "msg_v (fst (dispatch lk parse txt s)) = 1 \<and>
   msg_id (fst (dispatch lk parse txt s)) = (case parse txt of Inl e \<Rightarrow> None | Inr req \<Rightarrow> req_id req)"
  by (simp add: dispatch_def dispatch_transmit_def dispatch_configure_def status_reply_def error_reply_def
      reply_def event_def protocol_version_def split_beta
      split: sum.split request_payload.split)

text \<open>Why a request is refused before the radio thread is asked.\<close>

definition refusal :: "request \<Rightarrow> error_text option" where
  "refusal req =
     (if req_v req \<noteq> 1 then Some (Version_Not_Supported (req_v req))
      else case req_payload req of
             Transmit t \<Rightarrow> (case validate t of Inl i \<Rightarrow> Some (Refused i) | Inr _ \<Rightarrow> None)
           | Configure_Rx c \<Rightarrow>
               (case rx_frequency_opt c of
                  Some f \<Rightarrow> if f < 1000000 \<or> 6000000000 < f then Some (Rx_Frequency_Out_Of_Range f) else None
                | None \<Rightarrow> None)
           | Status_Request \<Rightarrow> None)"

text \<open>C37: A bad request never reaches the radio. A request of another protocol version, a
  transmit request that does not validate and a receiver frequency the radio cannot tune are
  each answered with their own refusal, in that order of precedence, and the radio thread is
  not asked anything.\<close>

theorem bad_requests_never_reach_the_radio:
  assumes "parse txt = Inr req" "refusal req = Some why"
  shows "dispatch lk parse txt s = (error_reply (req_id req) why, s)"
  using assms
  by (auto simp: dispatch_def refusal_def protocol_version_def dispatch_transmit_def dispatch_configure_def
      rx_frequency_ok_def not_le split: if_splits request_payload.splits sum.splits option.splits)

text \<open>C13: \<open>transmitted\<close> means transmitted. Over the arbiter, in any reachable state, a request
  is answered \<open>transmitted\<close> exactly when the transmission counter moved, and then by one;
  every other answer leaves it alone. The arbiter's own invariant survives any request text.\<close>

theorem transmitted_means_transmitted:
  assumes "reachable env c w a" and "dispatch (arbiter_link env) parse txt a = (m, a1)"
  shows "c_transmissions (s_counters (a_state a1)) =
       c_transmissions (s_counters (a_state a)) + (case msg_payload m of Transmitted d \<Rightarrow> 1 | _ \<Rightarrow> 0) \<and>
     last_announced (a_out a1) = s_published (a_state a1)"
  using radio.dispatch_counts [OF reachable_honest [OF assms(1)] assms(2)]
  by (auto simp: sent_count_def radio.is_transmitted_def honest_def books_def split: message_payload.splits)

section \<open>One reply per request of a connection\<close>

text \<open>A client that keeps reading: its queue takes every message.\<close>

definition with_client :: "'s link \<Rightarrow> ('s \<times> message list) link" where
  "with_client lk =
     \<lparr>ask_transmit = (\<lambda>t (s, q). case ask_transmit lk t s of (r, s1) \<Rightarrow> (r, (s1, q))),
      ask_configure = (\<lambda>f en (s, q). case ask_configure lk f en s of (r, s1) \<Rightarrow> (r, (s1, q))),
      ask_status = (\<lambda>(s, q). case ask_status lk s of (r, s1) \<Rightarrow> (r, (s1, q)))\<rparr>"

definition enqueue :: "message \<Rightarrow> 's \<times> message list \<Rightarrow> bool \<times> ('s \<times> message list)" where
  "enqueue m sq = (True, (fst sq, snd sq @ [m]))"

lemma dispatch_with_client:
  "dispatch (with_client lk) parse txt (s, q) =
     (fst (dispatch lk parse txt s), (snd (dispatch lk parse txt s), q))"
  by (simp add: dispatch_def dispatch_transmit_def dispatch_configure_def status_reply_def with_client_def
      split_beta split: sum.split request_payload.split)

text \<open>The request texts a connection carries before it closes or fails.\<close>

fun request_texts :: "(byte list \<Rightarrow> string) \<Rightarrow> (error + ws_message) list \<Rightarrow> string list" where
  "request_texts lossy [] = []"
| "request_texts lossy (m # ms) =
     (case m of
        Inl e \<Rightarrow> []
      | Inr Close \<Rightarrow> []
      | Inr (Text t) \<Rightarrow> t # request_texts lossy ms
      | Inr (Binary b) \<Rightarrow> lossy b # request_texts lossy ms
      | Inr _ \<Rightarrow> request_texts lossy ms)"

definition answer_next ::
  "'s link \<Rightarrow> (string \<Rightarrow> error + request) \<Rightarrow> 's \<times> message list \<Rightarrow> string \<Rightarrow> 's \<times> message list" where
  "answer_next lk parse sq txt =
     (let (m, s1) = dispatch lk parse txt (fst sq) in (s1, snd sq @ [m]))"

text \<open>A connection answers its requests one by one and in order. For a client that keeps
  reading, the messages queued for it are the answers to the text and binary messages before
  the close or the failure, each dispatched in the state the previous one left; pings and
  other control frames are answered by nothing.\<close>

theorem connection_answers_in_order:
  "snd (read_loop (with_client lk) parse lossy enqueue msgs sq) =
     foldl (answer_next lk parse) sq (request_texts lossy msgs)"
proof (induction msgs arbitrary: sq)
  case (Cons m ms)
  obtain s q where sq: "sq = (s, q)" by force
  show ?case unfolding sq
    using Cons.IH
    by (cases m) (simp_all add: dispatch_with_client enqueue_def answer_next_def split_beta split: ws_message.split)
qed simp

end
