(* ===== verification/Inbox.thy ===== *)
theory Inbox
  imports Server
begin

text \<open>
  \<open>main.rs\<close>, \<open>serve\<close>: the radio thread behind its command channel. Clients and the hotplug
  watcher send into a bounded queue, the thread takes from it, and shutting the runtime down
  drops the senders. A step is one send, one pass of the thread's loop, the hang-up or the
  thread's end; any interleaving is an execution. The channel is tokio's: messages leave it
  in the order they entered, and a receiver sees it closed once it is empty and the senders
  are gone.
\<close>

section \<open>Steps\<close>

definition command_queue :: nat where "command_queue = 16"

text \<open>\<open>sy_accepted\<close> and \<open>sy_polls\<close> record what was sent and what the thread's polls answered.\<close>

record 'w system =
  sy_arbiter :: "'w arbiter"
  sy_inbox :: "command list"
  sy_senders :: bool
  sy_running :: bool
  sy_accepted :: "command list"
  sy_polls :: "command option list"

definition system_new :: "'w env \<Rightarrow> config \<Rightarrow> 'w \<Rightarrow> 'w system" where
  "system_new env c w =
     \<lparr>sy_arbiter = arbiter_new env c w, sy_inbox = [], sy_senders = True, sy_running = True,
      sy_accepted = [], sy_polls = []\<rparr>"

inductive sys_step :: "'w env \<Rightarrow> 'w system \<Rightarrow> 'w system \<Rightarrow> bool" for env where
  send: "sy_senders y \<Longrightarrow> length (sy_inbox y) < command_queue \<Longrightarrow>
     sys_step env y (y\<lparr>sy_inbox := sy_inbox y @ [cmd], sy_accepted := sy_accepted y @ [cmd]\<rparr>)"
| hang_up: "sy_senders y \<Longrightarrow> sys_step env y (y\<lparr>sy_senders := False\<rparr>)"
| take_command: "sy_running y \<Longrightarrow> sy_inbox y = cmd # rest \<Longrightarrow>
     sys_step env y (y\<lparr>sy_inbox := rest, sy_arbiter := loop_step env (Some cmd) (sy_arbiter y),
       sy_polls := sy_polls y @ [Some cmd]\<rparr>)"
| idle_pass: "sy_running y \<Longrightarrow> sy_inbox y = [] \<Longrightarrow> sy_senders y \<Longrightarrow> s_rx_enabled (a_state (sy_arbiter y)) \<Longrightarrow>
     sys_step env y (y\<lparr>sy_arbiter := loop_step env None (sy_arbiter y), sy_polls := sy_polls y @ [None]\<rparr>)"
| stop_thread: "sy_running y \<Longrightarrow> sy_inbox y = [] \<Longrightarrow> \<not> sy_senders y \<Longrightarrow>
     sys_step env y (y\<lparr>sy_arbiter := snd (act (e_stop env) (sy_arbiter y)), sy_running := False\<rparr>)"

inductive sys_run :: "'w env \<Rightarrow> 'w system \<Rightarrow> 'w system \<Rightarrow> bool" for env y where
  start: "sys_run env y y"
| next_step: "sys_run env y z \<Longrightarrow> sys_step env z x \<Longrightarrow> sys_run env y x"

section \<open>The invariant\<close>

text \<open>The reply a command is owed.\<close>

definition reply_for :: "command \<Rightarrow> outgoing \<Rightarrow> bool" where
  "reply_for cmd x = (case cmd of
     Cmd_Transmit t \<Rightarrow> (case x of Transmit_Reply (Inr d) \<Rightarrow> d = air_time_us t | Transmit_Reply (Inl e) \<Rightarrow> True | _ \<Rightarrow> False)
   | Cmd_Configure_Rx f en \<Rightarrow> (case x of Configure_Reply r \<Rightarrow> True | _ \<Rightarrow> False)
   | Cmd_Status \<Rightarrow> (case x of Status_Reply st \<Rightarrow> True | _ \<Rightarrow> False)
   | Cmd_Device_Arrived \<Rightarrow> False)"

definition asks :: "command list \<Rightarrow> command list" where
  "asks cmds = filter (\<lambda>c. c \<noteq> Cmd_Device_Arrived) cmds"

definition taken :: "command option list \<Rightarrow> command list" where
  "taken polls = List.map_filter id polls"

definition passes :: "'w env \<Rightarrow> config \<Rightarrow> 'w \<Rightarrow> command option list \<Rightarrow> 'w arbiter" where
  "passes env c w polls = foldl (\<lambda>a p. loop_step env p a) (arbiter_new env c w) polls"

definition sys_ok :: "'w env \<Rightarrow> config \<Rightarrow> 'w \<Rightarrow> 'w system \<Rightarrow> bool" where
  "sys_ok env c w y \<longleftrightarrow>
     sy_arbiter y = (if sy_running y then passes env c w (sy_polls y) else run_thread env c w (sy_polls y)) \<and>
     sy_accepted y = taken (sy_polls y) @ sy_inbox y \<and> length (sy_inbox y) \<le> 16 \<and>
     (\<not> sy_running y \<longrightarrow> sy_inbox y = [] \<and> \<not> sy_senders y)"

lemma taken_snoc [simp]: "taken [] = []" "taken (ps @ [None]) = taken ps" "taken (ps @ [Some c]) = taken ps @ [c]"
  by (simp_all add: taken_def filter_map_append map_filter_simps)

lemma passes_snoc: "passes env c w (ps @ [p]) = loop_step env p (passes env c w ps)"
  by (simp add: passes_def)

lemma run_thread_passes: "run_thread env c w ps = snd (act (e_stop env) (passes env c w ps))"
  by (simp add: run_thread_def passes_def)

lemma sys_ok_new: "sys_ok env c w (system_new env c w)"
  by (simp add: sys_ok_def system_new_def passes_def)

lemma sys_step_ok: "sys_step env y z \<Longrightarrow> sys_ok env c w y \<Longrightarrow> sys_ok env c w z"
  by (induction rule: sys_step.induct)
    (auto simp: sys_ok_def passes_snoc run_thread_passes command_queue_def)

lemma sys_run_ok: "sys_run env (system_new env c w) y \<Longrightarrow> sys_ok env c w y"
  by (induction rule: sys_run.induct) (auto intro: sys_ok_new sys_step_ok)

section \<open>The thread's view\<close>

text \<open>Every interleaving is a run of the thread. Whatever the clients, the watcher and the
  shutdown do when, a daemon whose radio thread has ended is in the state \<open>run\<close> reaches on the
  sequence of polls the interleaving gave it, and the commands in that sequence are
  exactly those the queue accepted, in order.\<close>

theorem interleavings_are_thread_runs:
  assumes "sys_run env (system_new env c w) y" "\<not> sy_running y"
  shows "sy_arbiter y = run_thread env c w (sy_polls y) \<and> taken (sy_polls y) = sy_accepted y"
  using sys_run_ok [OF assms(1)] assms(2) by (simp add: sys_ok_def)

lemma answers_reply_for:
  "answers cmd out n \<Longrightarrow> (cmd = Cmd_Device_Arrived \<and> out = []) \<or> (\<exists>x. out = [x] \<and> reply_for cmd x \<and> cmd \<noteq> Cmd_Device_Arrived)"
  by (cases cmd) (auto simp: answers_def reply_for_def)

lemma loop_step_replies:
  "\<exists>out. replies (a_out (loop_step env p a)) = replies (a_out a) @ out \<and>
     list_all2 reply_for (asks (case p of None \<Rightarrow> [] | Some cmd \<Rightarrow> [cmd])) out"
proof -
  obtain out sent fs where o: "case p of None \<Rightarrow> out = [] \<and> sent = 0 | Some cmd \<Rightarrow> answers cmd out sent"
    "ledger_of (loop_step env p a) = (ledger_of a)\<lparr>l_replies := l_replies (ledger_of a) @ out,
       l_frames := l_frames (ledger_of a) @ fs, l_transmissions := l_transmissions (ledger_of a) + sent,
       l_rx_frames := l_rx_frames (ledger_of a) + length fs\<rparr>"
    using loop_step_ledger [of p env a] by blast
  have "replies (a_out (loop_step env p a)) = replies (a_out a) @ out" using o(2) by (simp add: ledger_of_def)
  moreover have "list_all2 reply_for (asks (case p of None \<Rightarrow> [] | Some cmd \<Rightarrow> [cmd])) out"
    using o(1) answers_reply_for by (cases p) (auto simp: asks_def)
  ultimately show ?thesis by blast
qed

lemma passes_replies: "list_all2 reply_for (asks (taken ps)) (replies (a_out (passes env c w ps)))"
proof (induction ps rule: rev_induct)
  case Nil
  show ?case
    by (simp add: passes_def asks_def arbiter_new_def state_new_def replies_def split_beta)
next
  case (snoc p ps)
  obtain out where "replies (a_out (passes env c w (ps @ [p]))) = replies (a_out (passes env c w ps)) @ out"
    "list_all2 reply_for (asks (case p of None \<Rightarrow> [] | Some cmd \<Rightarrow> [cmd])) out"
    using loop_step_replies [of env p "passes env c w ps"] unfolding passes_snoc by blast
  then show ?case using snoc.IH by (cases p) (auto simp: asks_def intro: list_all2_appendI)
qed

text \<open>Requests are answered in the order they were accepted, each once and with its own kind
  of reply, and at most sixteen wait. In every state of every execution the replies sent so
  far answer, one for one, the requests taken from the queue, which are the accepted ones but
  for those still waiting.\<close>

theorem requests_answered_in_order:
  assumes "sys_run env (system_new env c w) y"
  shows "length (sy_inbox y) \<le> 16 \<and>
     (\<exists>done. sy_accepted y = done @ sy_inbox y \<and> list_all2 reply_for (asks done) (replies (a_out (sy_arbiter y))))"
proof -
  note ok = sys_run_ok [OF assms]
  have "a_out (run_thread env c w (sy_polls y)) = a_out (passes env c w (sy_polls y))"
    by (simp add: run_thread_passes act_def split_beta)
  then have "list_all2 reply_for (asks (taken (sy_polls y))) (replies (a_out (sy_arbiter y)))"
    using ok passes_replies [of "sy_polls y" env c w] by (simp add: sys_ok_def split: if_splits)
  then show ?thesis using ok by (auto simp: sys_ok_def)
qed

section \<open>Shutting down\<close>

definition shutdown_work :: "'w system \<Rightarrow> nat" where
  "shutdown_work y = length (sy_inbox y) + (if sy_running y then 1 else 0)"

lemma shutdown_step:
  "sys_step env y z \<Longrightarrow> \<not> sy_senders y \<Longrightarrow> \<not> sy_senders z \<and> shutdown_work z < shutdown_work y \<and> sy_accepted z = sy_accepted y"
  by (induction rule: sys_step.induct) (auto simp: shutdown_work_def)

lemma shutdown_enabled:
  assumes "sy_running y" "\<not> sy_senders y"
  shows "\<exists>z. sys_step env y z"
  using assms sys_step.take_command [of y _ _ env] sys_step.stop_thread [of y env] by (cases "sy_inbox y") auto

lemma sys_run_trans: "sys_run env y z \<Longrightarrow> sys_run env x y \<Longrightarrow> sys_run env x z"
  by (induction rule: sys_run.induct) (auto intro: sys_run.next_step)

lemma shutdown_finishes:
  assumes "\<not> sy_senders y"
  shows "\<exists>z. sys_run env y z \<and> \<not> sy_running z"
  using assms
proof (induction "shutdown_work y" arbitrary: y rule: less_induct)
  case less
  show ?case
  proof (cases "sy_running y")
    case True
    obtain z where z: "sys_step env y z" using shutdown_enabled [OF True less.prems] by blast
    note d = shutdown_step [OF z less.prems]
    then obtain x where "sys_run env z x" "\<not> sy_running x" using less.hyps [of z] by auto
    then show ?thesis using sys_run_trans [OF _ sys_run.next_step [OF sys_run.start z]] by blast
  next
    case False
    then show ?thesis using sys_run.start by blast
  qed
qed

lemma shutdown_accepts_nothing:
  "sys_run env y z \<Longrightarrow> \<not> sy_senders y \<Longrightarrow> \<not> sy_senders z \<and> sy_accepted z = sy_accepted y"
  by (induction rule: sys_run.induct) (auto dest: shutdown_step)

text \<open>C29: Shutting down ends the thread, after the queue. Once the senders are gone every step is
  a step of the thread and at most seventeen are left; one is possible as long as the thread
  runs, and going on from this very state the thread ends; and in whatever way it has gone on,
  when it has ended nothing more was accepted and every request ever accepted, those
  still queued at the hang-up included, has been carried out and answered, in order.\<close>

theorem shutdown_serves_the_queue:
  assumes run: "sys_run env (system_new env c w) y" and gone: "\<not> sy_senders y"
  shows "shutdown_work y \<le> 17 \<and>
     (\<forall>z. sys_step env y z \<longrightarrow> shutdown_work z < shutdown_work y) \<and>
     (sy_running y \<longrightarrow> (\<exists>z. sys_step env y z)) \<and>
     (\<exists>z. sys_run env y z \<and> \<not> sy_running z) \<and>
     (\<forall>z. sys_run env y z \<and> \<not> sy_running z \<longrightarrow>
        sy_accepted z = sy_accepted y \<and> taken (sy_polls z) = sy_accepted y \<and>
        list_all2 reply_for (asks (sy_accepted y)) (replies (a_out (sy_arbiter z))))"
proof -
  have "shutdown_work y \<le> 17" using sys_run_ok [OF run] by (simp add: sys_ok_def shutdown_work_def)
  moreover have "sy_accepted z = sy_accepted y \<and> taken (sy_polls z) = sy_accepted y \<and>
      list_all2 reply_for (asks (sy_accepted y)) (replies (a_out (sy_arbiter z)))"
    if z: "sys_run env y z" "\<not> sy_running z" for z
  proof -
    note whole = sys_run_trans [OF z(1) run]
    show ?thesis
      using requests_answered_in_order [OF whole] sys_run_ok [OF whole] z(2) shutdown_accepts_nothing [OF z(1) gone]
      by (auto simp: sys_ok_def)
  qed
  ultimately show ?thesis
    using shutdown_step [OF _ gone] shutdown_enabled [OF _ gone] shutdown_finishes [OF gone] by blast
qed

end
