(* ===== verification/Clients.thy ===== *)
theory Clients
  imports Inbox
begin

text \<open>
  Many clients and one radio: the connections of \<open>server.rs\<close> asking the radio thread of
  \<open>main.rs\<close> at the same time. \<open>dispatch\<close> is cut at its await points, sending a command and
  waiting for its reply; a step is what one connection or the thread does between two of
  them. What each client is told turns out to be what \<open>dispatch\<close> tells it when it has the
  radio thread to itself, other commands coming in between its questions.
\<close>

section \<open>Dispatching in stages\<close>

text \<open>A request past its checks, at the command it asks next.\<close>

datatype stage =
    Ask_Transmit "string option" transmit
  | Ask_Configure "string option" configure_rx
  | Ask_Status "string option"

fun command_of :: "stage \<Rightarrow> command" where
  "command_of (Ask_Transmit i t) = Cmd_Transmit t"
| "command_of (Ask_Configure i c) = Cmd_Configure_Rx (rx_frequency_opt c) (rx_enable c)"
| "command_of (Ask_Status i) = Cmd_Status"

text \<open>Up to the first question, which a request that is refused never asks.\<close>

definition begin_dispatch :: "(string \<Rightarrow> error + request) \<Rightarrow> string \<Rightarrow> message + stage" where
  "begin_dispatch parse txt =
     (case parse txt of
        Inl e \<Rightarrow> Inl (event (Error (Could_Not_Parse e)))
      | Inr req \<Rightarrow>
          if req_v req \<noteq> protocol_version then Inl (error_reply (req_id req) (Version_Not_Supported (req_v req)))
          else case req_payload req of
                 Transmit t \<Rightarrow> (case validate t of
                     Inl invalid \<Rightarrow> Inl (error_reply (req_id req) (Refused invalid))
                   | Inr _ \<Rightarrow> Inr (Ask_Transmit (req_id req) t))
               | Configure_Rx c \<Rightarrow>
                   if \<not> rx_frequency_ok (rx_frequency_opt c)
                   then Inl (error_reply (req_id req) (Rx_Frequency_Out_Of_Range (the (rx_frequency_opt c))))
                   else Inr (Ask_Configure (req_id req) c)
               | Status_Request \<Rightarrow> Inr (Ask_Status (req_id req)))"

text \<open>From a reply on: the message for the client, or another question. A reply has the type its
  command asks for; the last equation stands for a reply channel that was dropped.\<close>

fun resume :: "stage \<Rightarrow> outgoing \<Rightarrow> message + stage" where
  "resume (Ask_Transmit i t) (Transmit_Reply r) =
     Inl (case r of Inl e \<Rightarrow> error_reply i (From_Radio e) | Inr d \<Rightarrow> reply i (Transmitted d))"
| "resume (Ask_Configure i c) (Configure_Reply r) =
     (case r of Inl e \<Rightarrow> Inl (error_reply i (From_Radio e)) | Inr _ \<Rightarrow> Inr (Ask_Status i))"
| "resume (Ask_Status i) (Status_Reply st) = Inl (reply i (Status st))"
| "resume (Ask_Transmit i t) x = Inl (error_reply i Radio_Thread_Dropped)"
| "resume (Ask_Configure i c) x = Inl (error_reply i Radio_Thread_Dropped)"
| "resume (Ask_Status i) x = Inl (error_reply i Radio_Thread_Dropped)"

fun questions_left :: "stage \<Rightarrow> nat" where
  "questions_left (Ask_Configure i c) = 2"
| "questions_left st = 1"

lemma resume_asks_less: "resume st x = Inr st1 \<Longrightarrow> questions_left st1 < questions_left st"
  by (induction st x rule: resume.induct) (auto split: sum.splits)

section \<open>One client, others in between\<close>

text \<open>A schedule says what the radio thread's polls answer before each of the client's questions
  is served.\<close>

type_synonym 'w scheduled = "'w arbiter \<times> command option list list"

definition scheduled_pass :: "'w env \<Rightarrow> command \<Rightarrow> 'w scheduled \<Rightarrow> outgoing \<times> 'w scheduled" where
  "scheduled_pass env cmd s =
     (let (x, a1) = ask_pass env cmd
            (foldl (\<lambda>a p. loop_step env p a) (fst s) (case snd s of [] \<Rightarrow> [] | others # rest \<Rightarrow> others))
      in (x, (a1, tl (snd s))))"

definition scheduled_link :: "'w env \<Rightarrow> 'w scheduled link" where
  "scheduled_link env =
     \<lparr>ask_transmit = (\<lambda>t s. case scheduled_pass env (Cmd_Transmit t) s of
          (Transmit_Reply r, s1) \<Rightarrow> (Inr r, s1) | (_, s1) \<Rightarrow> (Inl Request_Dropped, s1)),
      ask_configure = (\<lambda>f en s. case scheduled_pass env (Cmd_Configure_Rx f en) s of
          (Configure_Reply r, s1) \<Rightarrow> (Inr r, s1) | (_, s1) \<Rightarrow> (Inl Request_Dropped, s1)),
      ask_status = (\<lambda>s. case scheduled_pass env Cmd_Status s of
          (Status_Reply st, s1) \<Rightarrow> (Inr st, s1) | (_, s1) \<Rightarrow> (Inl Request_Dropped, s1))\<rparr>"

text \<open>The rest of a dispatch, from one of its questions on.\<close>

function finish :: "'w env \<Rightarrow> stage \<Rightarrow> 'w scheduled \<Rightarrow> message \<times> 'w scheduled" where
  "finish env st s =
     (case scheduled_pass env (command_of st) s of
        (x, s1) \<Rightarrow> (case resume st x of Inl m \<Rightarrow> (m, s1) | Inr st1 \<Rightarrow> finish env st1 s1))"
  by pat_completeness auto
termination
  by (relation "measure (\<lambda>(env, st, s). questions_left st)") (auto dest: resume_asks_less)

declare finish.simps [simp del]

lemma finish_status: "finish env (Ask_Status i) s = status_reply (scheduled_link env) i s"
  by (simp add: finish.simps [of env "Ask_Status i"] status_reply_def scheduled_link_def
      split: prod.split outgoing.split)

lemma dispatch_staged:
  "dispatch (scheduled_link env) parse txt s =
     (case begin_dispatch parse txt of Inl m \<Rightarrow> (m, s) | Inr st \<Rightarrow> finish env st s)"
proof (cases "parse txt")
  case (Inr req)
  have t: "dispatch_transmit (scheduled_link env) i t s =
      (case validate t of Inl v \<Rightarrow> (error_reply i (Refused v), s) | Inr _ \<Rightarrow> finish env (Ask_Transmit i t) s)" for i t
    by (simp add: dispatch_transmit_def finish.simps [of env "Ask_Transmit i t"] scheduled_link_def
        split: sum.split prod.split outgoing.split)
  have c: "dispatch_configure (scheduled_link env) i c s =
      (if \<not> rx_frequency_ok (rx_frequency_opt c)
       then (error_reply i (Rx_Frequency_Out_Of_Range (the (rx_frequency_opt c))), s)
       else finish env (Ask_Configure i c) s)" for i c
    by (simp add: dispatch_configure_def finish.simps [of env "Ask_Configure i c"] finish_status scheduled_link_def
        split: sum.split prod.split outgoing.split)
  show ?thesis using Inr
    by (simp add: dispatch_def begin_dispatch_def t c finish_status split: sum.split request_payload.split)
qed (simp add: dispatch_def begin_dispatch_def)


section \<open>All clients at once\<close>

text \<open>A connection's request task: reading the next request, waiting for a place in the queue,
  waiting for the reply, holding the reply.\<close>

datatype task = Ready | Sending stage | Asking stage | Answered stage outgoing

record client =
  cl_task :: task
  cl_texts :: "string list"
  cl_replies :: "message list"

definition client_new :: client where
  "client_new = \<lparr>cl_task = Ready, cl_texts = [], cl_replies = []\<rparr>"

text \<open>In the queue a command carries its reply channel, here the client that waits on it; the
  hotplug watcher's commands have none. \<open>nt_senders\<close> is whether the runtime still exists, with its
  tasks: dropping it drops the senders and the receiving ends of all reply channels.
  \<open>nt_lost\<close> records the replies the thread sent into a channel that nobody had the end of.\<close>

record 'w net =
  nt_arbiter :: "'w arbiter"
  nt_inbox :: "(nat option \<times> command) list"
  nt_clients :: "nat \<Rightarrow> client"
  nt_senders :: bool
  nt_running :: bool
  nt_accepted :: "command list"
  nt_polls :: "command option list"
  nt_lost :: "outgoing list"

definition net_new :: "'w env \<Rightarrow> config \<Rightarrow> 'w \<Rightarrow> 'w net" where
  "net_new env c w =
     \<lparr>nt_arbiter = arbiter_new env c w, nt_inbox = [], nt_clients = (\<lambda>i. client_new), nt_senders = True,
      nt_running = True, nt_accepted = [], nt_polls = [], nt_lost = []\<rparr>"

definition set_client :: "nat \<Rightarrow> client \<Rightarrow> 'w net \<Rightarrow> 'w net" where
  "set_client i c y = y\<lparr>nt_clients := (nt_clients y)(i := c)\<rparr>"

text \<open>A reply reaches the task that waits for it, as long as there are tasks; the thread does not
  look whether it does.\<close>

definition hand_over :: "bool \<Rightarrow> nat option \<Rightarrow> outgoing \<Rightarrow> (nat \<Rightarrow> client) \<Rightarrow> nat \<Rightarrow> client" where
  "hand_over alive src x cs =
     (case src of None \<Rightarrow> cs
      | Some i \<Rightarrow> (case cl_task (cs i) of
          Asking st \<Rightarrow> if alive then cs(i := (cs i)\<lparr>cl_task := Answered st x\<rparr>) else cs
        | _ \<Rightarrow> cs))"

definition unheard :: "bool \<Rightarrow> nat option \<Rightarrow> outgoing \<Rightarrow> outgoing list" where
  "unheard alive src x = (if alive then [] else case src of None \<Rightarrow> [] | Some i \<Rightarrow> [x])"

definition enqueue_command :: "nat option \<Rightarrow> command \<Rightarrow> 'w net \<Rightarrow> 'w net" where
  "enqueue_command src cmd y =
     y\<lparr>nt_inbox := nt_inbox y @ [(src, cmd)], nt_accepted := nt_accepted y @ [cmd]\<rparr>"

inductive net_step :: "'w env \<Rightarrow> (string \<Rightarrow> error + request) \<Rightarrow> 'w net \<Rightarrow> 'w net \<Rightarrow> bool" for env parse where
  refuse: "nt_senders y \<Longrightarrow> c = nt_clients y i \<Longrightarrow> cl_task c = Ready \<Longrightarrow> begin_dispatch parse txt = Inl m \<Longrightarrow>
     net_step env parse y (set_client i (c\<lparr>cl_texts := cl_texts c @ [txt], cl_replies := cl_replies c @ [m]\<rparr>) y)"
| request: "nt_senders y \<Longrightarrow> c = nt_clients y i \<Longrightarrow> cl_task c = Ready \<Longrightarrow> begin_dispatch parse txt = Inr st \<Longrightarrow>
     net_step env parse y (set_client i (c\<lparr>cl_task := Sending st, cl_texts := cl_texts c @ [txt]\<rparr>) y)"
| send: "nt_senders y \<Longrightarrow> c = nt_clients y i \<Longrightarrow> cl_task c = Sending st \<Longrightarrow> length (nt_inbox y) < command_queue \<Longrightarrow>
     net_step env parse y (set_client i (c\<lparr>cl_task := Asking st\<rparr>) (enqueue_command (Some i) (command_of st) y))"
| notice: "nt_senders y \<Longrightarrow> length (nt_inbox y) < command_queue \<Longrightarrow>
     net_step env parse y (enqueue_command None Cmd_Device_Arrived y)"
| answer: "nt_senders y \<Longrightarrow> c = nt_clients y i \<Longrightarrow> cl_task c = Answered st x \<Longrightarrow> resume st x = Inl m \<Longrightarrow>
     net_step env parse y (set_client i (c\<lparr>cl_task := Ready, cl_replies := cl_replies c @ [m]\<rparr>) y)"
| proceed: "nt_senders y \<Longrightarrow> c = nt_clients y i \<Longrightarrow> cl_task c = Answered st x \<Longrightarrow> resume st x = Inr st1 \<Longrightarrow>
     net_step env parse y (set_client i (c\<lparr>cl_task := Sending st1\<rparr>) y)"
| take_command: "nt_running y \<Longrightarrow> nt_inbox y = (src, cmd) # rest \<Longrightarrow> ask_pass env cmd (nt_arbiter y) = (x, a1) \<Longrightarrow>
     net_step env parse y (y\<lparr>nt_arbiter := a1, nt_inbox := rest,
       nt_clients := hand_over (nt_senders y) src x (nt_clients y),
       nt_polls := nt_polls y @ [Some cmd], nt_lost := nt_lost y @ unheard (nt_senders y) src x\<rparr>)"
| idle_pass: "nt_running y \<Longrightarrow> nt_inbox y = [] \<Longrightarrow> nt_senders y \<Longrightarrow> s_rx_enabled (a_state (nt_arbiter y)) \<Longrightarrow>
     net_step env parse y (y\<lparr>nt_arbiter := loop_step env None (nt_arbiter y), nt_polls := nt_polls y @ [None]\<rparr>)"
| hang_up: "nt_senders y \<Longrightarrow> net_step env parse y (y\<lparr>nt_senders := False\<rparr>)"
| stop_thread: "nt_running y \<Longrightarrow> nt_inbox y = [] \<Longrightarrow> \<not> nt_senders y \<Longrightarrow>
     net_step env parse y (y\<lparr>nt_arbiter := snd (act (e_stop env) (nt_arbiter y)), nt_running := False\<rparr>)"

inductive net_run :: "'w env \<Rightarrow> (string \<Rightarrow> error + request) \<Rightarrow> 'w net \<Rightarrow> 'w net \<Rightarrow> bool" for env parse y where
  start: "net_run env parse y y"
| next_step: "net_run env parse y z \<Longrightarrow> net_step env parse z x \<Longrightarrow> net_run env parse y x"

lemma net_run_trans: "net_run env parse y z \<Longrightarrow> net_run env parse x y \<Longrightarrow> net_run env parse x z"
  by (induction rule: net_run.induct) (auto intro: net_run.intros)

lemma set_client_simps [simp]:
  "nt_arbiter (set_client i c y) = nt_arbiter y" "nt_inbox (set_client i c y) = nt_inbox y"
  "nt_senders (set_client i c y) = nt_senders y" "nt_running (set_client i c y) = nt_running y"
  "nt_accepted (set_client i c y) = nt_accepted y" "nt_polls (set_client i c y) = nt_polls y"
  "nt_clients (set_client i c y) = (nt_clients y)(i := c)" "nt_lost (set_client i c y) = nt_lost y"
  by (simp_all add: set_client_def)

lemma enqueue_simps [simp]:
  "nt_arbiter (enqueue_command src cmd y) = nt_arbiter y" "nt_inbox (enqueue_command src cmd y) = nt_inbox y @ [(src, cmd)]"
  "nt_senders (enqueue_command src cmd y) = nt_senders y" "nt_running (enqueue_command src cmd y) = nt_running y"
  "nt_accepted (enqueue_command src cmd y) = nt_accepted y @ [cmd]" "nt_polls (enqueue_command src cmd y) = nt_polls y"
  "nt_clients (enqueue_command src cmd y) = nt_clients y" "nt_lost (enqueue_command src cmd y) = nt_lost y"
  by (simp_all add: enqueue_command_def)

section \<open>The command channel underneath\<close>

definition system_of :: "'w net \<Rightarrow> 'w system" where
  "system_of y =
     \<lparr>sy_arbiter = nt_arbiter y, sy_inbox = map snd (nt_inbox y), sy_senders = nt_senders y,
      sy_running = nt_running y, sy_accepted = nt_accepted y, sy_polls = nt_polls y\<rparr>"

lemma ask_pass_step: "snd (ask_pass env cmd a) = loop_step env (Some cmd) a"
  by (simp add: ask_pass_def Let_def)

lemma net_step_refines:
  assumes "net_step env parse y z"
  shows "system_of z = system_of y \<or> sys_step env (system_of y) (system_of z)"
  using assms
proof (cases rule: net_step.cases)
  case (send c i st)
  then show ?thesis using sys_step.send [of "system_of y" env "command_of st"] by (simp add: system_of_def)
next
  case notice
  then show ?thesis using sys_step.send [of "system_of y" env Cmd_Device_Arrived] by (simp add: system_of_def)
next
  case (take_command src cmd rest x a1)
  then have "a1 = loop_step env (Some cmd) (nt_arbiter y)" using ask_pass_step [of env cmd "nt_arbiter y"] by simp
  then show ?thesis using take_command sys_step.take_command [of "system_of y" cmd "map snd rest" env]
    by (simp add: system_of_def)
next
  case idle_pass
  then show ?thesis using sys_step.idle_pass [of "system_of y" env] by (simp add: system_of_def)
next
  case hang_up
  then show ?thesis using sys_step.hang_up [of "system_of y" env] by (simp add: system_of_def)
next
  case stop_thread
  then show ?thesis using sys_step.stop_thread [of "system_of y" env] by (simp add: system_of_def)
qed (simp_all add: system_of_def)

lemma net_run_refines: "net_run env parse (net_new env c w) y \<Longrightarrow> sys_run env (system_new env c w) (system_of y)"
proof (induction rule: net_run.induct)
  case start
  have "system_of (net_new env c w) = system_new env c w" by (simp add: system_of_def net_new_def system_new_def)
  then show ?case using sys_run.start by simp
next
  case (next_step z x)
  then show ?case using net_step_refines [OF next_step.hyps(2)] sys_run.next_step by metis
qed

lemma net_sys_ok: "net_run env parse (net_new env c w) y \<Longrightarrow> sys_ok env c w (system_of y)"
  by (rule sys_run_ok [OF net_run_refines])


section \<open>What one client is told\<close>

text \<open>A client's commands in the queue: the one it waits for, if it waits.\<close>

definition queued :: "nat \<Rightarrow> 'w net \<Rightarrow> (nat option \<times> command) list" where
  "queued i y = filter (\<lambda>e. fst e = Some i) (nt_inbox y)"

definition expected :: "nat \<Rightarrow> task \<Rightarrow> (nat option \<times> command) list" where
  "expected i t = (case t of Asking st \<Rightarrow> [(Some i, command_of st)] | _ \<Rightarrow> [])"

lemma expected_simps [simp]:
  "expected i Ready = []" "expected i (Sending st) = []" "expected i (Answered st x) = []"
  "expected i (Asking st) = [(Some i, command_of st)]"
  by (simp_all add: expected_def)

lemma queued_simps [simp]:
  "queued i (set_client j c y) = queued i y"
  "queued i (enqueue_command src cmd y) = queued i y @ (if src = Some i then [(src, cmd)] else [])"
  by (simp_all add: queued_def)

definition queue_ok :: "'w net \<Rightarrow> bool" where
  "queue_ok y \<longleftrightarrow> (nt_senders y \<longrightarrow> (\<forall>i. queued i y = expected i (cl_task (nt_clients y i))))"

lemma queue_ok_new: "queue_ok (net_new env c w)"
  by (simp add: queue_ok_def queued_def net_new_def client_new_def)

text \<open>The head of the queue is what its client waits for.\<close>

lemma queue_ok_head:
  assumes "queue_ok y" "nt_senders y" "nt_inbox y = (Some i, cmd) # rest"
  obtains st where "cl_task (nt_clients y i) = Asking st" "cmd = command_of st" "filter (\<lambda>e. fst e = Some i) rest = []"
proof -
  have "queued i y = expected i (cl_task (nt_clients y i))" using assms(1,2) by (simp add: queue_ok_def)
  then have "(Some i, cmd) # filter (\<lambda>e. fst e = Some i) rest = expected i (cl_task (nt_clients y i))"
    using assms(3) by (simp add: queued_def)
  then show ?thesis using that by (cases "cl_task (nt_clients y i)") auto
qed

lemma queue_ok_step:
  assumes "net_step env parse y z" "queue_ok y"
  shows "queue_ok z"
  using assms(1)
proof (cases rule: net_step.cases)
  case (take_command src cmd rest x a1)
  have q: "queued i y = (if src = Some i then [(src, cmd)] else []) @ filter (\<lambda>e. fst e = Some i) rest" for i
    using take_command(3) by (simp add: queued_def)
  have "filter (\<lambda>e. fst e = Some i) rest = expected i (cl_task (hand_over True src x (nt_clients y) i))"
    if alive: "nt_senders y" for i
  proof (cases src)
    case (Some j)
    obtain st where "cl_task (nt_clients y j) = Asking st" "filter (\<lambda>e. fst e = Some j) rest = []"
      using queue_ok_head [of y j cmd rest] assms(2) take_command(3) Some alive by blast
    then show ?thesis using q [of i] assms(2) Some alive by (auto simp: hand_over_def queue_ok_def)
  qed (use q [of i] assms(2) alive in \<open>simp add: hand_over_def queue_ok_def\<close>)
  then show ?thesis using take_command by (simp add: queue_ok_def queued_def)
qed (use assms(2) in \<open>auto simp: queue_ok_def, simp_all add: queued_def\<close>)

lemma net_run_queue_ok: "net_run env parse (net_new env c w) y \<Longrightarrow> queue_ok y"
  by (induction rule: net_run.induct) (auto intro: queue_ok_new queue_ok_step)

text \<open>Requests one after the other.\<close>

fun run_texts :: "'s link \<Rightarrow> (string \<Rightarrow> error + request) \<Rightarrow> string list \<Rightarrow> 's \<Rightarrow> message list \<times> 's" where
  "run_texts lk parse [] s = ([], s)"
| "run_texts lk parse (txt # txts) s =
     (let (m, s1) = dispatch lk parse txt s; (ms, s2) = run_texts lk parse txts s1 in (m # ms, s2))"

lemma run_texts_snoc:
  "run_texts lk parse (txts @ [txt]) s =
     (let (ms, s1) = run_texts lk parse txts s; (m, s2) = dispatch lk parse txt s1 in (ms @ [m], s2))"
  by (induction txts arbitrary: s) (simp_all add: split_beta Let_def)

lemma run_texts_length: "length (fst (run_texts lk parse txts s)) = length txts"
  by (induction txts arbitrary: s) (simp_all add: split_beta Let_def)

lemma run_texts_take: "fst (run_texts lk parse (take n txts) s) = take n (fst (run_texts lk parse txts s))"
  by (induction txts arbitrary: s n) (auto simp: split_beta Let_def take_Cons split: nat.split)

text \<open>A schedule put together with the client's own commands.\<close>

fun weave :: "command option list list \<Rightarrow> command list \<Rightarrow> command option list" where
  "weave (others # sched) (cmd # own) = others @ Some cmd # weave sched own"
| "weave _ _ = []"

lemma weave_snoc:
  "length own = length sched \<Longrightarrow> weave (sched @ [others]) (own @ [cmd]) = weave sched own @ others @ [Some cmd]"
  by (induction sched own rule: weave.induct) (auto split: list.splits)

text \<open>What is left of the dispatch a task is in.\<close>

fun rest_of :: "'w env \<Rightarrow> task \<Rightarrow> message list \<Rightarrow> 'w scheduled \<Rightarrow> message list \<times> 'w scheduled" where
  "rest_of env Ready ms s = (ms, s)"
| "rest_of env (Sending st) ms s = (let (m, s1) = finish env st s in (ms @ [m], s1))"
| "rest_of env (Asking st) ms s = (let (m, s1) = finish env st s in (ms @ [m], s1))"
| "rest_of env (Answered st x) ms s =
     (case resume st x of Inl m \<Rightarrow> (ms @ [m], s) | Inr st1 \<Rightarrow> (let (m, s1) = finish env st1 s in (ms @ [m], s1)))"

definition client_ok :: "'w env \<Rightarrow> (string \<Rightarrow> error + request) \<Rightarrow> config \<Rightarrow> 'w \<Rightarrow> client \<Rightarrow> command option list \<Rightarrow> bool" where
  "client_ok env parse c w cl polls \<longleftrightarrow>
     (\<exists>sched own later. length own = length sched \<and> polls = weave sched own @ later \<and>
        (\<forall>future. run_texts (scheduled_link env) parse (cl_texts cl) (arbiter_new env c w, sched @ future) =
           rest_of env (cl_task cl) (cl_replies cl) (passes env c w (weave sched own), future)))"

lemma client_ok_new: "client_ok env parse c w client_new []"
  unfolding client_ok_def by (intro exI [of _ "[]"]) (simp add: client_new_def passes_def)

lemma client_ok_later: "client_ok env parse c w cl polls \<Longrightarrow> client_ok env parse c w cl (polls @ extra)"
  unfolding client_ok_def by (metis append.assoc)

text \<open>Steps of the client's own that the radio thread does not see.\<close>

lemma client_ok_refuse:
  assumes "client_ok env parse c w cl polls" "cl_task cl = Ready" "begin_dispatch parse txt = Inl m"
  shows "client_ok env parse c w (cl\<lparr>cl_texts := cl_texts cl @ [txt], cl_replies := cl_replies cl @ [m]\<rparr>) polls"
proof -
  from assms(1) obtain sched own later where "length own = length sched" "polls = weave sched own @ later"
    "\<forall>future. run_texts (scheduled_link env) parse (cl_texts cl) (arbiter_new env c w, sched @ future) =
        rest_of env (cl_task cl) (cl_replies cl) (passes env c w (weave sched own), future)"
    unfolding client_ok_def by blast
  then show ?thesis unfolding client_ok_def using assms(2,3)
    by (intro exI [of _ sched] exI [of _ own] exI [of _ later]) (simp add: run_texts_snoc dispatch_staged Let_def)
qed

lemma client_ok_request:
  assumes "client_ok env parse c w cl polls" "cl_task cl = Ready" "begin_dispatch parse txt = Inr st"
  shows "client_ok env parse c w (cl\<lparr>cl_task := Sending st, cl_texts := cl_texts cl @ [txt]\<rparr>) polls"
proof -
  from assms(1) obtain sched own later where "length own = length sched" "polls = weave sched own @ later"
    "\<forall>future. run_texts (scheduled_link env) parse (cl_texts cl) (arbiter_new env c w, sched @ future) =
        rest_of env (cl_task cl) (cl_replies cl) (passes env c w (weave sched own), future)"
    unfolding client_ok_def by blast
  then show ?thesis unfolding client_ok_def using assms(2,3)
    by (intro exI [of _ sched] exI [of _ own] exI [of _ later]) (simp add: run_texts_snoc dispatch_staged Let_def)
qed

lemma client_ok_task:
  assumes "client_ok env parse c w cl polls"
    and "\<And>s. rest_of env t1 ms1 s = rest_of env (cl_task cl) (cl_replies cl) s"
  shows "client_ok env parse c w (cl\<lparr>cl_task := t1, cl_replies := ms1\<rparr>) polls"
  using assms unfolding client_ok_def by simp

text \<open>The step at which the radio thread serves the client's question.\<close>

lemma client_ok_served:
  assumes ok: "client_ok env parse c w cl polls" and task: "cl_task cl = Asking st"
    and pass: "ask_pass env (command_of st) (passes env c w polls) = (x, a1)"
  shows "client_ok env parse c w (cl\<lparr>cl_task := Answered st x\<rparr>) (polls @ [Some (command_of st)])"
proof -
  obtain sched own later where l: "length own = length sched" "polls = weave sched own @ later"
    and run: "\<And>future. run_texts (scheduled_link env) parse (cl_texts cl) (arbiter_new env c w, sched @ future) =
        rest_of env (cl_task cl) (cl_replies cl) (passes env c w (weave sched own), future)"
    using ok unfolding client_ok_def by blast
  have a1: "a1 = passes env c w (polls @ [Some (command_of st)])"
    using ask_pass_step [of env "command_of st" "passes env c w polls"] pass by (simp add: passes_snoc)
  have "foldl (\<lambda>a p. loop_step env p a) (passes env c w (weave sched own)) later = passes env c w polls"
    by (simp add: l(2) passes_def)
  then have served: "scheduled_pass env (command_of st) (passes env c w (weave sched own), later # future) = (x, (a1, future))" for future
    using pass by (simp add: scheduled_pass_def)
  have w: "weave (sched @ [later]) (own @ [command_of st]) = polls @ [Some (command_of st)]"
    using weave_snoc [OF l(1)] l(2) by simp
  have "run_texts (scheduled_link env) parse (cl_texts cl) (arbiter_new env c w, (sched @ [later]) @ future) =
      rest_of env (Answered st x) (cl_replies cl) (passes env c w (weave (sched @ [later]) (own @ [command_of st])), future)" for future
    using run [of "later # future"] task served [of future]
    by (simp add: finish.simps [of env st] w a1 split: sum.split)
  then show ?thesis unfolding client_ok_def using l(1) w
    by (intro exI [of _ "sched @ [later]"] exI [of _ "own @ [command_of st]"] exI [of _ "[]"]) simp
qed


lemma client_ok_step:
  assumes step: "net_step env parse y z" and q: "queue_ok y" and s: "sys_ok env c w (system_of y)"
    and ok: "\<And>i. client_ok env parse c w (nt_clients y i) (nt_polls y)"
  shows "client_ok env parse c w (nt_clients z i) (nt_polls z)"
  using step
proof (cases rule: net_step.cases)
  case (refuse cl j t m)
  then show ?thesis using ok [of i] client_ok_refuse [OF ok [of j]] by simp
next
  case (request cl j t st)
  then show ?thesis using ok [of i] client_ok_request [OF ok [of j]] by simp
next
  case (send cl j st)
  then show ?thesis using ok [of i] client_ok_task [OF ok [of j], of "Asking st" "cl_replies cl"] by simp
next
  case (answer cl j st x m)
  then show ?thesis using ok [of i] client_ok_task [OF ok [of j], of Ready "cl_replies cl @ [m]"] by simp
next
  case (proceed cl j st x st1)
  then show ?thesis using ok [of i] client_ok_task [OF ok [of j], of "Sending st1" "cl_replies cl"] by simp
next
  case (take_command src cmd rest x a1)
  have a: "nt_arbiter y = passes env c w (nt_polls y)"
    using s take_command(2) by (simp add: sys_ok_def system_of_def)
  have later: "client_ok env parse c w (nt_clients y i) (nt_polls y @ [Some cmd])"
    by (rule client_ok_later [OF ok])
  show ?thesis
  proof (cases "src = Some i \<and> nt_senders y")
    case True
    obtain st where st: "cl_task (nt_clients y i) = Asking st" "cmd = command_of st"
      using queue_ok_head [OF q] take_command(3) True by metis
    then show ?thesis using client_ok_served [OF ok st(1)] take_command True a by (simp add: hand_over_def)
  next
    case False
    then show ?thesis using later take_command(1) by (auto simp: hand_over_def split: option.split task.split)
  qed
next
  case idle_pass
  then show ?thesis using client_ok_later [OF ok] by simp
qed (use ok in auto)

lemma net_run_client_ok:
  "net_run env parse (net_new env c w) y \<Longrightarrow> client_ok env parse c w (nt_clients y i) (nt_polls y)"
proof (induction arbitrary: i rule: net_run.induct)
  case start
  show ?case using client_ok_new by (simp add: net_new_def)
next
  case (next_step z x)
  then show ?case
    using client_ok_step [OF next_step.hyps(2) net_run_queue_ok [OF next_step.hyps(1)] net_sys_ok [OF next_step.hyps(1)]]
    by blast
qed

text \<open>No request is told that the radio thread is gone.\<close>

definition not_dropped :: "message \<Rightarrow> bool" where
  "not_dropped m \<longleftrightarrow> msg_payload m \<noteq> Error Radio_Thread_Gone \<and> msg_payload m \<noteq> Error Radio_Thread_Dropped"

lemma begin_dispatch_not_dropped: "begin_dispatch parse txt = Inl m \<Longrightarrow> not_dropped m"
  by (auto simp: begin_dispatch_def not_dropped_def error_reply_def reply_def event_def
      split: sum.splits request_payload.splits if_splits)

lemma scheduled_pass_answers:
  assumes "scheduled_pass env cmd s = (x, s1)" "cmd \<noteq> Cmd_Device_Arrived"
  shows "\<exists>n. answers cmd [x] n"
proof -
  obtain a a1 where "ask_pass env cmd a = (x, a1)"
    using assms(1) by (auto simp: scheduled_pass_def Let_def split: prod.splits)
  then show ?thesis using ask_pass_answers assms(2) by blast
qed

lemma resume_not_dropped: "answers (command_of st) [x] n \<Longrightarrow> resume st x = Inl m \<Longrightarrow> not_dropped m"
  by (cases st; cases x)
    (auto simp: answers_def not_dropped_def error_reply_def reply_def split: sum.splits)

lemma finish_not_dropped: "not_dropped (fst (finish env st s))"
proof (induction env st s rule: finish.induct)
  case (1 env st s)
  obtain x s1 where x: "scheduled_pass env (command_of st) s = (x, s1)" by (rule prod.exhaust)
  obtain n where n: "answers (command_of st) [x] n"
    using scheduled_pass_answers [OF x] by (cases st) auto
  show ?case using x resume_not_dropped [OF n] "1.IH" [OF x [symmetric]]
    by (auto simp: finish.simps [of env st] split: sum.split)
qed

lemma run_texts_not_dropped: "list_all not_dropped (fst (run_texts (scheduled_link env) parse txts s))"
proof (induction txts arbitrary: s)
  case (Cons t ts)
  have "not_dropped (fst (dispatch (scheduled_link env) parse t s))"
    using begin_dispatch_not_dropped [of parse t] by (simp add: dispatch_staged finish_not_dropped split: sum.split)
  then show ?case using Cons.IH by (simp add: split_beta Let_def)
qed simp

text \<open>C3: Every client has the radio to itself, as far as it can tell. In every state that any
  number of clients, hotplug notices, the shutdown and the radio thread reach together, what
  one client has been told so far is what \<open>dispatch\<close> answers to its requests taken one by
  one, on a radio thread that only it asks and that serves other commands in between; the
  commands in between and its own make up, in that order, what the thread really served, and
  once its last request is answered leave the thread in the state they really led to. At most
  one request is unanswered, and no reply says that the radio thread is gone or dropped a
  request.\<close>

theorem clients_are_served_one_by_one:
  assumes "net_run env parse (net_new env c w) y"
  shows "\<exists>sched own later s.
     nt_polls y = weave sched own @ later \<and>
     run_texts (scheduled_link env) parse (take (length (cl_replies (nt_clients y i))) (cl_texts (nt_clients y i)))
       (arbiter_new env c w, sched) = (cl_replies (nt_clients y i), s) \<and>
     length (cl_texts (nt_clients y i)) \<le> length (cl_replies (nt_clients y i)) + 1 \<and>
     list_all not_dropped (cl_replies (nt_clients y i)) \<and>
     (cl_task (nt_clients y i) = Ready \<longrightarrow>
        length (cl_texts (nt_clients y i)) = length (cl_replies (nt_clients y i)) \<and> s = (passes env c w (weave sched own), []))"
proof -
  let ?cl = "nt_clients y i"
  obtain sched own later where l: "length own = length sched" "nt_polls y = weave sched own @ later"
    and run: "\<forall>future. run_texts (scheduled_link env) parse (cl_texts ?cl) (arbiter_new env c w, sched @ future) =
        rest_of env (cl_task ?cl) (cl_replies ?cl) (passes env c w (weave sched own), future)"
    using net_run_client_ok [OF assms, of i] unfolding client_ok_def by blast
  obtain more_ms s1 where r: "run_texts (scheduled_link env) parse (cl_texts ?cl) (arbiter_new env c w, sched) = (cl_replies ?cl @ more_ms, s1)"
      "length more_ms \<le> 1"
    using run [rule_format, of "[]"] by (cases "cl_task ?cl") (auto simp: Let_def split_beta split: sum.splits)
  let ?ts = "take (length (cl_replies ?cl)) (cl_texts ?cl)"
  have ms: "fst (run_texts (scheduled_link env) parse ?ts (arbiter_new env c w, sched)) = cl_replies ?cl"
    by (simp add: run_texts_take r(1))
  then have "list_all not_dropped (cl_replies ?cl)" using run_texts_not_dropped by metis
  moreover have "length (cl_texts ?cl) \<le> length (cl_replies ?cl) + 1"
    using run_texts_length [of "scheduled_link env" parse "cl_texts ?cl" "(arbiter_new env c w, sched)"] r by simp
  moreover have "length (cl_texts ?cl) = length (cl_replies ?cl) \<and>
      run_texts (scheduled_link env) parse ?ts (arbiter_new env c w, sched) = (cl_replies ?cl, (passes env c w (weave sched own), []))"
    if "cl_task ?cl = Ready"
  proof -
    have "run_texts (scheduled_link env) parse (cl_texts ?cl) (arbiter_new env c w, sched) =
        (cl_replies ?cl, (passes env c w (weave sched own), []))"
      using run [rule_format, of "[]"] that by simp
    then show ?thesis
      using run_texts_length [of "scheduled_link env" parse "cl_texts ?cl" "(arbiter_new env c w, sched)"] by simp
  qed
  ultimately show ?thesis using l(2) ms
    by (intro exI [of _ sched] exI [of _ own] exI [of _ later]
        exI [of _ "snd (run_texts (scheduled_link env) parse ?ts (arbiter_new env c w, sched))"]) (auto simp: prod_eq_iff)
qed


section \<open>Every request can be answered\<close>

text \<open>Serving the whole queue answers every client in it.\<close>

lemma drain:
  assumes "nt_running y" "queue_ok y" "nt_senders y"
  shows "\<exists>z. net_run env parse y z \<and> nt_inbox z = [] \<and> nt_running z \<and> nt_senders z = nt_senders y \<and> queue_ok z \<and>
     (\<forall>i. (case cl_task (nt_clients y i) of
          Asking st \<Rightarrow> \<exists>x. nt_clients z i = (nt_clients y i)\<lparr>cl_task := Answered st x\<rparr>
        | t \<Rightarrow> nt_clients z i = nt_clients y i))"
  using assms
proof (induction "nt_inbox y" arbitrary: y)
  case Nil
  have idle: "(case cl_task (nt_clients y i) of Asking st \<Rightarrow> False | t \<Rightarrow> True)" for i
    using Nil(1,3,4) by (auto simp: queue_ok_def queued_def expected_def split: task.split task.splits)
  have "(case cl_task (nt_clients y i) of
          Asking st \<Rightarrow> \<exists>x. nt_clients y i = (nt_clients y i)\<lparr>cl_task := Answered st x\<rparr>
        | t \<Rightarrow> nt_clients y i = nt_clients y i)" for i
    using idle [of i] by (cases "cl_task (nt_clients y i)") auto
  then show ?case using Nil net_run.start by (intro exI [of _ y]) auto
next
  case (Cons e rest)
  obtain src cmd where e: "e = (src, cmd)" by force
  obtain x a1 where x: "ask_pass env cmd (nt_arbiter y) = (x, a1)" by force
  define y1 where "y1 = y\<lparr>nt_arbiter := a1, nt_inbox := rest,
       nt_clients := hand_over (nt_senders y) src x (nt_clients y),
       nt_polls := nt_polls y @ [Some cmd], nt_lost := nt_lost y @ unheard (nt_senders y) src x\<rparr>"
  have st: "net_step env parse y y1"
    unfolding y1_def using net_step.take_command [of y src cmd rest env x a1 parse] Cons.prems(1) Cons.hyps(2) e x by simp
  have "queue_ok y1" by (rule queue_ok_step [OF st Cons.prems(2)])
  then obtain z where z: "net_run env parse y1 z" "nt_inbox z = []" "nt_running z" "nt_senders z = nt_senders y1" "queue_ok z"
    "\<forall>i. (case cl_task (nt_clients y1 i) of
          Asking st \<Rightarrow> \<exists>x. nt_clients z i = (nt_clients y1 i)\<lparr>cl_task := Answered st x\<rparr>
        | t \<Rightarrow> nt_clients z i = nt_clients y1 i)"
    using Cons.hyps(1) [of y1] Cons.prems(1,3) by (auto simp: y1_def)
  have "case cl_task (nt_clients y i) of
          Asking st \<Rightarrow> \<exists>x. nt_clients z i = (nt_clients y i)\<lparr>cl_task := Answered st x\<rparr>
        | t \<Rightarrow> nt_clients z i = nt_clients y i" for i
    using z(6) [rule_format, of i] Cons.prems(3)
    by (auto simp: y1_def hand_over_def split: option.splits task.splits)
  moreover have "net_run env parse y z"
    using net_run_trans [OF z(1)] net_run.next_step [OF net_run.start st] by blast
  ultimately show ?case using z by (intro exI [of _ z]) (auto simp: y1_def)
qed

text \<open>From any point of a dispatch, its reply is reached.\<close>

lemma answered_ready:
  assumes run: "nt_running y" and s: "nt_senders y" and q: "queue_ok y" and t: "cl_task (nt_clients y i) = Answered st x"
    and sending: "\<And>z st1. resume st x = Inr st1 \<Longrightarrow> nt_running z \<Longrightarrow> nt_senders z \<Longrightarrow> queue_ok z \<Longrightarrow>
        nt_clients z i = (nt_clients y i)\<lparr>cl_task := Sending st1\<rparr> \<Longrightarrow>
        \<exists>z1 m. net_run env parse z z1 \<and>
          nt_clients z1 i = (nt_clients z i)\<lparr>cl_task := Ready, cl_replies := cl_replies (nt_clients z i) @ [m]\<rparr>"
  shows "\<exists>z m. net_run env parse y z \<and>
     nt_clients z i = (nt_clients y i)\<lparr>cl_task := Ready, cl_replies := cl_replies (nt_clients y i) @ [m]\<rparr>"
proof (cases "resume st x")
  case (Inl m)
  then show ?thesis using net_run.next_step [OF net_run.start net_step.answer [OF s refl t Inl]]
    by (intro exI conjI) (assumption, simp)
next
  case (Inr st1)
  note step = net_step.proceed [OF s refl t Inr, of env parse]
  obtain z1 m where "net_run env parse (set_client i ((nt_clients y i)\<lparr>cl_task := Sending st1\<rparr>) y) z1"
    "nt_clients z1 i = (nt_clients y i)\<lparr>cl_task := Ready, cl_replies := cl_replies (nt_clients y i) @ [m]\<rparr>"
    using sending [OF Inr, of "set_client i ((nt_clients y i)\<lparr>cl_task := Sending st1\<rparr>) y"] run s queue_ok_step [OF step q]
    by auto
  then show ?thesis using net_run_trans [OF _ net_run.next_step [OF net_run.start step]] by blast
qed

lemma sending_ready:
  assumes "nt_running y" "nt_senders y" "queue_ok y" "cl_task (nt_clients y i) = Sending st"
  shows "\<exists>z m. net_run env parse y z \<and>
     nt_clients z i = (nt_clients y i)\<lparr>cl_task := Ready, cl_replies := cl_replies (nt_clients y i) @ [m]\<rparr>"
  using assms
proof (induction "questions_left st" arbitrary: y st rule: less_induct)
  case less
  obtain y1 where y1: "net_run env parse y y1" "nt_inbox y1 = []" "nt_running y1" "nt_senders y1" "queue_ok y1"
    "nt_clients y1 i = nt_clients y i"
    using drain [OF less.prems(1,3,2), of env parse] less.prems(2,4) by (auto dest: spec [of _ i])
  have t1: "cl_task (nt_clients y1 i) = Sending st" using y1(6) less.prems(4) by simp
  define y2 where "y2 = set_client i ((nt_clients y1 i)\<lparr>cl_task := Asking st\<rparr>) (enqueue_command (Some i) (command_of st) y1)"
  have step: "net_step env parse y1 y2"
    unfolding y2_def by (rule net_step.send [OF y1(4) refl t1]) (simp add: y1(2) command_queue_def)
  have y2: "nt_running y2" "nt_senders y2" "queue_ok y2" "nt_clients y2 i = (nt_clients y i)\<lparr>cl_task := Asking st\<rparr>"
    using y1 queue_ok_step [OF step] by (simp_all add: y2_def)
  obtain y3 x where y3: "net_run env parse y2 y3" "nt_running y3" "nt_senders y3" "queue_ok y3"
    "nt_clients y3 i = (nt_clients y i)\<lparr>cl_task := Answered st x\<rparr>"
    using drain [OF y2(1,3,2), of env parse] y2(2,4) by (auto dest!: spec [of _ i])
  have t3: "cl_task (nt_clients y3 i) = Answered st x" using y3(5) by simp
  obtain z m where z: "net_run env parse y3 z"
    "nt_clients z i = (nt_clients y3 i)\<lparr>cl_task := Ready, cl_replies := cl_replies (nt_clients y3 i) @ [m]\<rparr>"
    using answered_ready [OF y3(2,3,4) t3, of env parse] less.hyps [OF resume_asks_less] by (metis client.select_convs(1) client.update_convs(1) client.surjective)
  have "net_run env parse y y3"
    using net_run_trans [OF y3(1) net_run.next_step [OF y1(1) step]] .
  then show ?case using net_run_trans [OF z(1)] z(2) y3(5) by auto
qed


lemma answered_is_ready:
  assumes "nt_running y" "nt_senders y" "queue_ok y" "cl_task (nt_clients y i) = Answered st x"
  shows "\<exists>z m. net_run env parse y z \<and>
     nt_clients z i = (nt_clients y i)\<lparr>cl_task := Ready, cl_replies := cl_replies (nt_clients y i) @ [m]\<rparr>"
  by (rule answered_ready [OF assms]) (rule sending_ready; simp)

lemma pending_ready:
  assumes "nt_running y" "nt_senders y" "queue_ok y" "cl_task (nt_clients y i) \<noteq> Ready"
  shows "\<exists>z m. net_run env parse y z \<and>
     nt_clients z i = (nt_clients y i)\<lparr>cl_task := Ready, cl_replies := cl_replies (nt_clients y i) @ [m]\<rparr>"
proof (cases "cl_task (nt_clients y i)")
  case (Answered st x)
  then show ?thesis by (rule answered_is_ready [OF assms(1-3)])
next
  case (Sending st)
  then show ?thesis using sending_ready [OF assms(1-3)] by simp
next
  case (Asking st)
  obtain y1 x where y1: "net_run env parse y y1" "nt_running y1" "nt_senders y1" "queue_ok y1"
    "nt_clients y1 i = (nt_clients y i)\<lparr>cl_task := Answered st x\<rparr>"
    using drain [OF assms(1,3,2), of env parse] assms(2) Asking by (auto dest!: spec [of _ i])
  have "cl_task (nt_clients y1 i) = Answered st x" using y1(5) by simp
  then obtain z m where "net_run env parse y1 z"
    "nt_clients z i = (nt_clients y1 i)\<lparr>cl_task := Ready, cl_replies := cl_replies (nt_clients y1 i) @ [m]\<rparr>"
    using answered_is_ready [OF y1(2,3,4)] by blast
  then show ?thesis using net_run_trans [OF _ y1(1)] y1(5) by auto
qed (use assms(4) in simp)

text \<open>C17: No client can be starved for good. As long as the daemon has not been shut down, from
  every state it reaches, whatever is queued and whoever else asks, the daemon can go on so
  that a client waiting for an answer gets one.\<close>

theorem every_request_can_be_answered:
  assumes "net_run env parse (net_new env c w) y" "nt_senders y" "cl_task (nt_clients y i) \<noteq> Ready"
  shows "\<exists>z m. net_run env parse y z \<and>
     nt_clients z i = (nt_clients y i)\<lparr>cl_task := Ready, cl_replies := cl_replies (nt_clients y i) @ [m]\<rparr>"
proof (rule pending_ready [OF _ assms(2) net_run_queue_ok [OF assms(1)] assms(3)])
  show "nt_running y" using net_sys_ok [OF assms(1)] assms(2) by (auto simp: sys_ok_def system_of_def)
qed

text \<open>The clients' daemon refines the command channel. Forgetting which client a command
  belongs to and what the clients wait for, every execution with clients is one of the
  channel and the thread alone, so that all that holds of those (half-duplex use, one reply
  per command in order, the end of the thread) holds with any number of clients.\<close>

theorem clients_refine_the_channel:
  assumes "net_run env parse (net_new env c w) y"
  shows "sys_run env (system_new env c w) (system_of y)"
  by (rule net_run_refines [OF assms])

end
