(* ===== verification/Accounts.thy ===== *)
theory Accounts
  imports Clients
begin

text \<open>
  The books of the whole daemon: every transmission of the radio thread is reported to the one
  client that asked for it, and no client is told of a transmission that was not made; but
  what the thread still transmits after the shutdown is reported to nobody.
\<close>

text \<open>The transmissions a client has been told of, and the one whose reply is in its channel.\<close>

definition is_transmitted_msg :: "message \<Rightarrow> bool" where
  "is_transmitted_msg m = (case msg_payload m of Transmitted d \<Rightarrow> True | _ \<Rightarrow> False)"

fun sent_one :: "outgoing \<Rightarrow> nat" where
  "sent_one (Transmit_Reply (Inr d)) = 1"
| "sent_one _ = 0"

definition told_of :: "client \<Rightarrow> nat" where
  "told_of c = length (filter is_transmitted_msg (cl_replies c))"

definition in_hand :: "client \<Rightarrow> nat" where
  "in_hand c = (case cl_task c of Answered st x \<Rightarrow> sent_one x | _ \<Rightarrow> 0)"

lemma told_of_new [simp]: "told_of client_new = 0" "in_hand client_new = 0"
  by (simp_all add: told_of_def in_hand_def client_new_def)


text \<open>The transmissions whose reply nobody waited for.\<close>

definition unreported :: "outgoing list \<Rightarrow> nat" where
  "unreported xs = sum_list (map sent_one xs)"

lemma unreported_simps [simp]: "unreported [] = 0" "unreported (xs @ ys) = unreported xs + unreported ys"
  "unreported (unheard alive src x) = (if alive \<or> src = None then 0 else sent_one x)"
  by (auto simp: unreported_def unheard_def split: option.split)






















end
