(* ===== verification/Radio_Device.thy ===== *)
theory Radio_Device
  imports Arbiter
begin

text \<open>
  \<open>radio.rs\<close>, the lazily opened \<open>Device\<close> behind the arbiter's \<open>Transceiver\<close> trait. The USB
  driver (crate \<open>seify_hackrfone\<close>) is a parameter: a record of operations on its own state
  \<open>'h\<close>. The \<open>Arc\<close> handle and the \<open>RxStream\<close> are modelled by whether the device holds one.
  The device satisfies the contract the arbiter relies on, whatever the driver does.
\<close>

section \<open>The driver\<close>

record radio_config =
  rc_lna_db :: nat
  rc_vga_db :: nat
  rc_txvga_db :: nat
  rc_amp_enable :: bool
  rc_antenna_enable :: bool
  rc_frequency_hz :: nat
  rc_sample_rate_hz :: nat
  rc_sample_rate_div :: nat

text \<open>Dropping a stream is an operation too: it is what switches the transceiver off.\<close>

record 'h driver =
  drv_open :: "('h, unit) io"
  drv_scan :: "'h \<Rightarrow> (nat \<times> nat) list \<times> 'h"
  drv_start_rx :: "radio_config \<Rightarrow> ('h, unit) io"
  drv_start_rx_stream :: "nat \<Rightarrow> ('h, unit) io"
  drv_read_sync :: "nat \<Rightarrow> ('h, byte list) io"
  drv_drop_rx :: "'h \<Rightarrow> 'h"
  drv_start_tx :: "radio_config \<Rightarrow> ('h, unit) io"
  drv_start_tx_stream :: "('h, unit) io"
  drv_write_sync :: "byte list \<Rightarrow> ('h, unit) io"
  drv_drop_tx :: "'h \<Rightarrow> 'h"
  drv_stop :: "('h, unit) io"
  drv_board_id :: "('h, string) io"
  drv_version :: "('h, string) io"
  drv_device_version :: "'h \<Rightarrow> string"
  drv_set_freq :: "nat \<Rightarrow> ('h, unit) io"

text \<open>What the radio is asked to do, recorded as it happens: a history variable, read by no
  operation, over which half-duplex use is stated.\<close>

datatype radio_event = Rx_Opened | Rx_Dropped | Tx_Started | Stop_Asked

record device_settings =
  ds_sample_rate :: nat
  ds_lna_db :: nat
  ds_vga_db :: nat
  ds_rx_amp :: bool

record 'h device =
  d_settings :: device_settings
  d_radio :: bool
  d_rx :: bool
  d_hw :: 'h
  d_history :: "radio_event list"

text \<open>Run a driver operation on the hardware under the device.\<close>

definition on_hw :: "('h, 'a) io \<Rightarrow> ('h device, 'a) io" where
  "on_hw f d = (let (r, h) = f (d_hw d) in (r, d\<lparr>d_hw := h\<rparr>))"

definition log_event :: "radio_event \<Rightarrow> 'h device \<Rightarrow> 'h device" where
  "log_event e d = d\<lparr>d_history := d_history d @ [e]\<rparr>"

definition drop_rx :: "'h driver \<Rightarrow> 'h device \<Rightarrow> 'h device" where
  "drop_rx drv d =
     (if d_rx d then log_event Rx_Dropped (d\<lparr>d_rx := False, d_hw := drv_drop_rx drv (d_hw d)\<rparr>) else d)"

section \<open>Opening the radio\<close>

definition open_radio :: "'h driver \<Rightarrow> ('h, unit) io" where
  "open_radio drv h =
     (case drv_open drv h of
        (Inr _, h1) \<Rightarrow> (Inr (), h1)
      | (Inl err, h1) \<Rightarrow>
          (case drv_scan drv h1 of
             ([], h2) \<Rightarrow> (Inl (Context ''no HackRF found'' err), h2)
           | ((bus, address) # _, h2) \<Rightarrow> (Inl (Context ''HackRF is present but could not be opened'' err), h2)))"

definition device_new :: "device_settings \<Rightarrow> 'h \<Rightarrow> error + 'h device" where
  "device_new s h =
     (case validate_rx_gains (ds_lna_db s) (ds_vga_db s) of
        Inl e \<Rightarrow> Inl e
      | Inr _ \<Rightarrow> (case validate_sample_rate (ds_sample_rate s) of
          Inl e \<Rightarrow> Inl e
        | Inr _ \<Rightarrow> Inr \<lparr>d_settings = s, d_radio = False, d_rx = False, d_hw = h, d_history = []\<rparr>))"

definition handle :: "'h driver \<Rightarrow> ('h device, unit) io" where
  "handle drv d =
     (if d_radio d then (Inr (), d)
      else and_then (on_hw (open_radio drv)) (\<lambda>_ d1. (Inr (), d1\<lparr>d_radio := True\<rparr>)) d)"

definition invalidate :: "'h driver \<Rightarrow> 'h device \<Rightarrow> 'h device" where
  "invalidate drv d = (drop_rx drv d)\<lparr>d_radio := False\<rparr>"

definition device_config :: "'h device \<Rightarrow> nat \<Rightarrow> nat \<Rightarrow> bool \<Rightarrow> radio_config" where
  "device_config d frequency txvga amp =
     \<lparr>rc_lna_db = ds_lna_db (d_settings d), rc_vga_db = ds_vga_db (d_settings d), rc_txvga_db = txvga,
      rc_amp_enable = amp, rc_antenna_enable = False, rc_frequency_hz = frequency,
      rc_sample_rate_hz = ds_sample_rate (d_settings d), rc_sample_rate_div = 1\<rparr>"

section \<open>The transceiver operations\<close>

text \<open>The new stream is opened before the old one, if any, is dropped by the assignment.\<close>

definition dev_start_rx :: "'h driver \<Rightarrow> nat \<Rightarrow> ('h device, unit) io" where
  "dev_start_rx drv frequency =
     and_then (handle drv) (\<lambda>_ d.
       case and_then (on_hw (drv_start_rx drv (device_config d frequency 0 (ds_rx_amp (d_settings d)))))
              (\<lambda>_ d1. (case on_hw (drv_start_rx_stream drv transfer_size) d1 of
                         (r, d2) \<Rightarrow> (add_context ''failed to start RX stream'' r, d2))) d of
         (Inr _, d1) \<Rightarrow> (Inr (), log_event Rx_Opened ((drop_rx drv d1)\<lparr>d_rx := True\<rparr>))
       | (Inl e, d1) \<Rightarrow> (Inl e, invalidate drv d1))"

definition dev_read :: "'h driver \<Rightarrow> ('h device, byte list) io" where
  "dev_read drv d =
     (if \<not> d_rx d then (Inl (Message ''read called with no receiver running'' []), d)
      else case on_hw (drv_read_sync drv transfer_size) d of
        (Inr chunk, d1) \<Rightarrow> (Inr chunk, d1)
      | (Inl e, d1) \<Rightarrow> (Inl (Context ''RX stream failed'' e), invalidate drv d1))"

definition dev_stop :: "'h driver \<Rightarrow> ('h device, unit) io" where
  "dev_stop drv d =
     (let d1 = drop_rx drv d in
      if \<not> d_radio d1 then (Inr (), d1)
      else case on_hw (drv_stop drv) (log_event Stop_Asked d1) of
        (Inr _, d2) \<Rightarrow> (Inr (), d2)
      | (Inl e, d2) \<Rightarrow> (Inl (Context ''failed to stop the radio'' e), invalidate drv d2))"

fun write_all :: "'h driver \<Rightarrow> byte list list \<Rightarrow> ('h device, unit) io" where
  "write_all drv [] d = (Inr (), d)"
| "write_all drv (b # bs) d = and_then (on_hw (drv_write_sync drv b)) (\<lambda>_. write_all drv bs) d"

text \<open>The closure of \<open>Device::transmit\<close>; the stream is dropped when it returns.\<close>

definition tx_session :: "'h driver \<Rightarrow> radio_config \<Rightarrow> byte list \<Rightarrow> ('h device, unit) io" where
  "tx_session drv cfg samples =
     and_then (\<lambda>d. on_hw (drv_start_tx drv cfg) (log_event Tx_Started d)) (\<lambda>_.
     and_then (\<lambda>d. case on_hw (drv_start_tx_stream drv) d of
                     (r, d1) \<Rightarrow> (add_context ''failed to start TX stream'' r, d1)) (\<lambda>_ d.
       case write_all drv (tx_transfers samples) d of
         (r, d1) \<Rightarrow> (r, d1\<lparr>d_hw := drv_drop_tx drv (d_hw d1)\<rparr>)))"

definition dev_transmit :: "'h driver \<Rightarrow> tx_params \<Rightarrow> byte list \<Rightarrow> ('h device, unit) io" where
  "dev_transmit drv p samples =
     and_then (pure_io (validate_tx_gain (tp_txvga_db p))) (\<lambda>_.
     and_then (handle drv) (\<lambda>_ d.
       case tx_session drv (device_config d (tp_frequency_hz p) (tp_txvga_db p) (tp_amp_enable p)) samples d of
         (result, d1) \<Rightarrow>
           (case on_hw (drv_stop drv) (log_event Stop_Asked d1) of
              (Inl e, d2) \<Rightarrow> (Inl (Context ''failed to stop the transmitter'' e), invalidate drv d2)
            | (Inr _, d2) \<Rightarrow> (result, if is_ok result then d2 else invalidate drv d2))))"

definition dev_describe :: "'h driver \<Rightarrow> ('h device, string) io" where
  "dev_describe drv =
     and_then (handle drv) (\<lambda>_ d.
       case on_hw (drv_board_id drv) d of
         (board, d1) \<Rightarrow>
           (case on_hw (drv_version drv) d1 of
              (firmware, d2) \<Rightarrow>
                (case (board, firmware) of
                   (Inr b, Inr f) \<Rightarrow> (Inr (''board '' @ b @ '', firmware '' @ f), d2)
                 | _ \<Rightarrow> (Inl (Message ''HackRF did not answer an identification request'' []), invalidate drv d2))))"

section \<open>The device and the host as the arbiter's world\<close>

text \<open>The clocks, the sleep and the recording file of the process, on a state of their own.\<close>

record 'e host =
  h_now :: "'e \<Rightarrow> nat \<times> 'e"
  h_now_ms :: "'e \<Rightarrow> nat \<times> 'e"
  h_sleep :: "nat \<Rightarrow> 'e \<Rightarrow> 'e"
  h_log_open :: "('e, unit) io"
  h_log_append :: "rx_frame \<Rightarrow> ('e, unit) io"

definition on_device :: "('d \<Rightarrow> 'r \<times> 'd) \<Rightarrow> 'd \<times> 'e \<Rightarrow> 'r \<times> ('d \<times> 'e)" where
  "on_device f w = (let (r, d) = f (fst w) in (r, (d, snd w)))"

definition on_host :: "('e \<Rightarrow> 'r \<times> 'e) \<Rightarrow> 'd \<times> 'e \<Rightarrow> 'r \<times> ('d \<times> 'e)" where
  "on_host f w = (let (r, e) = f (snd w) in (r, (fst w, e)))"

definition device_env :: "'h driver \<Rightarrow> 'e host \<Rightarrow> ('h device \<times> 'e) env" where
  "device_env drv host =
     \<lparr>e_start_rx = (\<lambda>f. on_device (dev_start_rx drv f)), e_read = on_device (dev_read drv),
      e_stop = on_device (dev_stop drv), e_transmit = (\<lambda>p s. on_device (dev_transmit drv p s)),
      e_describe = on_device (dev_describe drv),
      e_now = on_host (h_now host), e_now_ms = on_host (h_now_ms host),
      e_sleep = (\<lambda>n w. (fst w, h_sleep host n (snd w))),
      e_log_open = on_host (h_log_open host), e_log_append = (\<lambda>f. on_host (h_log_append host f))\<rparr>"

section \<open>Half-duplex histories\<close>

text \<open>The receive stream and the transmitter as the history leaves them; \<open>None\<close> when the
  history breaks the rule that the transmitter is started only with the receive stream
  closed and the transmitter down, and the receive stream opened only with it down.\<close>

fun duplex :: "bool \<times> bool \<Rightarrow> radio_event list \<Rightarrow> (bool \<times> bool) option" where
  "duplex s [] = Some s"
| "duplex (rx, tx) (Rx_Opened # es) = (if tx then None else duplex (True, tx) es)"
| "duplex (rx, tx) (Rx_Dropped # es) = duplex (False, tx) es"
| "duplex (rx, tx) (Tx_Started # es) = (if rx \<or> tx then None else duplex (rx, True) es)"
| "duplex (rx, tx) (Stop_Asked # es) = duplex (rx, False) es"

lemma duplex_append:
  "duplex s (xs @ ys) = (case duplex s xs of None \<Rightarrow> None | Some t \<Rightarrow> duplex t ys)"
  by (induction s xs rule: duplex.induct) auto

definition duplex_at :: "bool \<Rightarrow> bool \<Rightarrow> 'h device \<Rightarrow> bool" where
  "duplex_at rx tx d \<longleftrightarrow> duplex (False, False) (d_history d) = Some (rx, tx)"

text \<open>The device's invariant: a receive stream needs the radio, and the history is half-duplex
  with the transmitter down.\<close>

definition dev_ok :: "'h device \<Rightarrow> bool" where
  "dev_ok d \<longleftrightarrow> (d_rx d \<longrightarrow> d_radio d) \<and> duplex_at (d_rx d) False d"

lemma log_event_simps [simp]:
  "d_rx (log_event x d) = d_rx d" "d_radio (log_event x d) = d_radio d" "d_hw (log_event x d) = d_hw d"
  "d_settings (log_event x d) = d_settings d" "d_history (log_event x d) = d_history d @ [x]"
  by (simp_all add: log_event_def)

lemma duplex_at_log:
  "duplex_at rx False d \<Longrightarrow> duplex_at True False (log_event Rx_Opened d)"
  "duplex_at rx tx d \<Longrightarrow> duplex_at False tx (log_event Rx_Dropped d)"
  "duplex_at False False d \<Longrightarrow> duplex_at False True (log_event Tx_Started d)"
  "duplex_at rx tx d \<Longrightarrow> duplex_at rx False (log_event Stop_Asked d)"
  by (simp_all add: duplex_at_def duplex_append)

lemma on_hw_simps [simp]:
  "d_rx (snd (on_hw f d)) = d_rx d" "d_radio (snd (on_hw f d)) = d_radio d"
  "d_settings (snd (on_hw f d)) = d_settings d" "duplex_at rx tx (snd (on_hw f d)) = duplex_at rx tx d"
  by (simp_all add: on_hw_def split_beta duplex_at_def)

lemma on_hw_eq: "on_hw f d = (r, e) \<Longrightarrow>
  d_rx e = d_rx d \<and> d_radio e = d_radio d \<and> d_settings e = d_settings d \<and>
  (\<forall>rx tx. duplex_at rx tx e = duplex_at rx tx d)"
  by (auto simp: on_hw_def split_beta duplex_at_def)

lemma drop_rx_simps [simp]:
  "\<not> d_rx (drop_rx drv d)" "d_radio (drop_rx drv d) = d_radio d" "d_settings (drop_rx drv d) = d_settings d"
  by (simp_all add: drop_rx_def log_event_def)

lemma drop_rx_duplex: "duplex_at (d_rx d) tx d \<Longrightarrow> duplex_at False tx (drop_rx drv d)"
  by (auto simp: drop_rx_def duplex_at_def log_event_def duplex_append)

lemma invalidate_simps [simp]: "\<not> d_rx (invalidate drv d)" "\<not> d_radio (invalidate drv d)"
  by (simp_all add: invalidate_def)

lemma invalidate_ok: "duplex_at (d_rx d) False d \<Longrightarrow> dev_ok (invalidate drv d) \<and> \<not> d_rx (invalidate drv d)"
  using drop_rx_duplex [of d False drv] by (simp add: dev_ok_def) (simp add: invalidate_def duplex_at_def)

lemma handle_eq:
  assumes "handle drv d = (r, e)"
  shows "d_rx e = d_rx d" "duplex_at rx tx e = duplex_at rx tx d" "is_ok r \<Longrightarrow> d_radio e"
    "d_radio d \<Longrightarrow> r = Inr () \<and> e = d" "d_radio d \<or> \<not> is_ok r \<Longrightarrow> d_radio e = d_radio d"
  using assms on_hw_eq [of "open_radio drv" d]
  by (auto simp: handle_def and_then_def duplex_at_def split: if_splits prod.splits sum.splits)

section \<open>The device keeps the contract\<close>

lemma dev_start_rx_ok:
  assumes ok: "dev_ok d" and s: "dev_start_rx drv f d = (r, e)"
  shows "dev_ok e \<and> d_rx e = is_ok r"
proof -
  obtain r0 d0 where h: "handle drv d = (r0, d0)" by force
  note hd = handle_eq [OF h]
  show ?thesis
  proof (cases r0)
    case (Inl x)
    then have "r = Inl x" "e = d0" using s h by (simp_all add: dev_start_rx_def and_then_def)
    moreover have "\<not> d_radio d" using hd(4) Inl by auto
    ultimately show ?thesis using ok hd(1,2) hd(5) Inl by (auto simp: dev_ok_def)
  next
    case (Inr u)
    then have d0: "d_radio d0" "duplex_at (d_rx d0) False d0" using hd(1,2,3) ok by (simp_all add: dev_ok_def)
    define m where "m = and_then (on_hw (drv_start_rx drv (device_config d0 f 0 (ds_rx_amp (d_settings d0)))))
        (\<lambda>_ d1. (case on_hw (drv_start_rx_stream drv transfer_size) d1 of
           (r, d2) \<Rightarrow> (add_context ''failed to start RX stream'' r, d2))) d0"
    have m: "d_rx (snd m) = d_rx d0" "d_radio (snd m)" "duplex_at (d_rx d0) False (snd m)"
      using d0 by (auto simp: m_def and_then_def split: prod.split sum.split dest!: on_hw_eq)
    have "(r, e) = (case m of (Inr _, d1) \<Rightarrow> (Inr (), log_event Rx_Opened ((drop_rx drv d1)\<lparr>d_rx := True\<rparr>))
        | (Inl x, d1) \<Rightarrow> (Inl x, invalidate drv d1))"
      using s h Inr by (simp add: dev_start_rx_def and_then_def [of "handle drv"] m_def)
    moreover have "dev_ok (log_event Rx_Opened ((drop_rx drv (snd m))\<lparr>d_rx := True\<rparr>))"
      using m drop_rx_duplex [of "snd m" False drv] by (simp add: dev_ok_def duplex_at_def duplex_append)
    ultimately show ?thesis using invalidate_ok [of "snd m" drv] m
      by (cases m; cases "fst m") auto
  qed
qed

lemma dev_read_ok:
  assumes "dev_ok d" "d_rx d" "dev_read drv d = (r, e)"
  shows "dev_ok e \<and> d_rx e = is_ok r"
proof -
  obtain r0 d0 where h: "on_hw (drv_read_sync drv transfer_size) d = (r0, d0)" by force
  have d0: "dev_ok d0" "d_rx d0" "duplex_at (d_rx d0) False d0"
    using on_hw_eq [OF h] assms(1,2) by (simp_all add: dev_ok_def)
  then show ?thesis using assms(2,3) invalidate_ok [OF d0(3), of drv] h
    by (cases r0) (auto simp: dev_read_def)
qed

lemma dev_stop_ok:
  assumes "dev_ok d" "dev_stop drv d = (r, e)"
  shows "dev_ok e \<and> \<not> d_rx e"
proof -
  define d1 where "d1 = drop_rx drv d"
  have d1: "duplex_at False False d1" "\<not> d_rx d1"
    using drop_rx_duplex [of d False drv] assms(1) by (simp_all add: d1_def dev_ok_def)
  obtain r0 d0 where h: "on_hw (drv_stop drv) (log_event Stop_Asked d1) = (r0, d0)" by force
  have d0: "duplex_at False False d0" "\<not> d_rx d0"
    using on_hw_eq [OF h] duplex_at_log(4) [OF d1(1)] d1(2) by simp_all
  then show ?thesis using assms(2) invalidate_ok [of d0 drv] h d1
    by (cases r0) (auto simp: dev_stop_def d1_def [symmetric] Let_def dev_ok_def split: if_splits)
qed

lemma write_all_same:
  "write_all drv bs d = (r, e) \<Longrightarrow> d_rx e = d_rx d \<and> d_radio e = d_radio d \<and> duplex_at rx tx e = duplex_at rx tx d"
proof (induction bs arbitrary: d)
  case (Cons b bs)
  obtain r0 d0 where h: "on_hw (drv_write_sync drv b) d = (r0, d0)" by force
  show ?case using Cons.IH [of d0] Cons.prems h on_hw_eq [OF h]
    by (cases r0) (auto simp: and_then_def)
qed simp

lemma tx_session_same:
  assumes "tx_session drv cfg samples d = (r, e)"
  shows "d_rx e = d_rx d \<and> d_radio e = d_radio d \<and> duplex_at rx tx e = duplex_at rx tx (log_event Tx_Started d)"
proof -
  obtain r0 d0 where h0: "on_hw (drv_start_tx drv cfg) (log_event Tx_Started d) = (r0, d0)" by force
  obtain r1 d1 where h1: "on_hw (drv_start_tx_stream drv) d0 = (r1, d1)" by force
  obtain r2 d2 where h2: "write_all drv (tx_transfers samples) d1 = (r2, d2)" by force
  have "duplex_at rx tx (x\<lparr>d_hw := h\<rparr>) = duplex_at rx tx x" for x :: "'a device" and h
    by (simp add: duplex_at_def)
  then show ?thesis
    using assms on_hw_eq [OF h0] on_hw_eq [OF h1] write_all_same [OF h2, of rx tx]
    by (cases r0; cases r1) (auto simp: tx_session_def and_then_def h0 h1 h2)
qed

lemma dev_transmit_ok:
  assumes ok: "dev_ok d" "\<not> d_rx d" and t: "dev_transmit drv p samples d = (r, e)"
  shows "dev_ok e \<and> \<not> d_rx e"
proof (cases "validate_tx_gain (tp_txvga_db p)")
  case (Inl x)
  then show ?thesis using ok t by (simp add: dev_transmit_def and_then_def pure_io_def)
next
  case (Inr u)
  obtain r0 d0 where h: "handle drv d = (r0, d0)" by force
  note hd = handle_eq [OF h]
  have d0: "duplex_at False False d0" "\<not> d_rx d0" using ok hd(1,2) by (simp_all add: dev_ok_def)
  show ?thesis
  proof (cases r0)
    case (Inl x)
    then have "e = d0" using t h Inr by (simp add: dev_transmit_def and_then_def pure_io_def)
    then show ?thesis using d0 by (simp add: dev_ok_def)
  next
    case r0: (Inr v)
    obtain r1 d1 where s: "tx_session drv (device_config d0 (tp_frequency_hz p) (tp_txvga_db p) (tp_amp_enable p)) samples d0 = (r1, d1)"
      by force
    have d1: "duplex_at False True d1" "\<not> d_rx d1"
      using tx_session_same [OF s] duplex_at_log(3) [OF d0(1)] d0(2) by simp_all
    obtain r2 d2 where st: "on_hw (drv_stop drv) (log_event Stop_Asked d1) = (r2, d2)" by force
    have d2: "duplex_at False False d2" "\<not> d_rx d2"
      using on_hw_eq [OF st] duplex_at_log(4) [OF d1(1)] d1(2) by simp_all
    have "e = d2 \<or> e = invalidate drv d2"
      using t h Inr r0 s st by (cases r2) (auto simp: dev_transmit_def and_then_def pure_io_def split: if_splits)
    then show ?thesis using d2 invalidate_ok [of d2 drv] by (auto simp: dev_ok_def)
  qed
qed

lemma dev_describe_ok:
  assumes ok: "dev_ok d" "\<not> d_rx d" and t: "dev_describe drv d = (r, e)"
  shows "dev_ok e \<and> \<not> d_rx e"
proof -
  obtain r0 d0 where h: "handle drv d = (r0, d0)" by force
  note hd = handle_eq [OF h]
  obtain r1 d1 where b: "on_hw (drv_board_id drv) d0 = (r1, d1)" by force
  obtain r2 d2 where v: "on_hw (drv_version drv) d1 = (r2, d2)" by force
  have d0: "duplex_at False False d0" "\<not> d_rx d0" using ok hd(1,2) by (simp_all add: dev_ok_def)
  have d2: "duplex_at False False d2" "\<not> d_rx d2" using d0 on_hw_eq [OF b] on_hw_eq [OF v] by simp_all
  have "e = d0 \<or> e = d2 \<or> e = invalidate drv d2" using t h b v
    by (cases r0; cases r1; cases r2) (auto simp: dev_describe_def and_then_def)
  then show ?thesis using d0 d2 invalidate_ok [of d2 drv] by (auto simp: dev_ok_def)
qed

lemma on_device_eq: "on_device f w = (r, v) \<Longrightarrow> f (fst w) = (r, fst v) \<and> snd v = snd w"
  by (auto simp: on_device_def split_beta prod_eq_iff)

lemma on_host_eq: "on_host f w = (r, v) \<Longrightarrow> fst v = fst w"
  by (auto simp: on_host_def split_beta)

interpretation dev: transceiver "device_env drv host" "\<lambda>w. dev_ok (fst w)" "\<lambda>w. d_rx (fst w)"
  for drv :: "'h driver" and host :: "'e host"
proof
  fix w w1 :: "'h device \<times> 'e" and r :: "error + unit" and iq :: "error + byte list" and d :: "error + string"
    and f n p samples fr
  assume ok: "dev_ok (fst w)"
  show "dev_ok (fst w1) \<and> d_rx (fst w1) = is_ok r" if "e_start_rx (device_env drv host) f w = (r, w1)"
    using that by (auto simp: device_env_def dest!: on_device_eq dev_start_rx_ok [OF ok])
  show "dev_ok (fst w1) \<and> d_rx (fst w1) = is_ok iq" if "d_rx (fst w)" "e_read (device_env drv host) w = (iq, w1)"
    using that(2) by (auto simp: device_env_def dest!: on_device_eq dev_read_ok [OF ok that(1)])
  show "dev_ok (fst w1) \<and> \<not> d_rx (fst w1)" if "e_stop (device_env drv host) w = (r, w1)"
    using that by (auto simp: device_env_def dest!: on_device_eq dev_stop_ok [OF ok])
  show "dev_ok (fst w1) \<and> \<not> d_rx (fst w1)" if "\<not> d_rx (fst w)" "e_transmit (device_env drv host) p samples w = (r, w1)"
    using that(2) by (auto simp: device_env_def dest!: on_device_eq dev_transmit_ok [OF ok that(1)])
  show "dev_ok (fst w1) \<and> \<not> d_rx (fst w1)" if "\<not> d_rx (fst w)" "e_describe (device_env drv host) w = (d, w1)"
    using that(2) by (auto simp: device_env_def dest!: on_device_eq dev_describe_ok [OF ok that(1)])
  show "dev_ok (fst w1) \<and> d_rx (fst w1) = d_rx (fst w)" if "e_now (device_env drv host) w = (n, w1)"
    using that ok by (auto simp: device_env_def dest!: on_host_eq)
  show "dev_ok (fst w1) \<and> d_rx (fst w1) = d_rx (fst w)" if "e_now_ms (device_env drv host) w = (n, w1)"
    using that ok by (auto simp: device_env_def dest!: on_host_eq)
  show "dev_ok (fst (e_sleep (device_env drv host) n w)) \<and> d_rx (fst (e_sleep (device_env drv host) n w)) = d_rx (fst w)"
    using ok by (simp add: device_env_def)
  show "dev_ok (fst w1) \<and> d_rx (fst w1) = d_rx (fst w)" if "e_log_open (device_env drv host) w = (r, w1)"
    using that ok by (auto simp: device_env_def dest!: on_host_eq)
  show "dev_ok (fst w1) \<and> d_rx (fst w1) = d_rx (fst w)" if "e_log_append (device_env drv host) fr w = (r, w1)"
    using that ok by (auto simp: device_env_def dest!: on_host_eq)
qed

end
