(* ===== verification/Ook_Properties.thy ===== *)
theory Ook_Properties
  imports Ook_Stream
begin

text \<open>
  What the on-off-keying core (\<open>ook.rs\<close>) promises its callers: the live receiver agrees with
  the offline one and with the transmitter, its memory is bounded, its statistics are order
  statistics, and its bursts have the shape a transmit request needs.
\<close>

section \<open>The receiver hears what the transmitter sends\<close>

lemma config_ok_simps:
  "config_ok c \<Longrightarrow> rate_ok (dc_sample_rate c) \<and> 1 \<le> dc_min_edges c \<and> 1 \<le> dc_min_us c \<and>
     int (dc_min_us c) \<le> dc_gap_us c \<and> dc_gap_us c < 2 ^ 40"
  by (simp add: config_ok_def)

lemma split_bursts_lead:
  assumes "\<not> run_on r" "1 \<le> k"
  shows "split_bursts (r # rs) gap k = split_bursts rs gap k"
proof -
  have "acc_push (acc_new gap k) r = (acc_new gap k, None)"
    using assms by (simp add: acc_push_def acc_finish_def acc_new_def strip_spaces_def)
  then show ?thesis by (simp add: split_bursts_def split_beta opt_list_def)
qed

lemma split_bursts_close: "split_bursts rs gap k = snd (acc_close (acc_push_all (acc_new gap k) rs))"
  by (simp add: split_bursts_def acc_close_def split_beta)

lemma split_bursts_tail:
  assumes "\<not> run_on g" "gap \<le> run_us g" "1 \<le> k"
  shows "split_bursts (rs @ [g]) gap k = split_bursts rs gap k"
proof -
  let ?st = "acc_push_all (acc_new gap k) rs"
  have f: "acc_gap_us (fst ?st) = gap" "acc_min_edges (fst ?st) = k"
    using acc_push_all_fields [of "acc_new gap k" rs] by (simp_all add: acc_new_def)
  have "acc_push_all (acc_new gap k) (rs @ [g]) = acc_close ?st"
    unfolding acc_push_all_snoc using assms f by (intro acc_feed_gap) simp_all
  then show ?thesis using assms(3) f by (simp add: split_bursts_close acc_close_empty)
qed

lemma mark_last_transmission:
  "ts \<noteq> [] \<Longrightarrow> mark_of (last ts) \<Longrightarrow> mark_of (last (transmission_timings ts n g))"
proof (induction n)
  case (Suc n)
  moreover have "transmission_timings ts n g \<noteq> []"
    using Suc.prems by (cases n) (simp_all add: transmission_timings_0 transmission_timings_Suc)
  ultimately show ?case by (simp add: transmission_timings_Suc)
qed (simp add: transmission_timings_0)

text \<open>On the air: silence, the transmission, silence.\<close>

definition on_air :: "int \<Rightarrow> int list \<Rightarrow> nat \<Rightarrow> nat \<Rightarrow> int \<Rightarrow> nat \<Rightarrow> byte \<Rightarrow> byte list" where
  "on_air lead ts n g tail rate amp =
     synthesize [- lead] rate amp @ render_transmission ts n g rate amp @ synthesize [- tail] rate amp"

lemma on_air_synthesize:
  "on_air lead ts n g tail rate amp = synthesize (- lead # transmission_timings ts n g @ [- tail]) rate amp"
  unfolding on_air_def render_transmission_eq synthesize_append [symmetric] by simp

lemma resolvable_on_air:
  assumes d: "deliverable m gap k ts" and g: "m < g" "g < 2 ^ 40"
    and l: "int m < lead" "lead < 2 ^ 40" and t: "int m < tail" "tail < 2 ^ 40"
  shows "resolvable m (- lead # transmission_timings ts n g @ [- tail])"
proof -
  let ?tt = "transmission_timings ts n g"
  note r = resolvable_transmission [OF d g, of n]
  have "mark_of (last ?tt)" using d by (intro mark_last_transmission) (auto simp: deliverable_def)
  moreover have "\<not> mark_of (- lead)" "\<not> mark_of (- tail)" using l t by (simp_all add: mark_of_def)
  moreover have "alternating mark_of (x # xs) = (alternating mark_of xs \<and> (xs \<noteq> [] \<longrightarrow> mark_of x \<noteq> mark_of (hd xs)))"
    for x and xs :: "int list" by (cases xs) auto
  ultimately have "alternating mark_of (- lead # ?tt @ [- tail])"
    using r by (simp add: resolvable_def alternating_append)
  then show ?thesis using r l t by (auto simp: resolvable_def)
qed

lemma on_air_bursts:
  assumes c: "rate_ok rate" "1 \<le> k" and thr: "0 < thr" "thr \<le> amp_level amp"
    and d: "deliverable m gap k ts" and g: "gap \<le> int g" "0 < g" "m < g" "g < 2 ^ 40"
    and l: "int m < lead" "lead < 2 ^ 40" and t: "int m < tail" "gap \<le> tail" "tail < 2 ^ 40"
  shows "split_bursts (runs (envelope (on_air lead ts n g tail rate amp)) thr rate m) gap k = replicate (n + 1) ts"
proof -
  let ?tt = "transmission_timings ts n g"
  have "runs (envelope (on_air lead ts n g tail rate amp)) thr rate m =
      map timing_run (- lead # ?tt @ [- tail])"
    unfolding on_air_synthesize
    by (rule runs_synthesize [OF c(1) thr resolvable_on_air [OF d g(3,4) l t(1,3)]])
  also have "split_bursts \<dots> gap k = split_bursts (map timing_run ?tt) gap k"
    using c(2) l t split_bursts_tail [of "timing_run (- tail)" gap k "timing_run (- lead) # map timing_run ?tt"]
    by (simp add: split_bursts_lead timing_run_def)
  also have "\<dots> = replicate (n + 1) ts" by (rule split_transmission [OF d g(1,2)])
  finally show ?thesis .
qed

text \<open>C2: The live receiver and the offline decoder are the same function. A detector that
  has just learnt its threshold from one window of samples delivers, for a further window
  that starts and ends in silence, exactly the bursts \<open>split_bursts\<close> cuts out of \<open>runs\<close> over
  the same envelope at the learnt threshold, although it sees the samples one at a time,
  keeps only one run of lookahead and acts on a gap before the gap is over.\<close>

lemma streaming_equals_offline:
  assumes "config_ok c" and "even (length learn)"
    and "length (envelope learn) = dc_window_samples c" "1 \<le> dc_window_samples c"
    and "thr = retuned_threshold c (add_iq hist_new learn)"
    and "envelope iq = xs @ ys" "xs = [] \<or> hd xs < thr" "\<forall>m \<in> set ys. m < thr"
    and "det_gap_samples (detector_new c) \<le> length ys"
    and "length (envelope iq) \<le> dc_window_samples c" "length (envelope iq) < 2 ^ 50"
  shows "map burst_timings (snd (det_push (detector_new c) (learn @ iq))) =
     split_bursts (runs (envelope iq) thr (dc_sample_rate c) (dc_min_us c)) (dc_gap_us c) (dc_min_edges c)"
  using armed_stream [OF assms(1,6-11)] det_first_window [OF assms(3,4)] det_push_append [OF assms(2)] assms(5)
  by (simp add: split_beta)

lemma armed_hears_air:
  assumes c: "config_ok c" and thr: "0 < thr" "thr \<le> amp_level amp"
    and d: "deliverable (dc_min_us c) (dc_gap_us c) (dc_min_edges c) ts"
    and g: "dc_gap_us c \<le> int g" "dc_min_us c < g" "g < 2 ^ 40"
    and l: "int (dc_min_us c) < lead" "lead < 2 ^ 40"
    and t: "dc_gap_us c < tail" "tail < 2 ^ 40"
    and w: "length (envelope (on_air lead ts n g tail (dc_sample_rate c) amp)) \<le> dc_window_samples c"
      "length (envelope (on_air lead ts n g tail (dc_sample_rate c) amp)) < 2 ^ 50"
  shows "map burst_timings (snd (det_push (armed c thr) (on_air lead ts n g tail (dc_sample_rate c) amp)))
     = replicate (n + 1) ts"
proof -
  let ?r = "dc_sample_rate c" and ?tt = "transmission_timings ts n g"
  let ?iq = "on_air lead ts n g tail ?r amp"
  note ck = config_ok_simps [OF c]
  define xs where "xs = envelope (synthesize (- lead # ?tt) ?r amp)"
  define ys where "ys = envelope (synthesize [- tail] ?r amp)"
  have mag: "envelope ?iq = xs @ ys"
    unfolding on_air_synthesize xs_def ys_def append_Cons [symmetric] synthesize_append
    by (rule envelope_append) simp
  have "xs = replicate (sample_count (- lead) ?r) 0 @ envelope (synthesize ?tt ?r amp)"
    unfolding xs_def envelope_synthesize_Cons using l by simp
  moreover have "1 \<le> sample_count (- lead) ?r"
    using duration_roundtrip(1) [of ?r "- lead"] ck l by simp
  ultimately have x: "hd xs < thr" using thr by (cases "sample_count (- lead) ?r") auto
  have y: "ys = replicate (sample_count (- tail) ?r) 0"
    unfolding ys_def envelope_synthesize_Cons using t ck by (simp add: synthesize_def envelope_def)
  define gg where "gg = nat (dc_gap_us c)"
  have gg: "dc_gap_us c = int gg" using ck by (simp add: gg_def)
  have "us_to_samples (f64_of_nat gg) (us_per_sample ?r) \<le> sample_count (- tail) ?r"
    using ck t gg by (intro sample_count_ge_min) simp_all
  then have "det_gap_samples (detector_new c) \<le> length ys"
    by (simp add: y detector_new_def Let_def gg f64_of_int_def f64_of_nat_def)
  then have "map burst_timings (snd (det_push (armed c thr) ?iq)) =
      split_bursts (runs (envelope ?iq) thr ?r (dc_min_us c)) (dc_gap_us c) (dc_min_edges c)"
    using x y thr w by (intro armed_stream [OF c mag]) auto
  also have "\<dots> = replicate (n + 1) ts"
    using ck thr d g l t by (intro on_air_bursts) simp_all
  finally show ?thesis .
qed

text \<open>C12: What \<open>render_transmission\<close> puts on the air, the live receiver delivers. A detector
  armed with a threshold no higher than the carrier hears silence, a repeated frame and more
  silence, and delivers the frame once per copy, to the microsecond, although both directions
  round through doubles.\<close>

lemma live_reception:
  assumes c: "config_ok c" and thr: "0 < thr" "thr \<le> amp_level amp"
    and d: "deliverable (dc_min_us c) (dc_gap_us c) (dc_min_edges c) ts"
    and g: "dc_gap_us c \<le> int g" "dc_min_us c < g" "g < 2 ^ 40"
    and l: "int (dc_min_us c) < lead" "lead < 2 ^ 40"
    and t: "dc_gap_us c < tail" "tail < 2 ^ 40"
    and w: "length (envelope (on_air lead ts n g tail (dc_sample_rate c) amp)) \<le> dc_window_samples c"
      "length (envelope (on_air lead ts n g tail (dc_sample_rate c) amp)) < 2 ^ 50"
  shows "map burst_timings (snd (det_push (armed c thr) (on_air lead ts n g tail (dc_sample_rate c) amp)))
     = replicate (n + 1) ts"
  using assms by (rule armed_hears_air)

text \<open>C38: A transmission rendered to baseband and decoded offline (the path of a capture) comes
  back as the frame, once per copy: \<open>runs\<close> and \<open>split_bursts\<close> invert \<open>render_transmission\<close>.\<close>

lemma render_runs_roundtrip:
  assumes "rate_ok rate" and "0 < thr" "thr \<le> amp_level amp" and "deliverable m gap k ts"
    and "gap \<le> int g" "m < g" "g < 2 ^ 40"
  shows "split_bursts (runs (envelope (render_transmission ts n g rate amp)) thr rate m) gap k = replicate (n + 1) ts"
  unfolding render_transmission_eq
  using runs_synthesize [OF assms(1-3)] resolvable_transmission [OF assms(4,6,7)]
    split_transmission [OF assms(4,5)] assms(6) by simp

section \<open>Runs and bursts\<close>

text \<open>Slicing loses no time. The runs alternate mark and space, and their durations add up
  to the durations of the raw, undeglitched segments of the samples: a dropped glitch is
  absorbed by its neighbour, never discarded.\<close>

lemma runs_alternate_and_conserve:
  "alternating run_on (runs mag thr rate min_us) \<and>
   sum_list (map run_us (runs mag thr rate min_us)) =
     sum_list (map (\<lambda>(on, n). run_duration n (us_per_sample rate)) (raw_segments thr mag))"
proof -
  have "alternating run_on (runs mag thr rate min_us)"
    by (simp add: runs_def runs_loop_alternating Let_def split: list.split)
  then show ?thesis by (simp add: runs_fold sum_fold_push_run)
qed

lemma runs_loop_out_ok:
  assumes "slicing_ok p"
  shows "out_ok out \<Longrightarrow> out = [] \<longrightarrow> \<not> cur \<Longrightarrow> len + length ms < sl_max_len p \<Longrightarrow>
     out_ok (runs_loop ms thr (sl_min_samples p) (sl_ups p) out cur len)"
proof (induction ms arbitrary: out cur len)
  case Nil
  then show ?case using out_ok_push [OF assms] by simp
next
  case (Cons m ms)
  have "push_run out cur len (sl_min_samples p) (sl_ups p) \<noteq> []" by (simp add: push_run_def Let_def)
  then show ?case using Cons out_ok_push [OF assms, of out len cur] by (auto simp: Let_def)
qed

lemma runs_out_ok:
  assumes "rate_ok rate" "1 \<le> min_us" "min_us < 2 ^ 40" "length mag < 2 ^ 50" "mag = [] \<or> hd mag < thr"
  shows "out_ok (runs mag thr rate min_us)"
proof -
  define c where "c = (detector_config_new rate)\<lparr>dc_min_us := min_us, dc_gap_us := int min_us\<rparr>"
  have "config_ok c" using assms by (simp add: config_ok_def c_def detector_config_new_def)
  then have p: "slicing_ok (slicing_of c)" by (rule slicing_of_ok)
  have "out_ok []" by (simp add: out_ok_def)
  then show ?thesis using assms(4,5) runs_loop_out_ok [OF p, of "[]" False 0 mag thr]
    by (cases mag) (auto simp: runs_def slicing_of_def detector_new_def Let_def c_def detector_config_new_def
        simp del: runs_loop.simps)
qed

text \<open>The shape a transmit request needs: a burst starts and ends on a mark, alternates, has no zero
  and no space as long as the gap, and between \<open>k\<close> and 4096 entries.\<close>

definition well_shaped :: "int \<Rightarrow> nat \<Rightarrow> int list \<Rightarrow> bool" where
  "well_shaped gap k b \<longleftrightarrow>
     b \<noteq> [] \<and> mark_of (hd b) \<and> mark_of (last b) \<and> alternating mark_of b \<and>
     (\<forall>t \<in> set b. t \<noteq> 0 \<and> (t < 0 \<longrightarrow> - t < gap)) \<and> k \<le> length b \<and> length b \<le> 4096"

lemma burst_ok_shaped: "burst_ok (acc_new gap k) b \<Longrightarrow> 1 \<le> k \<Longrightarrow> well_shaped gap k b"
  by (cases b) (auto simp: well_shaped_def burst_ok_def timings_wf_def acc_new_def max_burst_edges_def)

text \<open>What the relation says of the bursts delivered so far: they come from an accumulator that was
  fed runs.\<close>

lemma fed_bursts:
  assumes "out_ok out"
  shows "b \<in> set (snd (fed p out)) \<Longrightarrow> burst_ok (acc_new (sl_gap_us p) (sl_min_edges p)) b"
    and "b \<in> set (snd (acc_close (fed p out))) \<Longrightarrow> burst_ok (acc_new (sl_gap_us p) (sl_min_edges p)) b"
proof -
  let ?a = "acc_new (sl_gap_us p) (sl_min_edges p)"
  have "out \<noteq> [] \<longrightarrow> acc_accepts ?a (hd out)" using assms by (auto simp: out_ok_def acc_accepts_def acc_new_def)
  then have f: "acc_wf (fst (fed p out))" "acc_same_limits ?a (fst (fed p out))" "\<forall>b \<in> set (snd (fed p out)). burst_ok ?a b"
    using acc_push_all_bursts [of out ?a] assms out_ok_runs_pos by (auto simp: out_ok_def)
  show "b \<in> set (snd (fed p out)) \<Longrightarrow> burst_ok ?a b" using f(3) by blast
  have "burst_ok ?a b" if "snd (acc_finish (fst (fed p out))) = Some b"
    using acc_finish_burst(2) [OF f(1) that] burst_ok_limits [OF f(2)] by blast
  then show "b \<in> set (snd (acc_close (fed p out))) \<Longrightarrow> burst_ok ?a b"
    using f(3) by (auto simp: acc_close_def split_beta opt_list_def split: option.splits)
qed

lemma det_rel_bursts:
  assumes "det_rel p (d, bs) out cur len" "b \<in> set bs"
  shows "burst_ok (acc_new (sl_gap_us p) (sl_min_edges p)) (burst_timings b)"
proof -
  have ok: "out_ok out" using assms(1) by (simp add: det_rel_def)
  have b: "burst_timings b \<in> set (timings_of bs)" using assms(2) by simp
  have "out_ok (before_gap out)"
  proof (cases out rule: rev_cases)
    case (snoc xs r)
    then show ?thesis using ok out_ok_prefix by (auto simp: before_gap_def)
  qed (use ok in \<open>simp add: before_gap_def\<close>)
  note gap = fed_bursts(2) [OF this]
  have "rel_gap p out (det_pending d) (det_accumulator d, timings_of bs) \<or>
      rel_open p out (det_pending d) (det_accumulator d, timings_of bs)"
    using assms(1) by (auto simp: det_rel_def split: if_splits)
  then show ?thesis
  proof
    assume "rel_gap p out (det_pending d) (det_accumulator d, timings_of bs)"
    then show ?thesis using gap b by (metis rel_gap_def snd_conv)
  next
    assume "rel_open p out (det_pending d) (det_accumulator d, timings_of bs)"
    then obtain xs where "out_ok xs" "(det_accumulator d, timings_of bs) = fed p xs \<or>
        (det_accumulator d, timings_of bs) = acc_close (fed p xs)"
      using ok out_ok_prefix unfolding rel_open_def by blast
    then show ?thesis using fed_bursts [of xs] b by (metis snd_conv)
  qed
qed

text \<open>Any sample keeps the relation, with whatever threshold is in force, or none yet.\<close>

lemma det_step_rel:
  assumes p: "slicing_ok p" and rel: "det_rel p (d, bs) out cur len" and len: "len < sl_max_len p"
  shows "\<exists>out1 cur1 len1. det_rel p (det_step (d, bs) m) out1 cur1 len1 \<and> len1 \<le> len + 1"
proof -
  define d1 where "d1 = d\<lparr>det_histogram := add_magnitude (det_histogram d) m, det_window_seen := det_window_seen d + 1\<rparr>"
  define st where "st = (case det_threshold d1 of None \<Rightarrow> (d1, bs) | Some thr \<Rightarrow> push_sample d1 m thr bs)"
  have r1: "det_rel p (d1, bs) out cur len" using det_rel_ignores(1) [OF rel] by (simp add: d1_def)
  have "\<exists>out1 cur1 len1. det_rel p st out1 cur1 len1 \<and> len1 \<le> len + 1"
  proof (cases "det_threshold d1")
    case None
    then show ?thesis using r1 by (intro exI [of _ out] exI [of _ cur] exI [of _ len]) (simp add: st_def)
  next
    case (Some thr)
    then show ?thesis using push_sample_rel [OF p r1 len, of thr m] by (auto simp: st_def split: if_splits)
  qed
  then obtain out1 cur1 len1 where r: "det_rel p st out1 cur1 len1" "len1 \<le> len + 1" by blast
  have "det_step (d, bs) m =
      (if dc_window_samples (det_config (fst st)) \<le> det_window_seen (fst st) then retune (fst st) else fst st, snd st)"
    by (cases "det_threshold d") (simp_all add: st_def d1_def det_step_def Let_def split_beta)
  moreover have "det_rel p (if n then retune (fst st) else fst st, snd st) out1 cur1 len1" for n
    using r(1) det_rel_retune [of p "fst st" "snd st" out1 cur1 len1] by simp
  ultimately have "det_rel p (det_step (d, bs) m) out1 cur1 len1" by simp
  then show ?thesis using r(2) by blast
qed

lemma det_fold_related:
  assumes "slicing_ok p" "det_rel p st out cur len" "len + length ms \<le> sl_max_len p"
  shows "\<exists>out1 cur1 len1. det_rel p (foldl det_step st ms) out1 cur1 len1"
  using assms(2,3)
proof (induction ms arbitrary: st out cur len)
  case (Cons m ms)
  obtain d bs where st: "st = (d, bs)" by force
  obtain out1 cur1 len1 where "det_rel p (det_step st m) out1 cur1 len1" "len1 \<le> len + 1"
    using det_step_rel [OF assms(1), of d bs out cur len m] Cons.prems st by auto
  then show ?case using Cons.IH [of "det_step st m" out1 cur1 len1] Cons.prems(2) by simp
qed auto

lemma det_push_shaped:
  assumes "config_ok c" "length (envelope iq) < 2 ^ 50" "b \<in> set (snd (det_push (detector_new c) iq))"
  shows "burst_ok (acc_new (dc_gap_us c) (dc_min_edges c)) (burst_timings b)"
proof -
  let ?p = "slicing_of c"
  have p: "slicing_ok ?p" by (rule slicing_of_ok [OF assms(1)])
  have "detector_new c = (armed c 0)\<lparr>det_threshold := None, det_histogram := det_histogram (detector_new c),
      det_window_seen := det_window_seen (detector_new c)\<rparr>"
    by (simp add: armed_def detector_new_def Let_def)
  then have "det_rel ?p (detector_new c, []) [] False 0"
    using det_rel_ignores(2) [OF armed_rel [OF p, of 0]] by metis
  moreover have "0 + length (envelope iq) \<le> sl_max_len ?p" using assms(2) by (simp add: slicing_of_def)
  ultimately obtain out cur len where "det_rel ?p (foldl det_step (detector_new c, []) (envelope iq)) out cur len"
    using det_fold_related [OF p] by blast
  then have "det_rel ?p (fst (det_push (detector_new c) iq), snd (det_push (detector_new c) iq)) out cur len"
    by (simp add: det_push_envelope)
  from det_rel_bursts [OF this assms(3)] show ?thesis by (simp add: slicing_of_def)
qed

text \<open>C34: The shape of a burst, live and offline. With any sane configuration, which asks for at
  least one edge, every burst that a new detector delivers, whatever bytes arrive and
  however its threshold moves, starts and ends on a mark, alternates mark and space with no
  zero entry, holds no space as long as the gap, and has between \<open>min_edges\<close> and 4096 edges.
  So has every burst the offline decoder cuts, at any threshold, from samples that
  start in silence.\<close>

lemma burst_shape:
  assumes "config_ok c" and "length (envelope iq) < 2 ^ 50" and "length mag < 2 ^ 50" "hd mag < thr"
  shows "(\<forall>b \<in> set (snd (det_push (detector_new c) iq)).
       well_shaped (dc_gap_us c) (dc_min_edges c) (burst_timings b)) \<and>
     (\<forall>b \<in> set (split_bursts (runs mag thr (dc_sample_rate c) (dc_min_us c)) (dc_gap_us c) (dc_min_edges c)).
       well_shaped (dc_gap_us c) (dc_min_edges c) b)"
proof (intro conjI ballI)
  have k: "1 \<le> dc_min_edges c" "dc_min_us c < 2 ^ 40" using assms(1) by (auto simp: config_ok_def)
  fix b
  show "well_shaped (dc_gap_us c) (dc_min_edges c) (burst_timings b)" if "b \<in> set (snd (det_push (detector_new c) iq))"
    using burst_ok_shaped [OF det_push_shaped [OF assms(1,2) that] k(1)] .
next
  have k: "1 \<le> dc_min_edges c" "dc_min_us c < 2 ^ 40" using assms(1) by (auto simp: config_ok_def)
  fix b
  assume b: "b \<in> set (split_bursts (runs mag thr (dc_sample_rate c) (dc_min_us c)) (dc_gap_us c) (dc_min_edges c))"
  have "out_ok (runs mag thr (dc_sample_rate c) (dc_min_us c))"
    using assms k(2) by (intro runs_out_ok) (auto simp: config_ok_def)
  then have "burst_ok (acc_new (dc_gap_us c) (dc_min_edges c)) b"
    using b by (intro split_bursts_ok) (auto simp: out_ok_def out_ok_runs_pos)
  then show "well_shaped (dc_gap_us c) (dc_min_edges c) b" by (rule burst_ok_shaped [OF _ k(1)])
qed

text \<open>C33: The accumulator against its specification: cut the runs at every gap, drop the
  silence around each piece, keep the pieces with enough edges. The incremental code computes
  that, as long as no piece overflows the 4096-edge bound.\<close>

lemma split_bursts_specification:
  assumes "\<forall>p \<in> set (cut_at_gaps gap rs). length (piece_body p) \<le> max_burst_edges"
  shows "split_bursts rs gap k =
     filter (\<lambda>b. k \<le> length b)
       (map (\<lambda>p. strip_spaces (map run_signed (piece_body p))) (cut_at_gaps gap rs))"
  using split_bursts_eq_spec [OF assms] by (simp add: burst_spec_def)

section \<open>The detector's memory\<close>

definition acc_small :: "nat \<Rightarrow> burst_accumulator \<Rightarrow> bool" where
  "acc_small k a \<longleftrightarrow> length (acc_current a) \<le> max_burst_edges \<and> acc_max_edges a = max_burst_edges \<and> acc_min_edges a = k"

definition burst_sized :: "nat \<Rightarrow> burst \<Rightarrow> bool" where
  "burst_sized k b \<longleftrightarrow> k \<le> length (burst_timings b) \<and> length (burst_timings b) \<le> max_burst_edges \<and> burst_peak b \<le> 256"

lemma acc_finish_small:
  assumes "acc_small k a"
  shows "acc_small k (fst (acc_finish a))"
    and "snd (acc_finish a) = Some b \<Longrightarrow> k \<le> length b \<and> length b \<le> max_burst_edges"
  using assms strip_spaces_length [of "acc_current a"]
  by (auto simp: acc_finish_def acc_small_def Let_def split: if_splits)

lemma acc_push_small:
  assumes "acc_small k a"
  shows "acc_small k (fst (acc_push a r))"
    and "snd (acc_push a r) = Some b \<Longrightarrow> k \<le> length b \<and> length b \<le> max_burst_edges"
  using assms acc_finish_small [OF assms]
  by (auto simp: acc_push_def Let_def acc_small_def split: if_splits)

definition st_small :: "nat \<Rightarrow> detector \<times> burst list \<Rightarrow> bool" where
  "st_small k st \<longleftrightarrow>
     acc_small k (det_accumulator (fst st)) \<and> length (hist_counts (det_histogram (fst st))) = mag_levels \<and>
     det_burst_peak (fst st) \<le> 256 \<and> (\<forall>b \<in> set (snd st). burst_sized k b)"

lemma deliver_small:
  assumes "st_small k (d, bs)" "\<And>ts. res = Some ts \<Longrightarrow> k \<le> length ts \<and> length ts \<le> max_burst_edges"
  shows "st_small k (deliver d res bs)"
  using assms by (cases res) (auto simp: deliver_def take_burst_def st_small_def burst_sized_def)

lemma accumulate_small:
  assumes "st_small k (d, bs)" shows "st_small k (accumulate d r bs)"
proof -
  have "acc_small k (det_accumulator d)" using assms by (auto simp: st_small_def)
  from acc_push_small [OF this] show ?thesis
    using assms unfolding accumulate_def split_beta Let_def
    by (intro deliver_small) (auto simp: st_small_def)
qed

lemma emit_run_small:
  assumes "st_small k (d, bs)" shows "st_small k (emit_run d r bs)"
proof -
  have "st_small k (d\<lparr>det_pending := x\<rparr>, bs)" for x using assms by (simp add: st_small_def)
  then show ?thesis unfolding emit_run_def Let_def
    by (auto split: option.split intro: accumulate_small)
qed

lemma flush_gap_small:
  assumes "st_small k (d, bs)" shows "st_small k (flush_gap d bs)"
proof -
  define s where "s = (case det_pending d of None \<Rightarrow> (d, bs) | Some p \<Rightarrow> accumulate (d\<lparr>det_pending := None\<rparr>) p bs)"
  have "st_small k (d\<lparr>det_pending := None\<rparr>, bs)" using assms by (simp add: st_small_def)
  then have s: "st_small k s" using assms by (auto simp: s_def split: option.split intro: accumulate_small)
  then have "acc_small k (det_accumulator (fst s))" by (auto simp: st_small_def)
  from acc_finish_small [OF this] show ?thesis
    using s unfolding flush_gap_def split_beta Let_def s_def [symmetric]
    by (intro deliver_small) (auto simp: st_small_def)
qed

lemma push_sample_small:
  assumes "st_small k (d, bs)" "m \<le> 256" shows "st_small k (push_sample d m thr bs)"
proof -
  define s where "s = emit_run d (finished_run d) bs"
  have s: "st_small k s" using assms by (simp add: s_def emit_run_small)
  have "st_small k (e\<lparr>det_run_samples := n\<rparr>, b)" "st_small k (e\<lparr>det_on := x, det_run_samples := n\<rparr>, b)"
    "st_small k (e\<lparr>det_run_samples := n, det_burst_peak := max (det_burst_peak e) m\<rparr>, b)"
    "st_small k (e\<lparr>det_on := x, det_run_samples := n, det_burst_peak := max (det_burst_peak e) m\<rparr>, b)"
    if "st_small k (e, b)" for e b n x
    using that assms(2) by (auto simp: st_small_def)
  note upd = this
  show ?thesis unfolding push_sample_def split_beta Let_def s_def [symmetric]
    using upd [OF assms(1)] upd [of "fst s" "snd s"] s by (auto intro: flush_gap_small)
qed

lemma det_step_small:
  assumes "st_small k st" "m \<le> 256" shows "st_small k (det_step st m)"
proof -
  obtain d bs where st: "st = (d, bs)" by force
  define d1 where "d1 = d\<lparr>det_histogram := add_magnitude (det_histogram d) m, det_window_seen := det_window_seen d + 1\<rparr>"
  have d1: "st_small k (d1, bs)" using assms(1) by (simp add: st d1_def st_small_def add_magnitude_def Let_def)
  define s where "s = (case det_threshold d1 of None \<Rightarrow> (d1, bs) | Some t \<Rightarrow> push_sample d1 m t bs)"
  have s: "st_small k s" using d1 assms(2) by (auto simp: s_def intro: push_sample_small split: option.split)
  then have "st_small k (retune (fst s), snd s)"
    by (simp add: st_small_def retune_def hist_new_def)
  then show ?thesis using s unfolding st det_step_def split_beta Let_def fst_conv snd_conv
    unfolding d1_def [symmetric] s_def [symmetric] by simp
qed

lemma det_push_small: "st_small (dc_min_edges c) (det_push (detector_new c) iq)"
proof -
  have "st_small (dc_min_edges c) (foldl det_step st ms)"
    if "st_small (dc_min_edges c) st" "\<forall>m \<in> set ms. m \<le> 256" for st ms
    using that by (induction ms arbitrary: st) (simp_all add: det_step_small)
  moreover have "st_small (dc_min_edges c) (detector_new c, [])"
    by (simp add: st_small_def acc_small_def detector_new_def acc_new_def Let_def hist_new_def)
  ultimately show ?thesis using envelope_le by (auto simp: det_push_envelope)
qed

lemma split_bursts_sized: "b \<in> set (split_bursts rs gap k) \<Longrightarrow> k \<le> length b \<and> length b \<le> max_burst_edges"
proof -
  have p: "acc_small k a \<Longrightarrow> acc_small k (fst (acc_push_all a rs)) \<and>
      (\<forall>b \<in> set (snd (acc_push_all a rs)). k \<le> length b \<and> length b \<le> max_burst_edges)" for a
  proof (induction rs arbitrary: a)
    case (Cons r rs)
    then show ?case using acc_push_small [OF Cons.prems, where r = r]
      by (cases "snd (acc_push a r)") (auto simp: split_beta opt_list_def)
  qed simp
  have n: "acc_small k (acc_new gap k)" by (simp add: acc_small_def acc_new_def)
  show "b \<in> set (split_bursts rs gap k) \<Longrightarrow> k \<le> length b \<and> length b \<le> max_burst_edges"
    using p [OF n] acc_finish_small(2) [of k "fst (acc_push_all (acc_new gap k) rs)"]
    by (auto simp: split_bursts_def split_beta opt_list_def split: option.splits)
qed

text \<open>C35: The detector's memory is bounded whatever is on the air: after any stream of bytes the
  burst under construction has at most 4096 edges and the histogram its 258 counters, and
  every burst delivered has between \<open>min_edges\<close> and 4096 edges and a peak a sample can have.\<close>

lemma detector_bounded:
  "length (acc_current (det_accumulator (fst (det_push (detector_new c) iq)))) \<le> 4096 \<and>
   length (hist_counts (det_histogram (fst (det_push (detector_new c) iq)))) = 258 \<and>
   (\<forall>b \<in> set (snd (det_push (detector_new c) iq)).
      dc_min_edges c \<le> length (burst_timings b) \<and> length (burst_timings b) \<le> 4096 \<and> burst_peak b \<le> 256)"
  using det_push_small [of c iq]
  by (auto simp: st_small_def acc_small_def burst_sized_def max_burst_edges_def mag_levels_def)

section \<open>Silence\<close>

text \<open>A detector that has only heard silence: no run finished, nothing accumulated.\<close>

definition det_idle :: "detector \<Rightarrow> bool" where
  "det_idle d \<longleftrightarrow>
     \<not> det_on d \<and> det_pending d = None \<and> acc_current (det_accumulator d) = [] \<and>
     1 \<le> acc_min_edges (det_accumulator d) \<and> (\<forall>t. det_threshold d = Some t \<longrightarrow> 1 \<le> t)"

lemma retuned_threshold_pos [simp]: "Suc 0 \<le> retuned_threshold c h"
  by (simp add: retuned_threshold_def Let_def)

lemma det_idle_step: "det_idle d \<Longrightarrow> det_idle (fst (det_step (d, bs) 0)) \<and> snd (det_step (d, bs) 0) = bs"
  by (cases "det_threshold d")
    (auto simp: det_step_def det_idle_def push_sample_def flush_gap_def acc_finish_def deliver_def
      strip_spaces_def retune_def Let_def)

text \<open>Silence is never sliced into marks. However long a detector listens to samples of zero
  magnitude, through any number of windows and threshold changes, it delivers no burst: the
  floor of one under every learnt threshold keeps a dead channel from reading as all mark.\<close>

lemma silence_delivers_nothing:
  assumes "1 \<le> dc_min_edges c" and "\<forall>m \<in> set (envelope iq). m = 0"
  shows "snd (det_push (detector_new c) iq) = []"
proof -
  have "det_idle (fst (foldl det_step (d, bs) ms)) \<and> snd (foldl det_step (d, bs) ms) = bs"
    if "det_idle d" "\<forall>m \<in> set ms. m = 0" for d bs ms
    using that
  proof (induction ms arbitrary: d bs)
    case (Cons m ms)
    obtain e b where e: "det_step (d, bs) 0 = (e, b)" by force
    have s: "det_idle e" "b = bs" using det_idle_step [OF Cons.prems(1), of bs] e by simp_all
    have "m = 0" "\<forall>m \<in> set ms. m = 0" using Cons.prems(2) by simp_all
    then show ?case using Cons.IH [OF s(1), of bs] s(2) e by simp
  qed simp
  moreover have "det_idle (detector_new c)"
    using assms(1) by (simp add: det_idle_def detector_new_def acc_new_def Let_def)
  ultimately show ?thesis using assms(2) by (simp add: det_push_envelope)
qed

section \<open>Statistics\<close>

text \<open>The percentile scan reads an order statistic: over a window, the histogram's p-th
  percentile is the element of that rank in the sorted window of magnitudes, the rank being
  the rounded-up product the code computes in doubles.\<close>

lemma percentile_is_order_statistic:
  assumes "1 \<le> quantile_rank (length (envelope iq)) p" "quantile_rank (length (envelope iq)) p \<le> length (envelope iq)"
  shows "hist_percentile (add_iq hist_new iq) p =
     sort (envelope iq) ! (quantile_rank (length (envelope iq)) p - 1)"
proof -
  have "clamp_mag m = m" if "m \<in> set (envelope iq)" for m
    using envelope_le [OF that] by (simp add: clamp_mag_def mag_levels_def)
  then have "map clamp_mag (envelope iq) = envelope iq" by (simp add: map_idI)
  then show ?thesis using hist_percentile_sorted [OF hist_ok_of assms] by (simp add: add_iq_envelope hist_of_def)
qed

text \<open>One stray sample in a thousand does not move the signal level. If all but \<open>k\<close> of the
  window's magnitudes are at most \<open>s\<close> and the window has at least \<open>1001 k\<close> samples, the
  99.9th percentile is at most \<open>s\<close>, whatever the other \<open>k\<close> are.\<close>

lemma signal_level_ignores_spikes:
  assumes "1 \<le> length ms" "length ms < 2 ^ 50" "1001 * k \<le> length ms"
    and "length (filter (\<lambda>m. s < m) ms) \<le> k"
  shows "signal (levels_of ms fr) \<le> s"
proof -
  have "length (filter (\<lambda>m. m \<le> s) ms) + length (filter (\<lambda>m. s < m) ms) = length ms"
    using sum_length_filter_compl [of "\<lambda>m. m \<le> s" ms] by (simp add: not_le)
  moreover have "quantile_rank (length ms) p_signal \<le> length ms - k"
    by (rule signal_quantile_rank_le [OF assms(1,2,3)])
  ultimately have "quantile_rank (length ms) (to_f64 (999/1000)) \<le> length (filter (\<lambda>m. m \<le> s) ms)"
    using assms(4) by (simp add: p_signal_def)
  then have "hist_percentile (hist_of ms) p_signal \<le> s" unfolding p_signal_def
    by (intro hist_percentile_le_cap [OF hist_ok_of _ _ assms(1,2)]) simp_all
  then show ?thesis by (simp add: levels_of_hist hist_levels_def Let_def)
qed

text \<open>The slicing threshold of a window lies between its noise floor and its signal level
  for every fraction in the unit interval: rounding in doubles never pushes it outside.\<close>

lemma threshold_between_levels:
  assumes "1 \<le> length ms" "length ms < 2 ^ 50" "0 \<le> f" "f \<le> 1"
  shows "noise_floor (levels_of ms (Fin f)) \<le> threshold (levels_of ms (Fin f)) \<and>
     threshold (levels_of ms (Fin f)) \<le> signal (levels_of ms (Fin f)) \<and>
     signal (levels_of ms (Fin f)) \<le> 257"
  using levels_threshold_between [OF assms] hist_percentile_le [OF hist_ok_of, of ms p_signal]
  by (simp add: levels_of_hist hist_levels_def Let_def)

text \<open>A receiver may be fed in chunks of any size. Pushing two buffers one after the other
  leaves the detector in the state, and delivers the bursts, of pushing them as one, as long
  as the cut does not split a sample.\<close>

lemma chunking_invisible:
  assumes "even (length xs)"
  shows "det_push d (xs @ ys) =
     (fst (det_push (fst (det_push d xs)) ys), snd (det_push d xs) @ snd (det_push (fst (det_push d xs)) ys))"
  using det_push_append [OF assms] by (simp add: split_beta)

section \<open>Width histogram and burst agreement\<close>

definition bucket_of :: "int \<Rightarrow> int \<Rightarrow> int" where "bucket_of b t = div_euclid t b * b"

lemma width_fold:
  "(case foldl (width_step b) h ts k of None \<Rightarrow> 0 | Some c \<Rightarrow> c) =
     (case h k of None \<Rightarrow> 0 | Some c \<Rightarrow> c) + length (filter (\<lambda>t. bucket_of b t = k) ts)"
  by (induction ts arbitrary: h) (auto simp: width_step_def bucket_of_def Let_def)

lemma width_fold_None:
  "foldl (width_step b) h ts k = None \<longleftrightarrow> h k = None \<and> (\<forall>t \<in> set ts. bucket_of b t \<noteq> k)"
  by (induction ts arbitrary: h) (auto simp: width_step_def bucket_of_def Let_def)

lemma bucket_of_bounds: "0 < b \<Longrightarrow> bucket_of b t \<le> t \<and> t < bucket_of b t + b"
proof -
  assume b: "0 < b"
  have "bucket_of b t + t mod b = t" using b by (simp add: bucket_of_def div_euclid_def)
  then show ?thesis using pos_mod_bound [OF b, of t] pos_mod_sign [OF b, of t] by linarith
qed

text \<open>The width histogram counts every timing once, in the bucket that contains it, and has
  no empty bucket. A bucket width of zero has no histogram unless there is nothing to count:
  the division panics.\<close>

lemma width_histogram_counts:
  "(width_histogram ts 0 = None \<longleftrightarrow> ts \<noteq> []) \<and>
   (0 < b \<longrightarrow> (\<exists>h. width_histogram ts b = Some h \<and>
      (\<forall>k. (case h k of None \<Rightarrow> 0 | Some c \<Rightarrow> c) = length (filter (\<lambda>t. bucket_of b t = k) ts)) \<and>
      (\<forall>k. h k = None \<longleftrightarrow> (\<forall>t \<in> set ts. bucket_of b t \<noteq> k)) \<and>
      (\<forall>t. bucket_of b t \<le> t \<and> t < bucket_of b t + b)))"
  using width_fold [of b Map.empty ts] width_fold_None [of b Map.empty ts] bucket_of_bounds [of b]
  by (simp add: width_histogram_def)

definition deviates_by :: "int list \<Rightarrow> int list \<Rightarrow> int \<Rightarrow> bool" where
  "deviates_by xs ys d \<longleftrightarrow> (\<forall>(a, b) \<in> set (zip xs ys). \<bar>a - b\<bar> \<le> d)"

lemma foldl_max_le: "foldl (\<lambda>d (a, b). max d \<bar>a - b\<bar>) m ps \<le> (x :: int) \<longleftrightarrow>
    m \<le> x \<and> (\<forall>(a, b) \<in> set ps. \<bar>a - b\<bar> \<le> x)"
  by (induction ps arbitrary: m) auto

lemma agreement_fold:
  "same_edge_count (foldl (agreement_step f) g os) =
     (same_edge_count g \<and> (\<forall>x \<in> set os. length x = length f))"
  "max_deviation_us (foldl (agreement_step f) g os) \<le> d \<longleftrightarrow>
     max_deviation_us g \<le> d \<and> (\<forall>x \<in> set os. length x = length f \<longrightarrow> deviates_by f x d)"
  by (induction os arbitrary: g) (auto simp: agreement_step_def foldl_max_le deviates_by_def)

text \<open>The agreement of repeated bursts: \<open>same_edge_count\<close> says that all have as many edges
  as the first, and \<open>max_deviation_us\<close> is the least bound on how far any edge of a burst of
  that length strays from the first burst's.\<close>

lemma compare_bursts_least_bound:
  "compare_bursts [] = None \<and>
   (\<exists>g. compare_bursts (f # os) = Some g \<and>
      same_edge_count g = (\<forall>x \<in> set os. length x = length f) \<and>
      (\<forall>d. max_deviation_us g \<le> d \<longleftrightarrow>
         0 \<le> d \<and> (\<forall>x \<in> set os. length x = length f \<longrightarrow> deviates_by f x d)))"
  by (simp add: compare_bursts_def agreement_fold)

end
