(* ===== verification/Cli.thy ===== *)
theory Cli
  imports Radio_Device Server Ook_Properties
begin

text \<open>
  \<open>main.rs\<close>: reading a frequency, the offline and streaming demodulators of \<open>hrf demod\<close>, the
  daemon's configuration and the \<open>transmit\<close> tool. Strings are ASCII; printing, files and the
  argument parser are not modelled. A panic is \<open>None\<close>.
\<close>

section \<open>Strings\<close>

definition code_of :: "char \<Rightarrow> nat" where "code_of c = of_char c"

definition is_space :: "char \<Rightarrow> bool" where
  "is_space c \<longleftrightarrow> code_of c = 32 \<or> 9 \<le> code_of c \<and> code_of c \<le> 13"

definition is_digit :: "char \<Rightarrow> bool" where
  "is_digit c \<longleftrightarrow> 48 \<le> code_of c \<and> code_of c \<le> 57"

definition lower :: "char \<Rightarrow> char" where
  "lower c = (if 65 \<le> code_of c \<and> code_of c \<le> 90 then char_of (code_of c + 32) else c)"

definition trim :: "string \<Rightarrow> string" where
  "trim s = rev (dropWhile is_space (rev (dropWhile is_space s)))"

definition strip_suffix :: "string \<Rightarrow> string \<Rightarrow> string option" where
  "strip_suffix suf s =
     (if length suf \<le> length s \<and> drop (length s - length suf) s = suf
      then Some (take (length s - length suf) s) else None)"

section \<open>Reading a number\<close>

text \<open>\<open>str::parse::<f64>\<close> of Rust's standard library: a sign, then \<open>inf\<close>, \<open>infinity\<close>, \<open>nan\<close>, or
  digits with an optional point and an optional exponent, rounded once to a double.\<close>

definition digits_value :: "string \<Rightarrow> nat" where
  "digits_value s = foldl (\<lambda>n c. n * 10 + (code_of c - 48)) 0 s"

definition parse_sign :: "string \<Rightarrow> bool \<times> string" where
  "parse_sign s =
     (case s of [] \<Rightarrow> (False, [])
      | c # cs \<Rightarrow> if c = CHR ''-'' then (True, cs) else if c = CHR ''+'' then (False, cs) else (False, s))"

definition parse_exponent :: "string \<Rightarrow> int option" where
  "parse_exponent s =
     (case s of [] \<Rightarrow> Some 0
      | c # cs \<Rightarrow>
          (let (neg, ds) = parse_sign cs in
           if c \<in> {CHR ''e'', CHR ''E''} \<and> ds \<noteq> [] \<and> list_all is_digit ds
           then Some ((if neg then -1 else 1) * int (digits_value ds)) else None))"

definition parse_number :: "string \<Rightarrow> rat option" where
  "parse_number s =
     (let ip = takeWhile is_digit s; r = dropWhile is_digit s;
          (fp, rest) = (if r \<noteq> [] \<and> hd r = CHR ''.'' then (takeWhile is_digit (tl r), dropWhile is_digit (tl r)) else ([], r))
      in if ip @ fp = [] then None
         else case parse_exponent rest of None \<Rightarrow> None
              | Some e \<Rightarrow> Some (of_nat (digits_value (ip @ fp)) * 10 powi (e - int (length fp))))"

definition parse_f64 :: "string \<Rightarrow> f64 option" where
  "parse_f64 s =
     (let (neg, body) = parse_sign s; word = map lower body in
      if word = ''inf'' \<or> word = ''infinity'' then Some (Infinity neg)
      else if word = ''nan'' then Some Nan
      else case parse_number body of None \<Rightarrow> None
           | Some x \<Rightarrow> Some (to_f64 (if neg then - x else x)))"

section \<open>Frequencies\<close>

definition min_frequency_hz :: nat where "min_frequency_hz = 1000000"
definition max_frequency_hz :: nat where "max_frequency_hz = 6000000000"

definition split_unit :: "string \<Rightarrow> string \<times> f64" where
  "split_unit txt =
     (case strip_suffix ''g'' txt of Some rest \<Rightarrow> (rest, to_f64 1000000000)
      | None \<Rightarrow> (case strip_suffix ''m'' txt of Some rest \<Rightarrow> (rest, to_f64 1000000)
      | None \<Rightarrow> (case strip_suffix ''k'' txt of Some rest \<Rightarrow> (rest, to_f64 1000)
      | None \<Rightarrow> (txt, to_f64 1))))"

definition f_is_finite_pos :: "f64 \<Rightarrow> bool" where
  "f_is_finite_pos v = (case v of Fin x \<Rightarrow> 0 < x | _ \<Rightarrow> False)"

definition parse_frequency :: "string \<Rightarrow> error + nat" where
  "parse_frequency input =
     (let t0 = map lower (trim input);
          t1 = trim (case strip_suffix ''hz'' t0 of Some r \<Rightarrow> r | None \<Rightarrow> t0);
          (digits, multiplier) = split_unit t1
      in case parse_f64 (trim digits) of
           None \<Rightarrow> Inl (Context (''not a frequency: '' @ input) (Message ''invalid float literal'' []))
         | Some value \<Rightarrow>
             if \<not> f_is_finite_pos value then Inl (Message (''not a frequency: '' @ input) [])
             else let hz = f_as_u64 (f_round (f_mul value multiplier)) in
               if hz < min_frequency_hz
               then Inl (Message (input @ '' is below the 1 MHz minimum, in Hz'') [hz])
               else if \<not> hz \<le> max_frequency_hz then Inl (Message (input @ '' is above the 6 GHz maximum'') [])
               else Inr hz)"

text \<open>\<open>freqs.split(',').map(parse_frequency).collect::<Result<Vec<_>>>()\<close>\<close>

fun split_commas :: "string \<Rightarrow> string list" where
  "split_commas [] = [[]]"
| "split_commas (c # cs) =
     (if c = CHR '','' then [] # split_commas cs
      else (c # hd (split_commas cs)) # tl (split_commas cs))"

fun collect_results :: "(error + 'a) list \<Rightarrow> error + 'a list" where
  "collect_results [] = Inr []"
| "collect_results (r # rs) =
     (case r of Inl e \<Rightarrow> Inl e
      | Inr a \<Rightarrow> (case collect_results rs of Inl e \<Rightarrow> Inl e | Inr as \<Rightarrow> Inr (a # as)))"

definition parse_frequencies :: "string \<Rightarrow> error + nat list" where
  "parse_frequencies freqs =
     add_context ''--freqs must be a comma-separated frequency list''
       (collect_results (map parse_frequency (split_commas freqs)))"

section \<open>\<open>hrf demod\<close>\<close>

record demod_args =
  da_sample_rate :: nat
  da_threshold :: f64
  da_min_us :: nat
  da_gap_us :: int
  da_min_edges :: nat
  da_bucket_us :: int
  da_burst :: nat
  da_stream :: bool

definition offline_demod :: "byte list \<Rightarrow> demod_args \<Rightarrow> int list list" where
  "offline_demod raw args =
     (let magnitude = envelope raw;
          lv = levels_of magnitude (da_threshold args)
      in split_bursts (runs magnitude (threshold lv) (da_sample_rate args) (da_min_us args))
           (da_gap_us args) (da_min_edges args))"

definition demod_config :: "demod_args \<Rightarrow> detector_config" where
  "demod_config args =
     (detector_config_new (da_sample_rate args))
       \<lparr>dc_threshold_fraction := da_threshold args, dc_min_us := da_min_us args,
        dc_gap_us := da_gap_us args, dc_min_edges := da_min_edges args\<rparr>"

definition push_chunk :: "detector \<times> burst list \<Rightarrow> byte list \<Rightarrow> detector \<times> burst list" where
  "push_chunk st chunk = (let (d, bs) = det_push (fst st) chunk in (d, snd st @ bs))"

definition stream_demod :: "byte list \<Rightarrow> demod_args \<Rightarrow> int list list" where
  "stream_demod raw args =
     map burst_timings
       (snd (foldl push_chunk (detector_new (demod_config args), []) (chunks transfer_size raw)))"

text \<open>The report: the agreement of the bursts when there is more than one, the burst asked for
  (counted from one; \<open>args.burst - 1\<close> wraps in the release profile) and its histogram.\<close>

record demod_report =
  dr_bursts :: "int list list"
  dr_agreement :: "burst_agreement option"
  dr_selected :: "int list"
  dr_histogram :: "int \<rightharpoonup> nat"

definition select_burst :: "int list list \<Rightarrow> nat \<Rightarrow> int list option" where
  "select_burst bursts n =
     (let index = (if n = 0 then u64_max else n - 1)
      in if index < length bursts then Some (bursts ! index) else None)"

definition report_bursts :: "int list list \<Rightarrow> demod_args \<Rightarrow> (error + demod_report) option" where
  "report_bursts bursts args =
     (case select_burst bursts (da_burst args) of
        None \<Rightarrow> Some (Inl (Message ''burst does not exist'' [da_burst args]))
      | Some selected \<Rightarrow>
          (case width_histogram selected (da_bucket_us args) of
             None \<Rightarrow> None
           | Some h \<Rightarrow> Some (Inr \<lparr>dr_bursts = bursts,
               dr_agreement = (if 1 < length bursts then compare_bursts bursts else None),
               dr_selected = selected, dr_histogram = h\<rparr>)))"

definition demod :: "byte list \<Rightarrow> demod_args \<Rightarrow> (error + demod_report) option" where
  "demod raw args =
     (if length raw < 2 then Some (Inl (Message ''capture is empty'' []))
      else let bursts = (if da_stream args then stream_demod raw args else offline_demod raw args)
           in if bursts = [] then Some (Inl (Message ''no bursts found'' []))
              else report_bursts bursts args)"

section \<open>\<open>hrf serve\<close> and \<open>hrf transmit\<close>\<close>

record serve_args =
  sa_rx_freq :: nat
  sa_no_rx :: bool
  sa_rate :: nat
  sa_lna :: nat
  sa_vga :: nat
  sa_rx_amp :: bool
  sa_txvga :: nat
  sa_gap_us :: int
  sa_min_edges :: nat
  sa_record :: bool

definition serve_config :: "serve_args \<Rightarrow> error + (device_settings \<times> config)" where
  "serve_config a =
     (case validate_tx_gain (sa_txvga a) of
        Inl e \<Rightarrow> Inl e
      | Inr _ \<Rightarrow>
          (let c = config_new (sa_rate a) (sa_rx_freq a)
           in Inr (\<lparr>ds_sample_rate = sa_rate a, ds_lna_db = sa_lna a, ds_vga_db = sa_vga a, ds_rx_amp = sa_rx_amp a\<rparr>,
                   c\<lparr>cfg_rx_enabled := \<not> sa_no_rx a, cfg_txvga_db := sa_txvga a,
                     cfg_detector := (cfg_detector c)\<lparr>dc_gap_us := sa_gap_us a, dc_min_edges := sa_min_edges a\<rparr>,
                     cfg_record := sa_record a\<rparr>)))"

text \<open>The daemon: make the device, then let the radio thread run over the commands it receives.\<close>

definition serve ::
  "'h driver \<Rightarrow> 'e host \<Rightarrow> serve_args \<Rightarrow> 'h \<times> 'e \<Rightarrow> command option list \<Rightarrow> error + ('h device \<times> 'e) arbiter" where
  "serve drv host args he polls =
     (case serve_config args of
        Inl e \<Rightarrow> Inl e
      | Inr (settings, c) \<Rightarrow>
          (case device_new settings (fst he) of
             Inl e \<Rightarrow> Inl e
           | Inr d \<Rightarrow> Inr (run_thread (device_env drv host) c (d, snd he) polls)))"

text \<open>\<open>radio::transmit\<close>: a radio opened for one transmission; leaving drops the stream.\<close>

definition transmit_once :: "'h driver \<Rightarrow> tx_params \<Rightarrow> byte list \<Rightarrow> ('h, unit) io" where
  "transmit_once drv p samples =
     and_then (pure_io (validate_tx_gain (tp_txvga_db p))) (\<lambda>_.
     and_then (pure_io (validate_sample_rate (tp_sample_rate p))) (\<lambda>_.
     and_then (pure_io (ensure (samples \<noteq> []) (Message ''nothing to transmit'' []))) (\<lambda>_.
     and_then (open_radio drv) (\<lambda>_.
     and_then (drv_start_tx drv
       \<lparr>rc_lna_db = 0, rc_vga_db = 0, rc_txvga_db = tp_txvga_db p, rc_amp_enable = tp_amp_enable p,
        rc_antenna_enable = False, rc_frequency_hz = tp_frequency_hz p,
        rc_sample_rate_hz = tp_sample_rate p, rc_sample_rate_div = 1\<rparr>) (\<lambda>_.
     and_then (\<lambda>h. case drv_start_tx_stream drv h of (r, h1) \<Rightarrow> (add_context ''failed to start TX stream'' r, h1)) (\<lambda>_ h.
       (case foldl (\<lambda>rh b. and_then (pure_io (fst rh)) (\<lambda>_. drv_write_sync drv b) (snd rh)) (Inr (), h) (tx_transfers samples) of
          (r, h1) \<Rightarrow> (r, drv_drop_tx drv h1))))))))"

definition cli_transmit :: "'h driver \<Rightarrow> tx_params \<Rightarrow> int list \<Rightarrow> nat \<Rightarrow> nat \<Rightarrow> ('h, unit) io" where
  "cli_transmit drv p timings repeat gap_us =
     and_then (pure_io (ensure (timings \<noteq> []) (Message ''no timings'' []))) (\<lambda>_.
       transmit_once drv p (pad_to_alignment (render_transmission timings repeat gap_us (tp_sample_rate p) 100)))"

section \<open>The streaming demodulator\<close>

lemma push_chunks:
  assumes "even n" "n \<noteq> 0"
  shows "foldl push_chunk (d, bs) (chunks n xs) = (fst (det_push d xs), bs @ snd (det_push d xs))"
  using assms
proof (induction n xs arbitrary: d bs rule: chunks.induct)
  case (1 n xs)
  show ?case
  proof (cases "xs = []")
    case True
    then show ?thesis by (simp add: det_push_def)
  next
    case False
    have IH: "foldl push_chunk (e, cs) (chunks n (drop n xs)) =
        (fst (det_push e (drop n xs)), cs @ snd (det_push e (drop n xs)))" for e cs
      using "1.IH" [of e cs] False "1.prems" by simp
    have step: "foldl push_chunk (d, bs) (chunks n xs) =
        foldl push_chunk (fst (det_push d (take n xs)), bs @ snd (det_push d (take n xs))) (chunks n (drop n xs))"
      using False "1.prems" by (simp add: chunks_step push_chunk_def split_beta)
    show ?thesis
    proof (cases "n \<le> length xs")
      case True
      then have "even (length (take n xs))" using "1.prems" by simp
      from det_push_append [OF this, of d "drop n xs"] show ?thesis
        unfolding step IH by (simp add: split_beta)
    next
      case False
      then show ?thesis unfolding step by simp
    qed
  qed
qed

text \<open>The streaming demodulator of \<open>hrf demod\<close> shows what the daemon's receiver would have
  made of the capture: cutting it into USB transfers changes nothing, whatever its length.\<close>

theorem stream_demod_is_one_push:
  "stream_demod raw args = map burst_timings (snd (det_push (detector_new (demod_config args)) raw))"
  using push_chunks [of transfer_size "detector_new (demod_config args)" "[]" raw]
  by (simp add: stream_demod_def transfer_size_def)

text \<open>With a positive width a bucket is an interval that starts at a multiple of the width.\<close>

lemma bucket_of_iff: "0 < b \<Longrightarrow> bucket_of b t = k \<longleftrightarrow> b dvd k \<and> k \<le> t \<and> t < k + b"
proof -
  assume b: "0 < b"
  have "k = bucket_of b t" if k: "b dvd k" "k \<le> t" "t < k + b"
  proof -
    obtain j where j: "k = b * j" using k(1) by (elim dvdE)
    have "t div b = j"
      using k(2,3) b unfolding j by (intro int_div_pos_eq [where r = "t - b * j"]) simp_all
    then show ?thesis using b j by (simp add: bucket_of_def div_euclid_def)
  qed
  moreover have "b dvd bucket_of b t" by (simp add: bucket_of_def)
  ultimately show ?thesis using bucket_of_bounds [OF b, of t] by blast
qed

lemma width_fold_count:
  assumes "0 < b"
  shows "(case foldl (width_step b) Map.empty ts k of None \<Rightarrow> 0 | Some n \<Rightarrow> n) =
     (if b dvd k then length (filter (\<lambda>t. k \<le> t \<and> t < k + b) ts) else 0)"
  unfolding width_fold by (simp add: bucket_of_iff [OF assms])

text \<open>What the report's agreement says of the bursts, the first among them.\<close>

lemma compare_bursts_all:
  assumes "bursts \<noteq> []"
  shows "\<exists>g. compare_bursts bursts = Some g \<and>
     same_edge_count g = (\<forall>x \<in> set bursts. length x = length (hd bursts)) \<and>
     (\<forall>d. max_deviation_us g \<le> d \<longleftrightarrow>
        0 \<le> d \<and> (\<forall>x \<in> set bursts. length x = length (hd bursts) \<longrightarrow> deviates_by (hd bursts) x d))"
proof -
  obtain f os where b: "bursts = f # os" using assms by (cases bursts) auto
  have "0 \<le> d \<Longrightarrow> deviates_by f f d" for d
    by (induction f) (auto simp: deviates_by_def)
  then show ?thesis unfolding b by (auto simp: compare_bursts_def agreement_fold)
qed

lemma select_burst_spec:
  "length bursts < u64_max \<Longrightarrow>
   select_burst bursts n = (if 1 \<le> n \<and> n \<le> length bursts then Some (bursts ! (n - 1)) else None)"
  by (auto simp: select_burst_def Let_def)

text \<open>C40: What the demodulator reports. The bursts are those the daemon's detector delivers when it is
  pushed the whole capture at once, or those of the offline decoder. The command fails exactly
  when the capture has no sample or the burst asked for does not exist, which includes
  that there is none; it panics exactly when that burst has edges to count and the bucket
  width is zero; and otherwise reports the bursts, the one asked for, in a bucket of positive
  width that starts at a multiple of it how many of its timings lie within,
  and, only if there are several bursts, whether all have as many edges as the first and the
  least bound on how far their edges stray from the first's.\<close>

theorem demod_outcome:
  assumes b: "bursts = (if da_stream args then map burst_timings (snd (det_push (detector_new (demod_config args)) raw))
       else offline_demod raw args)"
    and u: "length bursts < u64_max"
  shows "(demod raw args = None \<longleftrightarrow> 2 \<le> length raw \<and> 1 \<le> da_burst args \<and> da_burst args \<le> length bursts \<and>
        bursts ! (da_burst args - 1) \<noteq> [] \<and> da_bucket_us args = 0) \<and>
     ((\<exists>e. demod raw args = Some (Inl e)) \<longleftrightarrow> length raw < 2 \<or> da_burst args = 0 \<or> length bursts < da_burst args) \<and>
     (\<forall>rep. demod raw args = Some (Inr rep) \<longrightarrow>
        dr_bursts rep = bursts \<and> dr_selected rep = bursts ! (da_burst args - 1) \<and>
        (0 < da_bucket_us args \<longrightarrow> (\<forall>k. (case dr_histogram rep k of None \<Rightarrow> 0 | Some n \<Rightarrow> n) =
           (if da_bucket_us args dvd k
            then length (filter (\<lambda>t. k \<le> t \<and> t < k + da_bucket_us args) (dr_selected rep)) else 0))) \<and>
        (dr_agreement rep = None \<longleftrightarrow> length bursts = 1) \<and>
        (\<forall>g. dr_agreement rep = Some g \<longrightarrow>
           same_edge_count g = (\<forall>x \<in> set bursts. length x = length (hd bursts)) \<and>
           (\<forall>d. max_deviation_us g \<le> d \<longleftrightarrow>
              0 \<le> d \<and> (\<forall>x \<in> set bursts. length x = length (hd bursts) \<longrightarrow> deviates_by (hd bursts) x d))))"
proof -
  let ?n = "da_burst args" and ?w = "da_bucket_us args"
  have bursts: "bursts = (if da_stream args then stream_demod raw args else offline_demod raw args)"
    using b push_chunks [of transfer_size "detector_new (demod_config args)" "[]" raw]
    by (simp add: stream_demod_def transfer_size_def)
  have d: "demod raw args =
     (if length raw < 2 then Some (Inl (Message ''capture is empty'' []))
      else if bursts = [] then Some (Inl (Message ''no bursts found'' []))
      else if 1 \<le> ?n \<and> ?n \<le> length bursts
      then if ?w = 0 \<and> bursts ! (?n - 1) \<noteq> [] then None
           else Some (Inr \<lparr>dr_bursts = bursts, dr_agreement = (if 1 < length bursts then compare_bursts bursts else None),
             dr_selected = bursts ! (?n - 1), dr_histogram = foldl (width_step ?w) Map.empty (bursts ! (?n - 1))\<rparr>)
      else Some (Inl (Message ''burst does not exist'' [?n])))"
    unfolding demod_def Let_def bursts [symmetric] report_bursts_def select_burst_spec [OF u] width_histogram_def by simp
  have none: "demod raw args = None \<longleftrightarrow> 2 \<le> length raw \<and> 1 \<le> ?n \<and> ?n \<le> length bursts \<and> bursts ! (?n - 1) \<noteq> [] \<and> ?w = 0"
    unfolding d by (cases "bursts = []") auto
  have failed: "(\<exists>e. demod raw args = Some (Inl e)) \<longleftrightarrow> length raw < 2 \<or> ?n = 0 \<or> length bursts < ?n"
    unfolding d by (cases "bursts = []") auto
  have rep: "bursts \<noteq> []" "rep = \<lparr>dr_bursts = bursts, dr_agreement = (if 1 < length bursts then compare_bursts bursts else None),
             dr_selected = bursts ! (?n - 1), dr_histogram = foldl (width_step ?w) Map.empty (bursts ! (?n - 1))\<rparr>"
    if "demod raw args = Some (Inr rep)" for rep
    using that unfolding d by (auto split: if_splits)
  have hist: "0 < ?w \<longrightarrow> (\<forall>k. (case foldl (width_step ?w) Map.empty ts k of None \<Rightarrow> 0 | Some n \<Rightarrow> n) =
      (if ?w dvd k then length (filter (\<lambda>t. k \<le> t \<and> t < k + ?w) ts) else 0))" for ts
    using width_fold_count by blast
  have agree: "same_edge_count g = (\<forall>x \<in> set bursts. length x = length (hd bursts)) \<and>
      (\<forall>d. max_deviation_us g \<le> d \<longleftrightarrow>
         0 \<le> d \<and> (\<forall>x \<in> set bursts. length x = length (hd bursts) \<longrightarrow> deviates_by (hd bursts) x d))"
    if "bursts \<noteq> []" "compare_bursts bursts = Some g" for g
    using compare_bursts_all [OF that(1)] unfolding that(2) by simp
  have single: "(if 1 < length bursts then compare_bursts bursts else None) = None \<longleftrightarrow> length bursts = 1"
    if ne: "bursts \<noteq> []"
  proof -
    have "compare_bursts bursts \<noteq> None" using compare_bursts_all [OF ne] by auto
    then show ?thesis using ne by (cases bursts) simp_all
  qed
  show ?thesis
  proof (intro conjI allI impI none failed)
    fix rep assume r: "demod raw args = Some (Inr rep)"
    note e = rep [OF r]
    show "dr_bursts rep = bursts" "dr_selected rep = bursts ! (?n - 1)" by (simp_all add: e(2))
    show "dr_agreement rep = None \<longleftrightarrow> length bursts = 1" using single [OF e(1)] by (simp add: e(2))
    show "(case dr_histogram rep k of None \<Rightarrow> 0 | Some n \<Rightarrow> n) =
        (if ?w dvd k then length (filter (\<lambda>t. k \<le> t \<and> t < k + ?w) (dr_selected rep)) else 0)" if "0 < ?w" for k
      using hist that by (simp add: e(2))
    fix g assume g: "dr_agreement rep = Some g"
    then have c: "compare_bursts bursts = Some g" by (simp add: e(2) split: if_splits)
    show "same_edge_count g = (\<forall>x \<in> set bursts. length x = length (hd bursts))"
      "max_deviation_us g \<le> d \<longleftrightarrow>
         0 \<le> d \<and> (\<forall>x \<in> set bursts. length x = length (hd bursts) \<longrightarrow> deviates_by (hd bursts) x d)" for d
      using agree [OF e(1) c] by blast+
  qed
qed

end
