(* ===== verification/Frequencies.thy ===== *)
theory Frequencies
  imports Cli
begin

text \<open>
  \<open>main.rs\<close>, \<open>parse_frequency\<close>: what it reads. A number with a unit comes out as exactly that
  many hertz, decimals included, although it is read as a double and multiplied as one.
\<close>

section \<open>Frequencies are read right\<close>

text \<open>A frequency that parses is one the radio can tune: whatever was typed, the result lies
  between 1 MHz and 6 GHz.\<close>

theorem parsed_frequency_in_range:
  assumes "parse_frequency input = Inr hz"
  shows "1000000 \<le> hz \<and> hz \<le> 6000000000"
  using assms
  by (auto simp: parse_frequency_def Let_def split_beta min_frequency_hz_def max_frequency_hz_def
      split: option.splits if_splits)

lemma digit_simps: "is_digit c \<Longrightarrow> lower c = c \<and> \<not> is_space c \<and> c \<noteq> CHR ''-'' \<and> c \<noteq> CHR ''+''"
  by (auto simp: is_digit_def lower_def is_space_def code_of_def)

lemma map_lower_digits: "list_all is_digit ds \<Longrightarrow> map lower ds = ds"
  using digit_simps by (induction ds) auto

lemma trim_tight: "s \<noteq> [] \<Longrightarrow> \<not> is_space (hd s) \<Longrightarrow> \<not> is_space (last s) \<Longrightarrow> trim s = s"
proof -
  assume s: "s \<noteq> []" "\<not> is_space (hd s)" "\<not> is_space (last s)"
  obtain c cs where c: "s = c # cs" using s(1) by (cases s) auto
  obtain ds where d: "rev s = last s # ds" using s(1) by (cases s rule: rev_cases) auto
  have "dropWhile is_space s = s" using s(2) c by simp
  moreover have "dropWhile is_space (rev s) = rev s" unfolding d using s(3) by simp
  ultimately show ?thesis by (simp add: trim_def)
qed

lemma parse_f64_digits:
  assumes "ds \<noteq> []" "list_all is_digit ds" "digits_value ds < 2 ^ 53"
  shows "parse_f64 ds = Some (Fin (of_nat (digits_value ds)))"
proof -
  obtain c cs where c: "ds = c # cs" using assms(1) by (cases ds) auto
  have "is_digit c" using assms(2) c by simp
  then have sign: "parse_sign ds = (False, ds)" using digit_simps c by (simp add: parse_sign_def)
  have tw: "takeWhile is_digit ds = ds" "dropWhile is_digit ds = []"
    using assms(2) by (simp_all add: takeWhile_eq_all_conv dropWhile_eq_Nil_conv list_all_iff)
  have num: "parse_number ds = Some (of_nat (digits_value ds))"
    using assms(1) by (simp add: parse_number_def tw parse_exponent_def Let_def)
  have "map lower ds \<noteq> ''inf''" "map lower ds \<noteq> ''infinity''" "map lower ds \<noteq> ''nan''"
    using assms(2) c map_lower_digits [OF assms(2)] by (auto simp: is_digit_def code_of_def)
  then show ?thesis
    using sign num f64_of_nat_small [OF assms(3)] by (simp add: parse_f64_def f64_of_nat_def)
qed

text \<open>The suffixes, and what they multiply by.\<close>

definition units :: "(string \<times> nat) list" where
  "units = [('''', 1), (''Hz'', 1), (''k'', 1000), (''kHz'', 1000), (''M'', 1000000), (''MHz'', 1000000),
            (''G'', 1000000000), (''GHz'', 1000000000)]"

lemma strip_suffix_snoc [simp]: "strip_suffix [u] (s @ [v]) = (if u = v then Some s else None)"
  by (auto simp: strip_suffix_def)

lemma strip_suffix_two: "strip_suffix [u, v] (s @ [x, y]) = (if u = x \<and> v = y then Some s else None)"
  by (auto simp: strip_suffix_def)

lemma strip_suffix_last:
  assumes "s \<noteq> []" "suf \<noteq> []" "last s \<noteq> last suf"
  shows "strip_suffix suf s = None"
proof -
  have "drop (length s - length suf) s \<noteq> suf" if "length suf \<le> length s"
  proof
    assume e: "drop (length s - length suf) s = suf"
    then have "last suf = last s" using assms(2) last_drop [of "length s - length suf" s] that
      by (cases suf) auto
    then show False using assms(3) by simp
  qed
  then show ?thesis by (simp add: strip_suffix_def)
qed

lemma f_mul_units:
  assumes "n * k < 2 ^ 53"
  shows "f_as_u64 (f_round (f_mul (Fin (of_nat n)) (Fin (of_nat k)))) = n * k"
proof -
  define m where "m = n * k"
  have "int m < 2 ^ 53" using assms by (metis m_def of_nat_less_iff of_nat_numeral of_nat_power)
  then have "f_mul (Fin (of_nat n)) (Fin (of_nat k)) = Fin (of_int (int m))"
    using to_f64_of_int [of "int m"] by (simp add: m_def)
  moreover have "f_as_u64 (Fin (of_int (int m))) = m"
    using \<open>int m < 2 ^ 53\<close> f_as_u64_of_int [of "int m"] by (simp add: u64_max_def)
  ultimately show ?thesis unfolding m_def [symmetric] by (simp only: f_round.simps round_away_of_int)
qed

text \<open>The unit is split off whatever number stands before it.\<close>

lemma split_unit_number:
  assumes "ds \<noteq> []" "is_digit (hd ds)" "is_digit (last ds)" "map lower ds = ds" "(u, k) \<in> set units"
  shows "\<exists>t. (case strip_suffix ''hz'' (map lower (ds @ u)) of Some r \<Rightarrow> r | None \<Rightarrow> map lower (ds @ u)) = t \<and>
     trim t = t \<and> split_unit t = (ds, Fin (of_nat k))"
proof -
  note d = assms(3,2)
  then have dl: "last ds \<notin> {CHR ''g'', CHR ''m'', CHR ''k'', CHR ''z''}" by (auto simp: is_digit_def code_of_def)
  have none: "strip_suffix ''hz'' ds = None" "strip_suffix ''g'' ds = None" "strip_suffix ''m'' ds = None"
    "strip_suffix ''k'' ds = None"
    using strip_suffix_last [OF assms(1)] dl by simp_all
  have hz: "strip_suffix ''hz'' (ds @ [x]) = None" if "x \<noteq> CHR ''z''" for x
    using that by (intro strip_suffix_last) simp_all
  have two: "strip_suffix ''hz'' (ds @ ''hz'') = Some ds"
    using strip_suffix_two [of "CHR ''h''" "CHR ''z''" ds] by simp
  have three: "strip_suffix ''hz'' (ds @ x # ''hz'') = Some (ds @ [x])" for x
    using strip_suffix_two [of "CHR ''h''" "CHR ''z''" "ds @ [x]"] by simp
  have tr: "trim ds = ds" "trim (ds @ ''g'') = ds @ ''g''" "trim (ds @ ''m'') = ds @ ''m''" "trim (ds @ ''k'') = ds @ ''k''"
    using digit_simps [OF d(1)] digit_simps [OF d(2)] assms(1)
    by (auto intro!: trim_tight simp: is_space_def code_of_def)
  have one: "to_f64 1000000000 = Fin 1000000000" "to_f64 1000000 = Fin 1000000" "to_f64 1000 = Fin 1000" "to_f64 1 = Fin 1"
    using to_f64_of_int [of 1000000000] to_f64_of_int [of 1000000] to_f64_of_int [of 1000] to_f64_of_int [of 1] by simp_all
  have low: "lower CHR ''H'' = CHR ''h''" "lower CHR ''z'' = CHR ''z''" "lower CHR ''k'' = CHR ''k''"
    "lower CHR ''M'' = CHR ''m''" "lower CHR ''G'' = CHR ''g''"
    by code_simp+
  show ?thesis using assms(5)
    by (auto simp: units_def assms(4) low none hz two three tr split_unit_def one)
qed

lemma number_frequency:
  assumes ds: "ds \<noteq> []" "is_digit (hd ds)" "is_digit (last ds)" "map lower ds = ds" "(u, k) \<in> set units"
    and p: "parse_f64 ds = Some (Fin x)" and x: "0 < x"
    and m: "f_as_u64 (f_round (f_mul (Fin x) (Fin (of_nat k)))) = hz"
    and hz: "1000000 \<le> hz" "hz \<le> 6000000000"
  shows "parse_frequency (ds @ u) = Inr hz"
proof -
  have pos: "f_is_finite_pos (Fin x)" using x by (simp add: f_is_finite_pos_def)
  have "\<not> is_space (last (ds @ u))"
    using ds(5) digit_simps [OF ds(3)] by (auto simp: units_def is_space_def code_of_def)
  then have tr: "trim (ds @ u) = ds @ u"
    using digit_simps [OF ds(2)] ds(1) by (intro trim_tight) auto
  obtain t where t: "(case strip_suffix ''hz'' (map lower (ds @ u)) of Some r \<Rightarrow> r | None \<Rightarrow> map lower (ds @ u)) = t"
      "trim t = t" "split_unit t = (ds, Fin (of_nat k))"
    using split_unit_number [OF ds] by blast
  have td: "trim ds = ds" using digit_simps ds(1-3) by (intro trim_tight) auto
  show ?thesis
    using hz pos unfolding parse_frequency_def Let_def tr t(1) t(2) t(3) prod.case td p option.case m
    by (simp add: min_frequency_hz_def max_frequency_hz_def)
qed

lemma units_pos: "(u, k) \<in> set units \<Longrightarrow> 1 \<le> k \<and> k \<le> 1000000000"
  by (auto simp: units_def)

lemma whole_number_frequency:
  assumes "ds \<noteq> []" "list_all is_digit ds" "(u, k) \<in> set units"
    and "1000000 \<le> digits_value ds * k" "digits_value ds * k \<le> 6000000000"
  shows "parse_frequency (ds @ u) = Inr (digits_value ds * k)"
proof (rule number_frequency [where x = "of_nat (digits_value ds)"])
  have "digits_value ds * 1 \<le> digits_value ds * k" using units_pos [OF assms(3)] by (intro mult_le_mono2) simp
  then have "digits_value ds \<le> digits_value ds * k" by (simp only: mult_1_right)
  then have "digits_value ds < 2 ^ 53" using assms(5) by (rule order.strict_trans1 [OF order.trans]) simp
  then show "parse_f64 ds = Some (Fin (of_nat (digits_value ds)))" by (rule parse_f64_digits [OF assms(1,2)])
  have "digits_value ds \<noteq> 0" using assms(4) by (intro notI) simp
  then show "(0 :: rat) < of_nat (digits_value ds)" by simp
  show "f_as_u64 (f_round (f_mul (Fin (of_nat (digits_value ds))) (Fin (of_nat k)))) = digits_value ds * k"
    by (rule f_mul_units) (use assms(5) in simp)
qed (use assms map_lower_digits in \<open>auto simp: list_all_iff\<close>)

section \<open>Decimals\<close>

lemma parse_f64_decimal:
  assumes "ip \<noteq> []" "list_all is_digit ip" "list_all is_digit fp"
  shows "parse_f64 (ip @ CHR ''.'' # fp) = Some (to_f64 (of_nat (digits_value (ip @ fp)) / 10 ^ length fp))"
proof -
  let ?s = "ip @ CHR ''.'' # fp"
  obtain c cs where c: "ip = c # cs" using assms(1) by (cases ip) auto
  have "is_digit c" using assms(2) c by simp
  then have sign: "parse_sign ?s = (False, ?s)" using digit_simps c by (simp add: parse_sign_def)
  have dot: "\<not> is_digit (CHR ''.'')" by (simp add: is_digit_def code_of_def)
  have tw: "takeWhile is_digit ?s = ip" "dropWhile is_digit ?s = CHR ''.'' # fp"
    "takeWhile is_digit fp = fp" "dropWhile is_digit fp = []"
    using assms(2,3) dot
    by (simp_all add: takeWhile_append dropWhile_append takeWhile_eq_all_conv dropWhile_eq_Nil_conv list_all_iff)
  have num: "parse_number ?s = Some (of_nat (digits_value (ip @ fp)) / 10 ^ length fp)"
    using assms(1) by (simp add: parse_number_def tw parse_exponent_def Let_def power_int_minus field_simps)
  have "lower c = c" using digit_simps [OF \<open>is_digit c\<close>] by simp
  then have "map lower ?s \<noteq> ''inf''" "map lower ?s \<noteq> ''infinity''" "map lower ?s \<noteq> ''nan''"
    using \<open>is_digit c\<close> c by (auto simp: is_digit_def code_of_def)
  then show ?thesis using sign num by (simp add: parse_f64_def)
qed

lemma f_mul_commute: "f_mul (Fin x) (Fin y) = f_mul (Fin y) (Fin x)"
  by (simp add: mult.commute)

text \<open>Read, rounded, multiplied, rounded again and rounded to an integer, a decimal is itself.\<close>

lemma decimal_times_unit:
  fixes a :: rat
  assumes a: "a * of_nat k = of_nat hz" and k: "1000000 \<le> k" "k \<le> 1000000000" and hz: "1000000 \<le> hz" "hz \<le> 6000000000"
  obtains x where "to_f64 a = Fin x" "0 < x" "f_as_u64 (f_round (f_mul (Fin x) (Fin (of_nat k)))) = hz"
proof -
  define K H :: rat where "K = of_nat k" and "H = of_nat hz"
  have KH: "1000000 \<le> K" "K \<le> 1000000000" "1000000 \<le> H" "H \<le> 6000000000"
    using k hz by (simp_all add: K_def H_def)
  have aH: "a * K = H" using a by (simp add: K_def H_def)
  then have aeq: "a = H / K" using KH by (simp add: field_simps)
  have lo: "1 / 2 ^ 20 \<le> a" unfolding aeq using KH by (simp add: field_simps)
  have hi: "a \<le> 2 ^ 20" unfolding aeq using KH by (simp add: field_simps)
  have pos: "0 < a" using lo by (simp add: less_le_trans [of 0 "1 / 2 ^ 20"])
  have "f64_range a" using lo hi by (intro f64_range_easy) simp_all
  then obtain x where x: "to_f64 a = Fin x" "\<bar>x - a\<bar> \<le> a / 2 ^ 53" using pos by (auto elim: to_f64_err)
  have "0 < x" using abs_errD [OF x(2)] pos by simp
  have k2: "1 \<le> k" "k < 2 ^ 50" using k by simp_all
  obtain y where y: "f_mul (f64_of_nat k) (to_f64 a) = Fin y" "\<bar>y - K * a\<bar> \<le> K * a / 2 ^ 51"
    using f_mul_nat_err [OF lo hi k2] unfolding K_def by blast
  have fy: "f_mul (Fin x) (Fin (of_nat k)) = Fin y"
    using y(1) k f_mul_commute [of x] by (simp add: x f64_of_nat_small)
  have "\<bar>y - H\<bar> \<le> H / 2 ^ 51" using y(2) aH by (simp add: mult.commute)
  then have "\<bar>y - H\<bar> < 1/2" using KH by simp
  then have "\<bar>y - of_int (int hz)\<bar> < 1/2" by (simp add: H_def)
  then have "round_away y = int hz" by (rule round_away_unique)
  then have "f_as_u64 (f_round (f_mul (Fin x) (Fin (of_nat k)))) = hz"
    unfolding fy using hz f_as_u64_of_int [of "int hz"] by (simp add: u64_max_def)
  with x(1) \<open>0 < x\<close> show ?thesis by (rule that)
qed

lemma decimal_number_frequency:
  assumes d: "ip \<noteq> []" "fp \<noteq> []" "list_all is_digit ip" "list_all is_digit fp"
    and u: "(u, k) \<in> set units" "1000000 \<le> k" and hz: "digits_value (ip @ fp) * k = hz * 10 ^ length fp"
    and range: "1000000 \<le> hz" "hz \<le> 6000000000"
  shows "parse_frequency (ip @ CHR ''.'' # fp @ u) = Inr hz"
proof -
  define a :: rat where "a = of_nat (digits_value (ip @ fp)) / 10 ^ length fp"
  have "(of_nat (digits_value (ip @ fp) * k) :: rat) = of_nat (hz * 10 ^ length fp)" by (simp only: hz)
  then have a: "a * of_nat k = of_nat hz" by (simp add: a_def field_simps)
  have k: "k \<le> 1000000000" using units_pos [OF u(1)] by simp
  obtain x where x: "to_f64 a = Fin x" "0 < x" "f_as_u64 (f_round (f_mul (Fin x) (Fin (of_nat k)))) = hz"
    by (rule decimal_times_unit [OF a u(2) k range])
  have "lower (CHR ''.'') = CHR ''.''" by code_simp
  then have "map lower (ip @ CHR ''.'' # fp) = ip @ CHR ''.'' # fp" using map_lower_digits d(3,4) by simp
  then have "parse_frequency ((ip @ CHR ''.'' # fp) @ u) = Inr hz"
    using d u(1) x parse_f64_decimal [OF d(1,3,4)] range
    by (intro number_frequency [where x = x]) (auto simp: a_def list_all_iff)
  then show ?thesis by simp
qed

text \<open>Frequencies are read exactly. Digits followed by any of the documented units denote
  that many of the unit in hertz; so do decimals with a unit of at least a megahertz, as long
  as they denote a whole number of hertz. Neither the binary fraction the digits
  become nor its product with the unit costs a hertz, anywhere in the tuning range.\<close>

theorem frequencies_read_exactly:
  assumes "ip \<noteq> []" "list_all is_digit ip" "list_all is_digit fp" "(u, k) \<in> set units"
    and "fp = [] \<or> 1000000 \<le> k" "digits_value (ip @ fp) * k = hz * 10 ^ length fp"
    and "1000000 \<le> hz" "hz \<le> 6000000000"
  shows "parse_frequency (ip @ (if fp = [] then [] else CHR ''.'' # fp) @ u) = Inr hz"
proof (cases "fp = []")
  case True
  then show ?thesis using whole_number_frequency [of ip u k] assms by simp
next
  case False
  then show ?thesis using decimal_number_frequency [of ip fp u k hz] assms by simp
qed

lemma digits_433: "digits_value ''43392'' = 43392" "digits_value ''315'' = 315"
  by (simp_all add: digits_value_def code_of_def)

theorem frequencies_read_exactly_witness:
  "parse_frequency ''433.92MHz'' = Inr 433920000 \<and> parse_frequency ''315M'' = Inr 315000000"
  using frequencies_read_exactly [of "''433''" "''92''" "''MHz''" 1000000 433920000]
    frequencies_read_exactly [of "''315''" "[]" "''M''" 1000000 315000000]
  by (simp add: digits_433 units_def is_digit_def code_of_def)

end
