(* ===== verification/Daemon.thy ===== *)
theory Daemon
  imports Frequencies
begin

text \<open>
  Properties that span components: from a validated request to the transfers on the bus, from
  the driver to the whole thread, and from the air to the frames clients receive.
\<close>

section \<open>Half-duplex\<close>

lemma device_new_ok: "device_new settings h = Inr d \<Longrightarrow> dev_ok d \<and> \<not> d_rx d"
  by (auto simp: device_new_def dev_ok_def duplex_at_def split: sum.splits)

text \<open>The daemon drives the radio half-duplex, whatever the driver answers. For every driver,
  host, command line and sequence of commands, over the whole life of the radio thread the
  transmitter is only ever started with the receive stream closed and the transmitter down,
  the receive stream is only opened with the transmitter down, and when the thread ends the
  stream is closed and the transmitter has been told to stop.\<close>

theorem daemon_is_half_duplex:
  assumes "serve drv host args he polls = Inr a"
  shows "duplex (False, False) (d_history (fst (a_world a))) = Some (False, False)"
proof -
  obtain settings c d where d: "device_new settings (fst he) = Inr d"
    and a: "a = run_thread (device_env drv host) c (d, snd he) polls"
    using assms by (auto simp: serve_def split: sum.splits)
  have "dev_ok (fst (a_world a)) \<and> \<not> d_rx (fst (a_world a))"
    unfolding a using device_new_ok [OF d] by (intro dev.run_thread_stops) simp_all
  then show ?thesis by (simp add: dev_ok_def duplex_at_def)
qed

text \<open>The receiver flag is the truth about the radio. In every reachable state of the arbiter
  over the device, the arbiter believes the receiver to be running exactly when the device
  holds an open receive stream, and then it also holds the radio.\<close>

theorem receiver_flag_is_true:
  assumes "device_new settings h = Inr d" and "reachable (device_env drv host) c (d, e) a"
  shows "s_rx_running (a_state a) = d_rx (fst (a_world a)) \<and> (d_rx (fst (a_world a)) \<longrightarrow> d_radio (fst (a_world a)))"
  using dev.reachable_streaming [OF _ _ assms(2)] device_new_ok [OF assms(1)]
  by (auto simp: dev_ok_def)

section \<open>What goes over the bus\<close>

lemma tx_transfers_shape:
  assumes "b \<in> set (tx_transfers (pad_to_alignment s))"
  shows "0 < length b \<and> length b \<le> 32768 \<and> length b mod 512 = 0"
proof -
  have "512 dvd length (pad_to_alignment s)" using pad_to_alignment_shape [of s] by (auto simp: dvd_eq_mod_eq_0)
  moreover have "(512 :: nat) dvd 32768" by (simp add: dvd_eq_mod_eq_0)
  ultimately show ?thesis using assms chunk_sizes [of 32768 512 "pad_to_alignment s" b]
    by (auto simp: tx_transfers_def transfer_size_def dvd_eq_mod_eq_0)
qed

lemma concat_replicate_zero: "concat (replicate n (replicate m x)) = replicate (n * m) x"
  by (induction n) (simp_all add: replicate_add [symmetric])

text \<open>C36: Every transfer of a transmission is one the bus accepts, a positive multiple of 512
  bytes and at most 32 KiB, and the frame survives the end of the stream: even if the last
  three transfers are lost when the stream is dropped, what was sent is the whole frame
  followed by silence.\<close>

theorem transfers_carry_the_frame:
  "(\<forall>b \<in> set (tx_transfers (pad_to_alignment s)). 0 < length b \<and> length b \<le> 32768 \<and> length b mod 512 = 0) \<and>
   (\<forall>lost \<le> 3. \<exists>z. concat (take (length (tx_transfers (pad_to_alignment s)) - lost) (tx_transfers (pad_to_alignment s)))
      = s @ replicate z 0)"
proof (intro conjI ballI allI impI)
  fix lost :: nat assume l: "lost \<le> 3"
  obtain z where z: "pad_to_alignment s = s @ replicate z 0" using pad_to_alignment_shape by blast
  define cs where "cs = chunks 32768 (pad_to_alignment s)"
  have "take (length cs + 4 - lost) (cs @ replicate 4 (replicate 32768 (0 :: byte))) =
      cs @ replicate (4 - lost) (replicate 32768 0)"
    using l by (simp add: min_def)
  moreover have "concat cs = s @ replicate z 0" by (simp add: cs_def concat_chunks z)
  ultimately show "\<exists>z. concat (take (length (tx_transfers (pad_to_alignment s)) - lost) (tx_transfers (pad_to_alignment s)))
      = s @ replicate z 0"
    by (intro exI [of _ "z + (4 - lost) * 32768"])
      (simp add: tx_transfers_def transfer_size_def in_flight_transfers_def cs_def [symmetric]
        concat_replicate_zero replicate_add)
qed (use tx_transfers_shape in auto)

section \<open>Air time\<close>

lemma abs_le_sum: "x \<in> set ys \<Longrightarrow> \<bar>x :: int\<bar> \<le> sum_list (map abs ys)"
proof (induction ys)
  case (Cons y ys)
  then show ?case using sum_abs_nonneg [of ys] by auto
qed simp

lemma sample_count_exact:
  assumes k: "2 \<le> k" "k \<le> 20" and t: "nat \<bar>t\<bar> < 2 ^ 40"
  shows "sample_count t (k * 1000000) = k * nat \<bar>t\<bar>"
proof -
  have "rate_ok (k * 1000000)" using k by (simp add: rate_ok_def)
  moreover have "spu_rat (k * 1000000) = of_nat k" by (simp add: spu_rat_def)
  moreover have "to_f64 (of_nat k) = Fin (of_nat k)" using to_f64_of_int [of "int k"] k by simp
  ultimately have s: "samples_per_us (k * 1000000) = Fin (of_nat k)" by (simp add: samples_per_us_eq)
  have "nat \<bar>t\<bar> * k \<le> 2 ^ 40 * 20" using k t by (intro mult_mono) simp_all
  then have "nat \<bar>t\<bar> * k < 2 ^ 53" by simp
  then show ?thesis using f_mul_units [of "nat \<bar>t\<bar>" k] t
    by (simp add: sample_count_def s f64_of_nat_small mult.commute del: f_mul.simps f_round.simps)
qed

lemma length_synthesize_exact:
  assumes k: "2 \<le> k" "k \<le> 20" and "\<forall>t \<in> set ts. nat \<bar>t\<bar> < 2 ^ 40"
  shows "length (synthesize ts (k * 1000000) amp) = 2 * k * nat (sum_list (map abs ts))"
proof -
  have "sum_list (map (\<lambda>t. sample_count t (k * 1000000)) ts) = k * nat (sum_list (map abs ts))"
    using assms(3)
  proof (induction ts)
    case (Cons t ts)
    then show ?case using sum_abs_nonneg [of ts] sample_count_exact [OF k, of t]
      by (simp add: nat_add_distrib distrib_left)
  qed simp
  then show ?thesis by (simp add: length_synthesize)
qed

lemma transmission_sum:
  "sum_list (map abs (transmission_timings ts n g)) = sum_list (map abs ts) * (int n + 1) + int n * int g"
proof (induction n)
  case (Suc n)
  then show ?case by (simp add: transmission_timings_Suc algebra_simps)
qed (simp add: transmission_timings_0)

lemma render_length:
  assumes k: "2 \<le> k" "k \<le> 20" and ts: "\<forall>t \<in> set ts. nat \<bar>t\<bar> < 2 ^ 40" and g: "n = 0 \<or> g < 2 ^ 40"
  shows "length (render_transmission ts n g (k * 1000000) amp) =
     2 * k * nat (sum_list (map abs ts) * (int n + 1) + int n * int g)"
proof -
  have "\<forall>t \<in> set (transmission_timings ts n g). nat \<bar>t\<bar> < 2 ^ 40"
    using ts g
  proof (induction n)
    case (Suc n)
    then show ?case by (cases n) (auto simp: transmission_timings_Suc transmission_timings_0)
  qed (simp add: transmission_timings_0)
  then show ?thesis
    unfolding render_transmission_eq using length_synthesize_exact [OF k] by (simp add: transmission_sum)
qed

text \<open>C19: The air time is what is sent, and a valid request is bounded. At a sample rate of a
  whole number of megahertz, a validated request whose gap total fits an \<open>i64\<close> renders to
  exactly its air time in samples; the buffer handed to the radio is that rendering, all of it,
  followed by fewer than 512 zero bytes that fill the last transfer, and so at most 30 seconds of
  samples and the filling.\<close>

theorem valid_request_buffer:
  assumes "wf_transmit req" "validate req = Inr ()" "int (tx_repeat req) * int (tx_gap_us req) \<le> i64_max"
    and "cfg_sample_rate c = k * 1000000" "2 \<le> k" "k \<le> 20"
  shows "int (length (render_transmission (tx_timings req) (tx_repeat req) (tx_gap_us req)
            (cfg_sample_rate c) (cfg_tx_amplitude c))) = 2 * int k * air_time_us req \<and>
     0 < air_time_us req \<and>
     (\<exists>z < 512. tx_samples c req =
        render_transmission (tx_timings req) (tx_repeat req) (tx_gap_us req) (cfg_sample_rate c) (cfg_tx_amplitude c) @
          replicate z 0) \<and>
     length (tx_samples c req) mod 512 = 0 \<and> length (tx_samples c req) < 2 * k * 30000000 + 512"
proof -
  let ?ts = "tx_timings req" and ?n = "tx_repeat req" and ?g = "tx_gap_us req"
  have acc: "acceptable req" using assms(2) by (simp add: validate_acceptable)
  have le: "true_air_time req \<le> 30000000" and air: "air_time_us req = true_air_time req"
    using acc air_time_cap_le [OF assms(1,3)] air_time_exact [OF assms(1,3)]
    by (auto simp: acceptable_def cap_def i64_max_def)
  define S where "S = sum_list (map abs ?ts)"
  have S: "0 \<le> S" by (simp add: S_def sum_abs_nonneg)
  have "S * 1 \<le> S * (int ?n + 1)" using S by (intro mult_left_mono) simp_all
  moreover have "0 \<le> int ?n * int ?g" by simp
  ultimately have b: "S \<le> 30000000" "int ?n * int ?g \<le> 30000000" "S \<le> true_air_time req"
    using le S unfolding true_air_time_def S_def [symmetric] by linarith+
  have each: "\<bar>t\<bar> \<le> S" if "t \<in> set ?ts" for t using that unfolding S_def by (rule abs_le_sum)
  then have ts: "\<forall>t \<in> set ?ts. nat \<bar>t\<bar> < 2 ^ 40" using b(1) by fastforce
  have g: "?n = 0 \<or> ?g < 2 ^ 40"
  proof (cases "?n = 0")
    case False
    then have "1 * int ?g \<le> int ?n * int ?g" by (intro mult_right_mono) simp_all
    then show ?thesis using b(2) by simp
  qed simp
  have len: "length (render_transmission ?ts ?n ?g (cfg_sample_rate c) (cfg_tx_amplitude c)) = 2 * k * nat (true_air_time req)"
    unfolding assms(4) true_air_time_def using render_length [OF assms(5,6) ts g] by simp
  obtain t where t: "t \<in> set ?ts" "t \<noteq> 0"
    using acc by (cases ?ts) (auto simp: acceptable_def)
  then have pos: "0 < true_air_time req" using each [OF t(1)] b(3) by simp
  define m where "m = 2 * k * nat (true_air_time req)"
  have m: "m \<le> 2 * k * 30000000" unfolding m_def using le by (intro mult_le_mono2) simp
  have int_m: "int m = 2 * int k * air_time_us req" using pos by (simp add: m_def air)
  define r where "r = render_transmission ?ts ?n ?g (cfg_sample_rate c) (cfg_tx_amplitude c)"
  have r: "length r = m" using len by (simp add: r_def m_def)
  obtain z where z: "z < 512" "pad_to_alignment r = r @ replicate z 0" "length (pad_to_alignment r) mod 512 = 0"
    using pad_to_alignment_shape [of r] by auto
  have "length (pad_to_alignment r) = m + z" using r unfolding z(2) by simp
  then have "length (pad_to_alignment r) < 2 * k * 30000000 + 512" using m z(1) by linarith
  moreover have "int (length r) = 2 * int k * air_time_us req" unfolding r by (rule int_m)
  moreover have "0 < air_time_us req" unfolding air by (rule pos)
  moreover have "\<exists>z < 512. pad_to_alignment r = r @ replicate z 0" using z(1,2) by blast
  ultimately show ?thesis using z(3) unfolding tx_samples_def r_def [symmetric] by (intro conjI)
qed

section \<open>From the air to the client and back\<close>

text \<open>C8: What is sent is what every client hears. If an arbiter whose detector is armed reads a
  transfer in which silence, a repeated frame and more silence arrive, it publishes one
  \<open>rx_frame\<close> event per copy, each with the frame's timings to the microsecond and the tuned
  frequency.\<close>

theorem air_to_clients:
  assumes det: "a_detector a = armed c thr" and run: "s_rx_running (a_state a)"
    and rd: "e_read env (a_world a) = (Inr (on_air lead ts n g tail (dc_sample_rate c) amp), w1)"
    and c: "config_ok c" and thr: "0 < thr" "thr \<le> amp_level amp"
    and d: "deliverable (dc_min_us c) (dc_gap_us c) (dc_min_edges c) ts"
    and g: "dc_gap_us c \<le> int g" "dc_min_us c < g" "g < 2 ^ 40"
    and l: "int (dc_min_us c) < lead" "lead < 2 ^ 40" and t: "dc_gap_us c < tail" "tail < 2 ^ 40"
    and w: "length (envelope (on_air lead ts n g tail (dc_sample_rate c) amp)) \<le> dc_window_samples c"
      "length (envelope (on_air lead ts n g tail (dc_sample_rate c) amp)) < 2 ^ 50"
  shows "\<exists>fs. frames (a_out (pump env a)) = frames (a_out a) @ fs \<and>
     map fr_timings fs = replicate (n + 1) ts \<and> (\<forall>f \<in> set fs. fr_frequency f = s_rx_frequency (a_state a))"
proof -
  define bs where "bs = snd (det_push (armed c thr) (on_air lead ts n g tail (dc_sample_rate c) amp))"
  have bs: "map burst_timings bs = replicate (n + 1) ts"
    unfolding bs_def by (rule armed_hears_air [OF c thr d g l t w])
  obtain fs where fs: "hears a fs (receive env a)" "list_all2 (frame_matches (s_rx_frequency (a_state a))) bs fs"
    using receive_hears [OF rd] unfolding det bs_def by blast
  have "map fr_timings fs = map burst_timings bs \<and> (\<forall>f \<in> set fs. fr_frequency f = s_rx_frequency (a_state a))"
    using fs(2) by (induction rule: list_all2_induct) (auto simp: frame_matches_def)
  then show ?thesis using fs(1) run bs by (auto simp: pump_def hears_def ledger_of_def)
qed

text \<open>What the receiver hears, the transmitter accepts. A burst cut from any recording that
  starts in silence is a valid transmit request as it stands, at any frequency the radio can
  tune, provided it lasts no longer than 30 seconds.\<close>

theorem heard_burst_is_transmittable:
  assumes "rate_ok rate" "1 \<le> min_us" "min_us < 2 ^ 40" "length mag < 2 ^ 50" "hd mag < thr"
    and b: "b \<in> set (split_bursts (runs mag thr rate min_us) gap k)" "1 \<le> k"
    and long: "duration_us b \<le> 30000000" and f: "1000000 \<le> freq" "freq \<le> 6000000000"
  shows "validate \<lparr>tx_frequency = freq, tx_timings = b, tx_repeat = 0, tx_gap_us = 0, tx_txvga_db = None, tx_amp = amp\<rparr> = Inr ()"
proof -
  let ?t = "\<lparr>tx_frequency = freq, tx_timings = b, tx_repeat = 0, tx_gap_us = 0, tx_txvga_db = None, tx_amp = amp\<rparr>"
  have "out_ok (runs mag thr rate min_us)" using assms(1-5) by (intro runs_out_ok) auto
  then have "burst_ok (acc_new gap k) b"
    using b(1) by (intro split_bursts_ok) (auto simp: out_ok_def out_ok_runs_pos)
  then have shape: "b \<noteq> []" "0 \<notin> set b" "length b \<le> 4096"
    using b(2) by (auto simp: burst_ok_def timings_wf_def acc_new_def max_burst_edges_def)
  have "in_i64 x" if "x \<in> set b" for x
    using abs_le_sum [OF that] long unfolding duration_us_def in_i64_def i64_min_def i64_max_def by (simp add: abs_le_iff)
  then have wf: "wf_transmit ?t" using f by (simp add: wf_transmit_def u64_max_def u32_max_def)
  have "true_air_time ?t = duration_us b" by (simp add: true_air_time_def duration_us_def)
  then have "air_time_us ?t \<le> 30000000" using air_time_cap_le [OF wf] long by (simp add: i64_max_def)
  then show ?thesis using shape f by (simp add: validate_acceptable acceptable_def)
qed

end
