(* ===== verification/Tuning.thy ===== *)
theory Tuning
  imports Frequencies
begin

text \<open>
  The settings the radio is asked for. The command line, the server and the device each check
  a part: the tuning range at the edges, the gains and the sample rate in the device. Stated
  for any driver: a predicate that survives every driver call with supported settings
  survives the whole daemon. The locale \<open>tuned_radio\<close> carries it through the arbiter.
\<close>

definition freq_ok :: "nat \<Rightarrow> bool" where
  "freq_ok f \<longleftrightarrow> 1000000 \<le> f \<and> f \<le> 6000000000"

text \<open>What a HackRF One can be set to.\<close>

definition supported :: "radio_config \<Rightarrow> bool" where
  "supported c \<longleftrightarrow> freq_ok (rc_frequency_hz c) \<and> 2000000 \<le> rc_sample_rate_hz c \<and> rc_sample_rate_hz c \<le> 20000000 \<and>
     rc_sample_rate_div c = 1 \<and> \<not> rc_antenna_enable c \<and>
     rc_lna_db c \<le> 40 \<and> rc_lna_db c mod 8 = 0 \<and> rc_vga_db c \<le> 62 \<and> rc_vga_db c mod 2 = 0 \<and> rc_txvga_db c \<le> 47"

definition vetted :: "command \<Rightarrow> bool" where
  "vetted cmd = (case cmd of Cmd_Transmit t \<Rightarrow> freq_ok (tx_frequency t) | Cmd_Configure_Rx f en \<Rightarrow> rx_frequency_ok f
     | Cmd_Status \<Rightarrow> True | Cmd_Device_Arrived \<Rightarrow> True)"

section \<open>Through the arbiter\<close>

locale tuned_radio =
  fixes env :: "'w env" and ok :: "'w \<Rightarrow> bool"
  assumes start_rx: "ok w \<Longrightarrow> freq_ok f \<Longrightarrow> ok (snd (e_start_rx env f w))"
    and transmit: "ok w \<Longrightarrow> freq_ok (tp_frequency_hz p) \<Longrightarrow> ok (snd (e_transmit env p samples w))"
    and others: "ok w \<Longrightarrow> ok (snd (e_read env w))" "ok w \<Longrightarrow> ok (snd (e_stop env w))"
      "ok w \<Longrightarrow> ok (snd (e_describe env w))" "ok w \<Longrightarrow> ok (snd (e_now env w))" "ok w \<Longrightarrow> ok (snd (e_now_ms env w))"
      "ok w \<Longrightarrow> ok (e_sleep env n w)" "ok w \<Longrightarrow> ok (snd (e_log_open env w))" "ok w \<Longrightarrow> ok (snd (e_log_append env fr w))"
begin

definition tuned :: "'w arbiter \<Rightarrow> bool" where
  "tuned a \<longleftrightarrow> ok (a_world a) \<and> freq_ok (s_rx_frequency (a_state a))"

lemma tuned_simps [simp]:
  "tuned (emit x a) = tuned a" "tuned (publish a) = tuned a" "tuned (announce d a) = tuned a"
  "tuned (upd count_transmission a) = tuned a" "tuned (upd count_rx_frame a) = tuned a" "tuned (upd enter_fault a) = tuned a"
  "tuned (upd (\<lambda>s. s\<lparr>s_rx_running := b\<rparr>) a) = tuned a" "tuned (a\<lparr>a_detector := det\<rparr>) = tuned a"
  by (simp_all add: tuned_def enter_fault_def)

lemma tuned_act: "tuned a \<Longrightarrow> ok (snd (m (a_world a))) \<Longrightarrow> tuned (snd (act m a))"
  by (simp add: tuned_def)

lemma tuned_back_off: "tuned a \<Longrightarrow> tuned (back_off env a)"
  using others(4) by (simp add: tuned_def)

lemma tuned_fault: "tuned a \<Longrightarrow> tuned (fault env a)"
  by (simp add: fault_def tuned_back_off)

lemma tuned_stop: "tuned a \<Longrightarrow> tuned (snd (act (e_stop env) a))"
  by (intro tuned_act others) (simp_all add: tuned_def)

lemma tuned_send:
  assumes "tuned a" "freq_ok (tx_frequency req)"
  shows "tuned (snd (send env req a))"
proof -
  define a2 where "a2 = snd (act (e_transmit env (tx_params_of (s_config (a_state a)) req)
    (tx_samples (s_config (a_state a)) req)) (announce Transmitting a))"
  define a3 where "a3 = snd (act (e_stop env) a2)"
  have "tuned a2" unfolding a2_def
    using assms by (intro tuned_act transmit) (simp_all add: tuned_def tx_params_of_def)
  then have "tuned a3" unfolding a3_def by (rule tuned_stop)
  then show ?thesis
    by (simp add: send_def Let_def split_beta a2_def [symmetric] a3_def [symmetric] split: sum.split)
qed

lemma tuned_preempt_transmit:
  assumes "tuned a" "freq_ok (tx_frequency req)"
  shows "tuned (snd (preempt_transmit env req a))"
proof (cases "act (e_stop env) a")
  case (Pair r a1)
  then have "tuned a1" using tuned_stop [OF assms(1)] by simp
  then show ?thesis using assms Pair by (simp add: preempt_transmit_def tuned_send split: sum.split)
qed

lemma tuned_start: "tuned a \<Longrightarrow> tuned (snd (act (e_start_rx env (s_rx_frequency (a_state a))) a))"
  by (intro tuned_act start_rx) (simp_all add: tuned_def)

lemma tuned_start_receiver:
  assumes "tuned a"
  shows "tuned (snd (start_receiver env a))"
proof (cases "act (e_start_rx env (s_rx_frequency (a_state a))) a")
  case (Pair r a1)
  then have "tuned a1" using tuned_start [OF assms] by simp
  then show ?thesis using Pair by (cases r) (simp_all add: start_receiver_def tuned_fault)
qed

lemma tuned_configure:
  assumes "tuned a" "rx_frequency_ok f"
  shows "tuned (configure env f en a)"
proof -
  define a1 where "a1 = upd (\<lambda>s. s\<lparr>s_rx_frequency := (case f of Some f \<Rightarrow> f | None \<Rightarrow> s_rx_frequency s), s_rx_enabled := en\<rparr>) a"
  define a2 where "a2 = (if s_rx_running (a_state a1) then upd (\<lambda>s. s\<lparr>s_rx_running := False\<rparr>) (snd (act (e_stop env) a1)) else a1)"
  define a3 where "a3 = upd (\<lambda>s. s\<lparr>s_faulted := False\<rparr>) (a2\<lparr>a_detector := detector_new (cfg_detector (s_config (a_state a2)))\<rparr>)"
  have "tuned a1" using assms by (auto simp: a1_def tuned_def rx_frequency_ok_def freq_ok_def split: option.splits)
  then have "tuned a2" by (simp add: a2_def tuned_stop)
  then have "tuned a3" by (simp add: a3_def tuned_def)
  then have "tuned (snd (if s_rx_enabled (a_state a3) then start_receiver env a3 else (Inr (), a3)))"
    by (simp add: tuned_start_receiver)
  then show ?thesis
    unfolding configure_def Let_def a1_def [symmetric] a2_def [symmetric] a3_def [symmetric]
    by (simp add: split_beta)
qed

lemma tuned_handle_command:
  assumes a: "tuned a" and v: "vetted cmd"
  shows "tuned (handle_command env cmd a)"
proof (cases cmd)
  case (Cmd_Transmit req)
  then show ?thesis using tuned_preempt_transmit [OF a, of req] v
    by (cases "preempt_transmit env req a") (auto simp: handle_command_def vetted_def tuned_fault split: sum.split)
next
  case Cmd_Device_Arrived
  then show ?thesis using a others(4) [of "a_world a"]
    by (simp add: handle_command_def split_beta Let_def tuned_def)
qed (use v a in \<open>simp_all add: handle_command_def tuned_configure vetted_def\<close>)

lemma recorder_write_ok:
  assumes "ok (snd rw)"
  shows "ok (snd (recorder_write env fr rw))"
proof -
  have a: "ok (snd (recorder_append env fr x))" if "ok (snd x)" for x
    using others(8) [OF that, of fr] by (auto simp: recorder_append_def split: prod.split sum.split)
  show ?thesis using others(7) [OF assms] a assms
    by (auto simp: recorder_write_def split: prod.split sum.split)
qed

lemma tuned_deliver_burst:
  assumes "tuned a"
  shows "tuned (deliver_burst env a b)"
proof -
  define a2 where "a2 = snd (act (e_now_ms env) (upd count_rx_frame a))"
  define fr where "fr = \<lparr>fr_frequency = s_rx_frequency (a_state a2), fr_timings = burst_timings b,
      fr_rssi = burst_peak b, fr_timestamp_ms = fst (act (e_now_ms env) (upd count_rx_frame a))\<rparr>"
  have a2: "tuned a2" unfolding a2_def using assms others(5) by (intro tuned_act) (simp_all add: tuned_def)
  have "tuned (a2\<lparr>a_recorder := Some r1, a_world := w1\<rparr>)" if "recorder_write env fr (r, a_world a2) = (r1, w1)" for r r1 w1
    using recorder_write_ok [of "(r, a_world a2)" fr] that a2 by (simp add: tuned_def)
  then show ?thesis using a2
    unfolding deliver_burst_def Let_def split_beta a2_def [symmetric] fr_def [symmetric]
    by (simp add: split_beta split: option.split)
qed

lemma tuned_receive:
  assumes "tuned a"
  shows "tuned (receive env a)"
proof (cases "act (e_read env) a")
  case (Pair r a1)
  have a1: "tuned a1" using tuned_act [OF assms, of "e_read env"] others(1) assms Pair by (simp add: tuned_def)
  have fold: "tuned x \<Longrightarrow> tuned (foldl (deliver_burst env) x bs)" for x bs
    by (induction bs arbitrary: x) (simp_all add: tuned_deliver_burst)
  have "tuned (upd (\<lambda>s. s\<lparr>s_receiving_proven := True, s_backoff := fault_backoff\<rparr>) a1)"
    using a1 by (simp add: tuned_def)
  then show ?thesis using a1 by (cases r) (auto simp: receive_def Pair Let_def split_beta tuned_fault intro!: fold)
qed

lemma tuned_pump:
  assumes "tuned a"
  shows "tuned (pump env a)"
proof (cases "act (e_start_rx env (s_rx_frequency (a_state a))) a")
  case (Pair r a1)
  then have "tuned a1" using tuned_start [OF assms] by simp
  then show ?thesis using assms Pair
    by (cases r) (simp_all add: pump_def tuned_receive tuned_fault)
qed

lemma tuned_retry:
  assumes "tuned a"
  shows "tuned (retry env a)"
proof -
  obtain n a1 where a1: "act (e_now env) a = (n, a1)" by force
  obtain r1 a2 where a2: "act (e_stop env) a1 = (r1, a2)" by force
  obtain r a3 where a3: "act (e_describe env) a2 = (r, a3)" by force
  have t1: "tuned a1" using tuned_act [OF assms, of "e_now env"] others(4) assms a1 by (simp add: tuned_def)
  have t2: "tuned a2" using tuned_stop [OF t1] a2 by simp
  have t3: "tuned a3" using tuned_act [OF t2, of "e_describe env"] others(3) t2 a3 by (simp add: tuned_def)
  have "tuned (a1\<lparr>a_world := e_sleep env fault_poll (a_world a1)\<rparr>)"
    using others(6) t1 by (simp add: tuned_def)
  moreover have "tuned (upd (\<lambda>s. s\<lparr>s_device := Some x, s_faulted := False\<rparr>) a3)" for x
    using t3 by (simp add: tuned_def)
  ultimately show ?thesis using tuned_back_off [OF t3] by (simp add: retry_def a1 a2 a3 split: sum.split)
qed

lemma tuned_loop_step:
  assumes "tuned a" "case p of None \<Rightarrow> True | Some cmd \<Rightarrow> vetted cmd"
  shows "tuned (loop_step env p a)"
proof -
  have "tuned (case p of None \<Rightarrow> a | Some cmd \<Rightarrow> handle_command env cmd a)"
    using assms by (simp add: tuned_handle_command split: option.splits)
  then show ?thesis using assms(1)
    by (simp add: loop_step_def loop_body_def Let_def tuned_retry tuned_pump)
qed

lemma tuned_run_thread:
  assumes "ok w" "freq_ok (cfg_rx_frequency c)" "list_all (\<lambda>p. case p of None \<Rightarrow> True | Some cmd \<Rightarrow> vetted cmd) polls"
  shows "ok (a_world (run_thread env c w polls))"
proof -
  have fold: "tuned a \<Longrightarrow> list_all (\<lambda>p. case p of None \<Rightarrow> True | Some cmd \<Rightarrow> vetted cmd) ps \<Longrightarrow>
      tuned (foldl (\<lambda>a p. loop_step env p a) a ps)" for a ps
    by (induction ps arbitrary: a) (simp_all add: tuned_loop_step)
  have "ok (snd (e_describe env (snd (e_now env w))))" using assms(1) others by blast
  then have "tuned (arbiter_new env c w)"
    using assms(2) by (simp add: arbiter_new_def state_new_def split_beta Let_def tuned_def)
  then have "tuned (foldl (\<lambda>a p. loop_step env p a) (arbiter_new env c w) polls)" using fold assms(3) by blast
  from tuned_stop [OF this] show ?thesis by (simp add: run_thread_def tuned_def)
qed

end

section \<open>The device checks the gains and the rate\<close>

text \<open>A predicate on the driver's state that every call keeps, settings being supported.\<close>

definition driver_keeps :: "'h driver \<Rightarrow> ('h \<Rightarrow> bool) \<Rightarrow> bool" where
  "driver_keeps drv I \<longleftrightarrow> (\<forall>h. I h \<longrightarrow>
     I (snd (drv_open drv h)) \<and> I (snd (drv_scan drv h)) \<and>
     (\<forall>c. supported c \<longrightarrow> I (snd (drv_start_rx drv c h)) \<and> I (snd (drv_start_tx drv c h))) \<and>
     (\<forall>n. I (snd (drv_start_rx_stream drv n h)) \<and> I (snd (drv_read_sync drv n h))) \<and>
     I (drv_drop_rx drv h) \<and> I (snd (drv_start_tx_stream drv h)) \<and> (\<forall>b. I (snd (drv_write_sync drv b h))) \<and>
     I (drv_drop_tx drv h) \<and> I (snd (drv_stop drv h)) \<and> I (snd (drv_board_id drv h)) \<and> I (snd (drv_version drv h)) \<and>
     (\<forall>f. freq_ok f \<longrightarrow> I (snd (drv_set_freq drv f h))))"

lemma driver_keepsD:
  assumes "driver_keeps drv I" "I h"
  shows "I (snd (drv_open drv h))" "I (snd (drv_scan drv h))"
    "supported c \<Longrightarrow> I (snd (drv_start_rx drv c h))" "supported c \<Longrightarrow> I (snd (drv_start_tx drv c h))"
    "I (snd (drv_start_rx_stream drv n h))" "I (snd (drv_read_sync drv n h))" "I (drv_drop_rx drv h)"
    "I (snd (drv_start_tx_stream drv h))" "I (snd (drv_write_sync drv b h))" "I (drv_drop_tx drv h)"
    "I (snd (drv_stop drv h))" "I (snd (drv_board_id drv h))" "I (snd (drv_version drv h))"
    "freq_ok f \<Longrightarrow> I (snd (drv_set_freq drv f h))"
  using assms unfolding driver_keeps_def by blast+

definition dev_set :: "('h \<Rightarrow> bool) \<Rightarrow> 'h device \<Rightarrow> bool" where
  "dev_set I d \<longleftrightarrow> I (d_hw d) \<and> validate_rx_gains (ds_lna_db (d_settings d)) (ds_vga_db (d_settings d)) = Inr () \<and>
     validate_sample_rate (ds_sample_rate (d_settings d)) = Inr ()"

lemma dev_set_on_hw: "dev_set I d \<Longrightarrow> I (snd (f (d_hw d))) \<Longrightarrow> dev_set I (snd (on_hw f d))"
  by (simp add: dev_set_def on_hw_def split_beta)

lemma dev_set_simps [simp]:
  "dev_set I (d\<lparr>d_radio := b\<rparr>) = dev_set I d" "dev_set I (d\<lparr>d_rx := b\<rparr>) = dev_set I d"
  "dev_set I (log_event e d) = dev_set I d"
  by (simp_all add: dev_set_def)

lemma dev_set_hw: "dev_set I d \<Longrightarrow> I (d_hw d)"
  by (simp add: dev_set_def)

lemma ensure_Inr [simp]: "ensure b e = Inr u \<longleftrightarrow> b"
  by (simp add: ensure_def)

lemma supported_config:
  "dev_set I d \<Longrightarrow> freq_ok f \<Longrightarrow> g \<le> 47 \<Longrightarrow> supported (device_config d f g amp)"
  by (auto simp: dev_set_def supported_def device_config_def validate_rx_gains_def validate_sample_rate_def
      split: sum.splits)

lemma and_then_keeps:
  "P (snd (m w)) \<Longrightarrow> (\<And>a w1. m w = (Inr a, w1) \<Longrightarrow> P w1 \<Longrightarrow> P (snd (f a w1))) \<Longrightarrow> P (snd (and_then m f w))"
  by (cases "m w"; cases "fst (m w)") (auto simp: and_then_def)

lemma context_keeps: "P (snd x) \<Longrightarrow> P (snd (case x of (r, d) \<Rightarrow> (add_context c r, d)))"
  by (simp add: split_beta)

lemma snd_case_sum: "snd (case r of Inl e \<Rightarrow> (f e, x) | Inr a \<Rightarrow> (g a, y)) = (case r of Inl e \<Rightarrow> x | Inr a \<Rightarrow> y)"
  by (cases r) simp_all

lemma open_radio_keeps: "driver_keeps drv I \<Longrightarrow> I h \<Longrightarrow> I (snd (open_radio drv h))"
  using driver_keepsD(1,2) [of drv I]
  by (auto simp: open_radio_def split: prod.split sum.split list.split) (metis snd_conv)+

lemma handle_set: "driver_keeps drv I \<Longrightarrow> dev_set I d \<Longrightarrow> dev_set I (snd (handle drv d))"
  using open_radio_keeps [of drv I "d_hw d"]
  by (auto simp: handle_def intro!: and_then_keeps [where P = "dev_set I"] dev_set_on_hw dest: dev_set_hw)

lemma drop_rx_set: "driver_keeps drv I \<Longrightarrow> dev_set I d \<Longrightarrow> dev_set I (drop_rx drv d)"
  using driver_keepsD(7) [of drv I "d_hw d"] by (auto simp: drop_rx_def dev_set_def)

lemma invalidate_set: "driver_keeps drv I \<Longrightarrow> dev_set I d \<Longrightarrow> dev_set I (invalidate drv d)"
  by (simp add: invalidate_def drop_rx_set)

lemma hw_set:
  assumes "driver_keeps drv I" "dev_set I d"
  shows "freq_ok f \<Longrightarrow> dev_set I (snd (on_hw (drv_start_rx drv (device_config d f 0 amp)) d))"
    "freq_ok f \<Longrightarrow> g \<le> 47 \<Longrightarrow> dev_set I (snd (on_hw (drv_start_tx drv (device_config d f g amp)) d))"
    "dev_set I (snd (on_hw (drv_start_rx_stream drv n) d))" "dev_set I (snd (on_hw (drv_read_sync drv n) d))"
    "dev_set I (snd (on_hw (drv_start_tx_stream drv) d))" "dev_set I (snd (on_hw (drv_write_sync drv b) d))"
    "dev_set I (snd (on_hw (drv_stop drv) d))" "dev_set I (snd (on_hw (drv_board_id drv) d))"
    "dev_set I (snd (on_hw (drv_version drv) d))" "dev_set I (d\<lparr>d_hw := drv_drop_tx drv (d_hw d)\<rparr>)"
  using assms driver_keepsD [OF assms(1) dev_set_hw [OF assms(2)]] supported_config [OF assms(2)]
  by (auto intro!: dev_set_on_hw) (simp add: dev_set_def)

lemma dev_start_rx_set:
  assumes k: "driver_keeps drv I" and d: "dev_set I d" and f: "freq_ok f"
  shows "dev_set I (snd (dev_start_rx drv f d))"
  unfolding dev_start_rx_def
proof (rule and_then_keeps [where P = "dev_set I" and m = "handle drv"])
  show "dev_set I (snd (handle drv d))" by (rule handle_set [OF k d])
  fix u d1 assume d1: "dev_set I d1"
  define m where "m = and_then (on_hw (drv_start_rx drv (device_config d1 f 0 (ds_rx_amp (d_settings d1)))))
      (\<lambda>_ d1. (case on_hw (drv_start_rx_stream drv transfer_size) d1 of
         (r, d2) \<Rightarrow> (add_context ''failed to start RX stream'' r, d2))) d1"
  have "dev_set I (snd m)" unfolding m_def
    by (rule and_then_keeps [where P = "dev_set I"], rule hw_set(1) [OF k d1 f])
      (intro context_keeps [where P = "dev_set I"] hw_set(3) [OF k])
  then show "dev_set I (snd (case m of (Inr _, d1) \<Rightarrow> (Inr (), log_event Rx_Opened ((drop_rx drv d1)\<lparr>d_rx := True\<rparr>))
      | (Inl e, d1) \<Rightarrow> (Inl e, invalidate drv d1)))"
    by (auto simp: drop_rx_set [OF k] invalidate_set [OF k] split: prod.split sum.split)
qed

lemma dev_read_set: "driver_keeps drv I \<Longrightarrow> dev_set I d \<Longrightarrow> dev_set I (snd (dev_read drv d))"
  using hw_set(4) [of drv I d transfer_size]
  by (auto simp: dev_read_def invalidate_set split: prod.split sum.split)

lemma dev_stop_set: "driver_keeps drv I \<Longrightarrow> dev_set I d \<Longrightarrow> dev_set I (snd (dev_stop drv d))"
  using hw_set(7) [of drv I "log_event Stop_Asked (drop_rx drv d)"] drop_rx_set [of drv I d]
  by (auto simp: dev_stop_def Let_def invalidate_set split: prod.split sum.split)

lemma write_all_set: "driver_keeps drv I \<Longrightarrow> dev_set I d \<Longrightarrow> dev_set I (snd (write_all drv bs d))"
proof (induction bs arbitrary: d)
  case (Cons b bs)
  then show ?case by (auto intro!: and_then_keeps [where P = "dev_set I"] hw_set(6))
qed simp

lemma tx_session_set:
  assumes k: "driver_keeps drv I" and d: "dev_set I d" and "freq_ok f" "g \<le> 47"
  shows "dev_set I (snd (tx_session drv (device_config d f g amp) samples d))"
proof -
  have c: "device_config (log_event Tx_Started d) f g amp = device_config d f g amp" by (simp add: device_config_def)
  have "dev_set I (snd (on_hw (drv_start_tx drv (device_config d f g amp)) (log_event Tx_Started d)))"
    using hw_set(2) [OF k, of "log_event Tx_Started d" f g amp] d assms(3,4) unfolding c by simp
  then show ?thesis
    unfolding tx_session_def
    by (rule and_then_keeps [where P = "dev_set I"])
      (auto simp: split_beta intro!: and_then_keeps [where P = "dev_set I"] hw_set(5,10) k write_all_set)
qed

lemma dev_transmit_set:
  assumes k: "driver_keeps drv I" and d: "dev_set I d" and f: "freq_ok (tp_frequency_hz p)"
  shows "dev_set I (snd (dev_transmit drv p samples d))"
proof (cases "tp_txvga_db p \<le> 47")
  case False
  then show ?thesis using d by (simp add: dev_transmit_def and_then_def pure_io_def validate_tx_gain_def ensure_def)
next
  case True
  then have v: "and_then (pure_io (validate_tx_gain (tp_txvga_db p))) m d = m () d" for m :: "unit \<Rightarrow> ('a device, unit) io"
    by (simp add: and_then_def pure_io_def validate_tx_gain_def ensure_def)
  show ?thesis unfolding dev_transmit_def v
  proof (rule and_then_keeps [where P = "dev_set I" and m = "handle drv"])
    show "dev_set I (snd (handle drv d))" by (rule handle_set [OF k d])
    fix u d1 assume d1: "dev_set I d1"
    define m where "m = tx_session drv (device_config d1 (tp_frequency_hz p) (tp_txvga_db p) (tp_amp_enable p)) samples d1"
    have "dev_set I (snd m)" unfolding m_def by (rule tx_session_set [OF k d1 f True])
    then have "dev_set I (snd (on_hw (drv_stop drv) (log_event Stop_Asked (snd m))))" by (intro hw_set(7) k) simp
    then show "dev_set I (snd (case m of (result, d1) \<Rightarrow>
          (case on_hw (drv_stop drv) (log_event Stop_Asked d1) of
              (Inl e, d2) \<Rightarrow> (Inl (Context ''failed to stop the transmitter'' e), invalidate drv d2)
            | (Inr _, d2) \<Rightarrow> (result, if is_ok result then d2 else invalidate drv d2))))"
      by (auto simp: invalidate_set [OF k] split: prod.split sum.split)
  qed
qed

lemma dev_describe_set:
  assumes k: "driver_keeps drv I" and d: "dev_set I d"
  shows "dev_set I (snd (dev_describe drv d))"
  unfolding dev_describe_def
proof (rule and_then_keeps [where P = "dev_set I" and m = "handle drv"])
  show "dev_set I (snd (handle drv d))" by (rule handle_set [OF k d])
  fix u d1 assume d1: "dev_set I d1"
  obtain r1 d2 where b: "on_hw (drv_board_id drv) d1 = (r1, d2)" by force
  obtain r2 d3 where v: "on_hw (drv_version drv) d2 = (r2, d3)" by force
  have "dev_set I d2" using hw_set(8) [OF k d1] b by simp
  then have "dev_set I d3" using hw_set(9) [OF k, of d2] v by simp
  then show "dev_set I (snd (case on_hw (drv_board_id drv) d1 of
         (board, d1) \<Rightarrow>
           (case on_hw (drv_version drv) d1 of
              (firmware, d2) \<Rightarrow>
                (case (board, firmware) of
                   (Inr b, Inr f) \<Rightarrow> (Inr (''board '' @ b @ '', firmware '' @ f), d2)
                 | _ \<Rightarrow> (Inl (Message ''HackRF did not answer an identification request'' []), invalidate drv d2)))))"
    using b v by (auto simp: invalidate_set [OF k] split: sum.split)
qed

section \<open>The daemon\<close>

lemma snd_on_device: "snd (on_device f w) = (snd (f (fst w)), snd w)"
  and fst_snd_on_host: "fst (snd (on_host g w)) = fst w"
  by (simp_all add: on_device_def on_host_def split_beta)

interpretation settings: tuned_radio "device_env drv host" "\<lambda>w. driver_keeps drv I \<longrightarrow> dev_set I (fst w)"
  for drv :: "'h driver" and host :: "'e host" and I :: "'h \<Rightarrow> bool"
  by unfold_locales
    (auto simp: device_env_def snd_on_device fst_snd_on_host
      intro: dev_start_rx_set dev_transmit_set dev_read_set dev_stop_set dev_describe_set)

text \<open>The radio is only ever asked for what it can do. Take any predicate on the USB driver's
  state that survives every driver call as long as receiving and transmitting are configured
  with a frequency of 1 MHz to 6 GHz, a sample rate of 2 to 20 Msps, LNA and VGA gains in
  range and in step, a transmit gain of at most 47 dB and the antenna port unpowered. It
  survives the daemon, from start-up to the end of the radio thread, whatever the driver
  answers, for a tuning range checked at the command line and by the server.\<close>

theorem settings_are_supported:
  assumes "driver_keeps drv I" "I (fst he)" "serve drv host args he polls = Inr a"
    and "freq_ok (sa_rx_freq args)" "list_all (\<lambda>p. case p of None \<Rightarrow> True | Some cmd \<Rightarrow> vetted cmd) polls"
  shows "I (d_hw (fst (a_world a)))"
proof -
  obtain s c d where c: "serve_config args = Inr (s, c)" and d: "device_new s (fst he) = Inr d"
    and a: "a = run_thread (device_env drv host) c (d, snd he) polls"
    using assms(3) by (auto simp: serve_def split: sum.splits)
  have "dev_set I d" using d assms(2) by (auto simp: device_new_def dev_set_def split: sum.splits)
  moreover have "freq_ok (cfg_rx_frequency c)"
    using c assms(4) by (auto simp: serve_config_def config_new_def Let_def split: sum.splits)
  ultimately have "dev_set I (fst (a_world a))"
    using settings.tuned_run_thread [of drv I "(d, snd he)" c polls host] assms(1,5) unfolding a by simp
  then show ?thesis by (rule dev_set_hw)
qed

definition agree_on_vetted :: "'s link \<Rightarrow> 's link \<Rightarrow> bool" where
  "agree_on_vetted lk lk2 \<longleftrightarrow>
     (\<forall>t. vetted (Cmd_Transmit t) \<longrightarrow> ask_transmit lk t = ask_transmit lk2 t) \<and>
     (\<forall>f en. vetted (Cmd_Configure_Rx f en) \<longrightarrow> ask_configure lk f en = ask_configure lk2 f en) \<and>
     ask_status lk = ask_status lk2"

lemma validate_vetted: "validate t = Inr () \<Longrightarrow> vetted (Cmd_Transmit t)"
  by (auto simp: validate_def vetted_def freq_ok_def split: if_splits)

text \<open>The server asks the radio thread for nothing else: \<open>dispatch\<close> cannot tell a radio
  thread from one that answers differently on a command outside the tuning range.\<close>

theorem only_vetted_commands:
  assumes "agree_on_vetted lk lk2"
  shows "dispatch lk parse txt s = dispatch lk2 parse txt s"
proof -
  have t: "dispatch_transmit lk i t s = dispatch_transmit lk2 i t s" for i t
    using assms validate_vetted [of t]
    by (cases "validate t") (auto simp: dispatch_transmit_def agree_on_vetted_def)
  have st: "status_reply lk = status_reply lk2"
    using assms by (intro ext) (simp add: status_reply_def agree_on_vetted_def)
  have c: "dispatch_configure lk i c s = dispatch_configure lk2 i c s" for i c
    using assms unfolding dispatch_configure_def st agree_on_vetted_def vetted_def by simp
  show ?thesis by (simp add: dispatch_def t st c split: sum.split request_payload.split)
qed

end
