(* ===== verification/Connection.thy ===== *)
theory Connection
  imports Server "HOL-Library.Sublist"
begin

text \<open>
  \<open>server.rs\<close>, one connection as the three tasks it is: the reader answers requests, the
  forwarder passes events on, the writer owns the socket. Reader and forwarder share a queue
  of bounded length to the writer. A state is what each task waits for at its await point,
  a step is what one task does between two await points, and any interleaving of the steps
  is an execution. The socket, the events and the other users of the radio thread decide
  what is read, what is published and whether a write succeeds. Answering a request is one
  step here: what others ask of the radio thread between its questions is part of the
  link's answers, about which nothing is assumed.
\<close>

section \<open>State\<close>

definition client_queue :: nat where "client_queue = 256"

text \<open>The reader: in \<open>source.next()\<close>, in \<open>outbound.send(reply)\<close>, past the loop with its outcome,
  in \<open>writer.await\<close>, returned.\<close>

datatype reader =
    Reading
  | Replying message
  | Leaving "error + unit"
  | Awaiting_Writer "error + unit"
  | Returned "error + unit"

datatype forwarder = Subscribed | Forwarding message | Forwarder_Ended

text \<open>\<open>cn_queue\<close> is the channel, \<open>cn_writing\<close> whether its receiver still exists,
  \<open>cn_written\<close> what the writer took from it, \<open>cn_sent\<close> the texts on the socket.
  \<open>cn_answers\<close> and \<open>cn_events\<close> record every reply dispatched and every event received.\<close>

record 's conn =
  cn_world :: 's
  cn_reader :: reader
  cn_forwarder :: forwarder
  cn_writing :: bool
  cn_queue :: "message list"
  cn_written :: "message list"
  cn_sent :: "string list"
  cn_answers :: "message list"
  cn_events :: "message list"

definition conn_new :: "'s \<Rightarrow> 's conn" where
  "conn_new s =
     \<lparr>cn_world = s, cn_reader = Reading, cn_forwarder = Subscribed, cn_writing = True, cn_queue = [],
      cn_written = [], cn_sent = [], cn_answers = [], cn_events = []\<rparr>"

text \<open>The senders of the queue: the reader's until it leaves, the forwarder's until it ends.\<close>

definition queue_open :: "'s conn \<Rightarrow> bool" where
  "queue_open c \<longleftrightarrow> cn_forwarder c \<noteq> Forwarder_Ended \<or> (case cn_reader c of
     Reading \<Rightarrow> True | Replying m \<Rightarrow> True | Leaving r \<Rightarrow> True | Awaiting_Writer r \<Rightarrow> False | Returned r \<Rightarrow> False)"

section \<open>Steps\<close>

text \<open>What the socket yields next: the text of a request, nothing to answer, the end.\<close>

definition request_text :: "(byte list \<Rightarrow> string) \<Rightarrow> ws_message \<Rightarrow> string option" where
  "request_text lossy m = (case m of Text t \<Rightarrow> Some t | Binary b \<Rightarrow> Some (lossy b) | _ \<Rightarrow> None)"

inductive reader_step ::
  "'s link \<Rightarrow> (string \<Rightarrow> error + request) \<Rightarrow> (byte list \<Rightarrow> string) \<Rightarrow> 's conn \<Rightarrow> 's conn \<Rightarrow> bool"
  for lk parse lossy where
  answer: "cn_reader c = Reading \<Longrightarrow> request_text lossy m = Some t \<Longrightarrow>
     dispatch lk parse t (cn_world c) = (r, s) \<Longrightarrow>
     reader_step lk parse lossy c (c\<lparr>cn_reader := Replying r, cn_world := s, cn_answers := cn_answers c @ [r]\<rparr>)"
| ignore: "cn_reader c = Reading \<Longrightarrow> m \<in> {Ping, Pong, Raw_Frame} \<Longrightarrow> reader_step lk parse lossy c c"
| close: "cn_reader c = Reading \<Longrightarrow> reader_step lk parse lossy c (c\<lparr>cn_reader := Leaving (Inr ())\<rparr>)"
| broken: "cn_reader c = Reading \<Longrightarrow>
     reader_step lk parse lossy c (c\<lparr>cn_reader := Leaving (Inl (Context ''connection failed'' e))\<rparr>)"
| queue_reply: "cn_reader c = Replying r \<Longrightarrow> cn_writing c \<Longrightarrow> length (cn_queue c) < client_queue \<Longrightarrow>
     reader_step lk parse lossy c (c\<lparr>cn_reader := Reading, cn_queue := cn_queue c @ [r]\<rparr>)"
| reply_refused: "cn_reader c = Replying r \<Longrightarrow> \<not> cn_writing c \<Longrightarrow>
     reader_step lk parse lossy c (c\<lparr>cn_reader := Leaving (Inr ())\<rparr>)"
| leave: "cn_reader c = Leaving r \<Longrightarrow>
     reader_step lk parse lossy c (c\<lparr>cn_reader := Awaiting_Writer r\<rparr>)"
| return: "cn_reader c = Awaiting_Writer r \<Longrightarrow> \<not> cn_writing c \<Longrightarrow>
     reader_step lk parse lossy c (c\<lparr>cn_reader := Returned r\<rparr>)"

text \<open>Past its loop the reader has dropped its sender and called \<open>forwarder.abort()\<close>, which returns at
  once: the forwarder ends, wherever it waits, when the runtime gets to it, and what it does
  until then it still does.\<close>

definition abort_requested :: "reader \<Rightarrow> bool" where
  "abort_requested r \<longleftrightarrow> (case r of Awaiting_Writer x \<Rightarrow> True | Returned x \<Rightarrow> True | _ \<Rightarrow> False)"

lemma abort_requested_simps [simp]:
  "\<not> abort_requested Reading" "\<not> abort_requested (Replying m)" "\<not> abort_requested (Leaving r)"
  "abort_requested (Awaiting_Writer r)" "abort_requested (Returned r)"
  by (simp_all add: abort_requested_def)

inductive forwarder_step :: "'s conn \<Rightarrow> 's conn \<Rightarrow> bool" where
  received: "cn_forwarder c = Subscribed \<Longrightarrow>
     forwarder_step c (c\<lparr>cn_forwarder := Forwarding m, cn_events := cn_events c @ [m]\<rparr>)"
| lagged: "cn_forwarder c = Subscribed \<Longrightarrow> forwarder_step c c"
| closed: "cn_forwarder c = Subscribed \<Longrightarrow> forwarder_step c (c\<lparr>cn_forwarder := Forwarder_Ended\<rparr>)"
| queue_event: "cn_forwarder c = Forwarding m \<Longrightarrow> cn_writing c \<Longrightarrow> length (cn_queue c) < client_queue \<Longrightarrow>
     forwarder_step c (c\<lparr>cn_forwarder := Subscribed, cn_queue := cn_queue c @ [m]\<rparr>)"
| event_refused: "cn_forwarder c = Forwarding m \<Longrightarrow> \<not> cn_writing c \<Longrightarrow>
     forwarder_step c (c\<lparr>cn_forwarder := Forwarder_Ended\<rparr>)"
| aborted: "abort_requested (cn_reader c) \<Longrightarrow> cn_forwarder c \<noteq> Forwarder_Ended \<Longrightarrow>
     forwarder_step c (c\<lparr>cn_forwarder := Forwarder_Ended\<rparr>)"

text \<open>A message that cannot be encoded is skipped; a failed write, or the end of the queue, ends
  the writer and drops the receiver with whatever is queued.\<close>

inductive writer_step :: "(message \<Rightarrow> error + string) \<Rightarrow> 's conn \<Rightarrow> 's conn \<Rightarrow> bool"
  for encode where
  wrote: "cn_writing c \<Longrightarrow> cn_queue c = m # q \<Longrightarrow> encode m = Inr json \<Longrightarrow>
     writer_step encode c (c\<lparr>cn_queue := q, cn_written := cn_written c @ [m], cn_sent := cn_sent c @ [json]\<rparr>)"
| skipped: "cn_writing c \<Longrightarrow> cn_queue c = m # q \<Longrightarrow> encode m = Inl e \<Longrightarrow>
     writer_step encode c (c\<lparr>cn_queue := q, cn_written := cn_written c @ [m]\<rparr>)"
| write_failed: "cn_writing c \<Longrightarrow> cn_queue c = m # q \<Longrightarrow> encode m = Inr json \<Longrightarrow>
     writer_step encode c (c\<lparr>cn_queue := [], cn_writing := False\<rparr>)"
| drained: "cn_writing c \<Longrightarrow> cn_queue c = [] \<Longrightarrow> \<not> queue_open c \<Longrightarrow>
     writer_step encode c (c\<lparr>cn_writing := False\<rparr>)"

text \<open>Other connections use the radio thread meanwhile.\<close>

inductive conn_step ::
  "'s link \<Rightarrow> (string \<Rightarrow> error + request) \<Rightarrow> (byte list \<Rightarrow> string) \<Rightarrow> (message \<Rightarrow> error + string)
    \<Rightarrow> 's conn \<Rightarrow> 's conn \<Rightarrow> bool" for lk parse lossy encode where
  reader: "reader_step lk parse lossy c d \<Longrightarrow> conn_step lk parse lossy encode c d"
| forwarder: "forwarder_step c d \<Longrightarrow> conn_step lk parse lossy encode c d"
| writer: "writer_step encode c d \<Longrightarrow> conn_step lk parse lossy encode c d"
| elsewhere: "conn_step lk parse lossy encode c (c\<lparr>cn_world := s\<rparr>)"

inductive conn_run ::
  "'s link \<Rightarrow> (string \<Rightarrow> error + request) \<Rightarrow> (byte list \<Rightarrow> string) \<Rightarrow> (message \<Rightarrow> error + string)
    \<Rightarrow> 's conn \<Rightarrow> 's conn \<Rightarrow> bool" for lk parse lossy encode c where
  start: "conn_run lk parse lossy encode c c"
| next_step: "conn_run lk parse lossy encode c d \<Longrightarrow> conn_step lk parse lossy encode d e \<Longrightarrow>
     conn_run lk parse lossy encode c e"

section \<open>What is on the socket\<close>

text \<open>The texts a list of messages is written as.\<close>

definition texts_of :: "(message \<Rightarrow> error + string) \<Rightarrow> message list \<Rightarrow> string list" where
  "texts_of encode ms = List.map_filter (\<lambda>m. case encode m of Inl e \<Rightarrow> None | Inr t \<Rightarrow> Some t) ms"

text \<open>What entered the queue, given what a task produced and what it is waiting for: all of it
  but the message in hand; a task that has ended may have dropped one.\<close>

fun replies_entered :: "reader \<Rightarrow> message list \<Rightarrow> message list \<Rightarrow> bool" where
  "replies_entered Reading made rs \<longleftrightarrow> rs = made"
| "replies_entered (Replying m) made rs \<longleftrightarrow> rs @ [m] = made"
| "replies_entered (Leaving r) made rs \<longleftrightarrow> prefix rs made"
| "replies_entered (Awaiting_Writer r) made rs \<longleftrightarrow> prefix rs made"
| "replies_entered (Returned r) made rs \<longleftrightarrow> prefix rs made"

fun events_entered :: "forwarder \<Rightarrow> message list \<Rightarrow> message list \<Rightarrow> bool" where
  "events_entered Subscribed got es \<longleftrightarrow> es = got"
| "events_entered (Forwarding m) got es \<longleftrightarrow> es @ [m] = got"
| "events_entered Forwarder_Ended got es \<longleftrightarrow> prefix es got"

text \<open>Once the reader has returned, the writer has ended.\<close>

fun cleaned_up :: "reader \<Rightarrow> bool \<Rightarrow> bool" where
  "cleaned_up (Returned r) w \<longleftrightarrow> \<not> w"
| "cleaned_up _ w \<longleftrightarrow> True"

lemma snoc_prefix: "xs @ [x] = ys \<Longrightarrow> prefix xs ys"
  by auto

lemma events_entered_prefix: "events_entered f got es \<Longrightarrow> prefix es got"
  by (cases f) auto

text \<open>\<open>rs\<close> and \<open>es\<close> are the replies and events that entered the queue.\<close>

definition conn_ok :: "(message \<Rightarrow> error + string) \<Rightarrow> 's conn \<Rightarrow> message list \<Rightarrow> message list \<Rightarrow> bool" where
  "conn_ok encode c rs es \<longleftrightarrow>
     (\<exists>lost. cn_written c @ cn_queue c @ lost \<in> shuffles rs es \<and> (cn_writing c \<longrightarrow> lost = [])) \<and>
     cn_sent c = texts_of encode (cn_written c) \<and>
     length (cn_queue c) \<le> client_queue \<and>
     replies_entered (cn_reader c) (cn_answers c) rs \<and> events_entered (cn_forwarder c) (cn_events c) es \<and>
     cleaned_up (cn_reader c) (cn_writing c)"

lemma snoc_shuffles: "ys @ [x] \<in> shuffles [x] ys"
  by (induction ys) auto

lemma shuffles_snoc_left: "zs \<in> shuffles xs ys \<Longrightarrow> zs @ [x] \<in> shuffles (xs @ [x]) ys"
proof (induction xs ys arbitrary: zs rule: shuffles.induct)
  case (1 ys)
  then show ?case using snoc_shuffles by simp
next
  case (2 xs)
  then show ?case by simp
next
  case (3 a as b bs)
  then show ?case by auto
qed

lemma shuffles_snoc_right: "zs \<in> shuffles xs ys \<Longrightarrow> zs @ [y] \<in> shuffles xs (ys @ [y])"
  using shuffles_snoc_left [of zs ys xs y] by (simp add: shuffles_commutes)

lemma texts_of_snoc: "texts_of encode (ms @ [m]) = texts_of encode ms @ (case encode m of Inl e \<Rightarrow> [] | Inr t \<Rightarrow> [t])"
  by (simp add: texts_of_def filter_map_append map_filter_simps split: sum.split)

lemma conn_ok_new: "conn_ok encode (conn_new s) [] []"
  by (simp add: conn_ok_def conn_new_def texts_of_def map_filter_simps)

lemma reader_step_ok:
  assumes "conn_ok encode c rs es" "reader_step lk parse lossy c d"
  shows "\<exists>rs1. conn_ok encode d rs1 es"
  using assms(2,1)
proof (cases rule: reader_step.cases)
  case (queue_reply r)
  then have "conn_ok encode d (rs @ [r]) es"
    using assms(1) shuffles_snoc_left [of "cn_written c @ cn_queue c" rs es r]
    by (auto simp: conn_ok_def)
  then show ?thesis ..
qed (rule exI [of _ rs], use assms(1) events_entered_prefix in \<open>auto simp: conn_ok_def dest: snoc_prefix\<close>)+

lemma forwarder_step_ok:
  assumes "conn_ok encode c rs es" "forwarder_step c d"
  shows "\<exists>es1. conn_ok encode d rs es1"
  using assms(2)
proof (cases rule: forwarder_step.cases)
  case (queue_event m)
  then have "conn_ok encode d rs (es @ [m])"
    using assms(1) shuffles_snoc_right [of "cn_written c @ cn_queue c" rs es m]
    by (cases "cn_reader c") (auto simp: conn_ok_def)
  then show ?thesis ..
qed (rule exI [of _ es], use assms(1) in \<open>cases "cn_reader c"; auto simp: conn_ok_def dest: snoc_prefix events_entered_prefix\<close>)+

lemma writer_step_ok:
  assumes ok: "conn_ok encode c rs es" and step: "writer_step encode c d"
  shows "conn_ok encode d rs es"
proof -
  obtain lost where lost: "cn_written c @ cn_queue c @ lost \<in> shuffles rs es" "cn_writing c \<longrightarrow> lost = []"
    using ok by (auto simp: conn_ok_def)
  show ?thesis using step
  proof (cases rule: writer_step.cases)
    case (write_failed m q json)
    have "cn_written d @ cn_queue d @ (m # q) \<in> shuffles rs es" using lost write_failed by simp
    then show ?thesis using ok write_failed(1) unfolding conn_ok_def
      by (cases "cn_reader c") (auto simp: client_queue_def)
  next
    case (wrote m q json)
    then show ?thesis using ok lost unfolding conn_ok_def by (cases "cn_reader c") (auto simp: texts_of_snoc)
  next
    case (skipped m q e)
    then show ?thesis using ok lost unfolding conn_ok_def by (cases "cn_reader c") (auto simp: texts_of_snoc)
  next
    case drained
    then have "cn_written d @ cn_queue d @ [] \<in> shuffles rs es" using lost by simp
    then show ?thesis using ok drained unfolding conn_ok_def by (cases "cn_reader c") (auto intro!: exI [of _ "[]"])
  qed
qed

lemma conn_step_ok:
  assumes "conn_step lk parse lossy encode c d" "conn_ok encode c rs es"
  shows "\<exists>rs1 es1. conn_ok encode d rs1 es1"
  using assms(1)
proof (cases rule: conn_step.cases)
  case reader
  then show ?thesis using reader_step_ok [OF assms(2)] by blast
next
  case forwarder
  then show ?thesis using forwarder_step_ok [OF assms(2)] by blast
next
  case writer
  then show ?thesis using writer_step_ok [OF assms(2)] by blast
next
  case (elsewhere s)
  then have "conn_ok encode d rs es" using assms(2) by (simp add: conn_ok_def)
  then show ?thesis by blast
qed

lemma conn_run_ok: "conn_run lk parse lossy encode (conn_new s) c \<Longrightarrow> \<exists>rs es. conn_ok encode c rs es"
proof (induction rule: conn_run.induct)
  case start
  show ?case by (rule exI)+ (rule conn_ok_new)
next
  case (next_step d e)
  then show ?case using conn_step_ok by blast
qed

text \<open>C26: A client sees an interleaving of its replies and the events, whatever the timing. In
  every execution of a connection's three tasks the texts on the socket are the encodings of
  messages which, with what is still queued, are an interleaving of a prefix of the replies in
  the order of the requests and a prefix of the events in the order published; and the queue
  never holds more than 256 messages.\<close>

theorem socket_carries_replies_and_events:
  assumes "conn_run lk parse lossy encode (conn_new s) c"
  shows "cn_sent c = texts_of encode (cn_written c) \<and> length (cn_queue c) \<le> 256 \<and>
     (\<exists>rs es lost. cn_written c @ cn_queue c @ lost \<in> shuffles rs es \<and> (cn_writing c \<longrightarrow> lost = []) \<and>
        prefix rs (cn_answers c) \<and> prefix es (cn_events c))"
proof -
  obtain rs es where ok: "conn_ok encode c rs es" using conn_run_ok [OF assms] by blast
  have "prefix rs (cn_answers c)" using ok by (cases "cn_reader c") (auto simp: conn_ok_def dest: snoc_prefix)
  then show ?thesis using ok events_entered_prefix [of "cn_forwarder c" "cn_events c" es]
    unfolding conn_ok_def client_queue_def by blast
qed

section \<open>Closing\<close>

text \<open>How many steps a connection past its read loop still takes, but for what its forwarder still
  receives before the abort reaches it.\<close>

definition closing_work :: "'s conn \<Rightarrow> nat" where
  "closing_work c = length (cn_queue c) + (if cn_writing c then 1 else 0) +
     (case cn_forwarder c of Forwarding m \<Rightarrow> 3 | Subscribed \<Rightarrow> 1 | Forwarder_Ended \<Rightarrow> 0) +
     (case cn_reader c of Awaiting_Writer r \<Rightarrow> 1 | _ \<Rightarrow> 0)"

text \<open>A last event, or a notice of lost ones, for a forwarder that has not been reached by the abort.\<close>

definition still_listening :: "'s conn \<Rightarrow> 's conn \<Rightarrow> bool" where
  "still_listening c d \<longleftrightarrow> cn_forwarder c = Subscribed \<and>
     (d = c \<or> (\<exists>m. d = c\<lparr>cn_forwarder := Forwarding m, cn_events := cn_events c @ [m]\<rparr>))"

text \<open>The read loop's outcome, kept until it is returned.\<close>

definition outcome_kept :: "error + unit \<Rightarrow> reader \<Rightarrow> bool" where
  "outcome_kept r x \<longleftrightarrow> x = Awaiting_Writer r \<or> x = Returned r"

lemma outcome_kept_aborts: "outcome_kept r x \<Longrightarrow> abort_requested x"
  by (auto simp: outcome_kept_def)

lemma closing_step:
  assumes "outcome_kept r (cn_reader c)" "conn_step lk parse lossy encode c d"
  shows "outcome_kept r (cn_reader d) \<and>
     (closing_work d < closing_work c \<or> still_listening c d \<or> (\<exists>s. d = c\<lparr>cn_world := s\<rparr>))"
  using assms(2)
proof (cases rule: conn_step.cases)
  case reader
  then show ?thesis using assms(1)
    by (cases rule: reader_step.cases) (auto simp: closing_work_def outcome_kept_def)
next
  case forwarder
  then show ?thesis using assms(1)
    by (cases rule: forwarder_step.cases) (auto simp: closing_work_def still_listening_def split: forwarder.splits)
next
  case writer
  then show ?thesis using assms(1) by (cases rule: writer_step.cases) (auto simp: closing_work_def)
qed (use assms in auto)

lemma closing_enabled:
  assumes "outcome_kept r (cn_reader c)" "cn_reader c = Awaiting_Writer r \<or> cn_writing c \<or> cn_forwarder c \<noteq> Forwarder_Ended"
  shows "\<exists>d. conn_step lk parse lossy encode c d \<and> closing_work d < closing_work c"
proof (cases "cn_forwarder c = Forwarder_Ended")
  case False
  note step = conn_step.forwarder [OF forwarder_step.aborted, OF outcome_kept_aborts [OF assms(1)] False]
  show ?thesis by (rule exI, rule conjI, rule step) (use False in \<open>simp add: closing_work_def split: forwarder.split\<close>)
next
  case f: True
  show ?thesis
  proof (cases "cn_writing c")
    case False
    then have "cn_reader c = Awaiting_Writer r" using assms f by simp
    note step = conn_step.reader [OF reader_step.return, OF this False]
    show ?thesis by (rule exI, rule conjI, rule step) (simp add: closing_work_def \<open>cn_reader c = Awaiting_Writer r\<close>)
  next
    case w: True
    show ?thesis
    proof (cases "cn_queue c")
      case Nil
      have "\<not> queue_open c" using assms(1) f by (auto simp: queue_open_def outcome_kept_def)
      note step = conn_step.writer [OF writer_step.drained, OF w Nil this]
      show ?thesis by (rule exI, rule conjI, rule step) (simp add: closing_work_def w)
    next
      case (Cons m q)
      obtain d where "writer_step encode c d" "cn_queue d = q" "cn_reader d = cn_reader c"
        "cn_writing d = cn_writing c" "cn_forwarder d = cn_forwarder c"
        using writer_step.wrote [OF w Cons] writer_step.skipped [OF w Cons] by (cases "encode m") fastforce+
      then show ?thesis using Cons
        by (intro exI [of _ d] conjI conn_step.writer) (auto simp: closing_work_def)
    qed
  qed
qed

lemma conn_run_trans:
  "conn_run lk parse lossy encode d e \<Longrightarrow> conn_run lk parse lossy encode c d \<Longrightarrow> conn_run lk parse lossy encode c e"
  by (induction rule: conn_run.induct) (auto intro: conn_run.next_step)

lemma conn_run_step: "conn_step lk parse lossy encode c d \<Longrightarrow> conn_run lk parse lossy encode c d"
  by (rule conn_run.next_step [OF conn_run.start])

text \<open>What follows a state past the read loop keeps its outcome, and some of it reaches the end.\<close>

lemma closing_outcome:
  assumes "conn_run lk parse lossy encode c d" "outcome_kept r (cn_reader c)"
  shows "outcome_kept r (cn_reader d)"
  using assms by (induction rule: conn_run.induct) (auto dest: closing_step)

lemma closing_finishes:
  assumes "outcome_kept r (cn_reader c)"
  shows "\<exists>d. conn_run lk parse lossy encode c d \<and> cn_reader d = Returned r \<and> cn_forwarder d = Forwarder_Ended \<and> \<not> cn_writing d"
  using assms
proof (induction "closing_work c" arbitrary: c rule: less_induct)
  case less
  show ?case
  proof (cases "cn_reader c = Awaiting_Writer r \<or> cn_writing c \<or> cn_forwarder c \<noteq> Forwarder_Ended")
    case True
    obtain d where d: "conn_step lk parse lossy encode c d" "closing_work d < closing_work c"
      using closing_enabled [OF less.prems True] by blast
    have "outcome_kept r (cn_reader d)" using closing_step [OF less.prems d(1)] by blast
    then show ?thesis using less.hyps [OF d(2)] conn_run_trans [OF _ conn_run_step [OF d(1)]] by blast
  next
    case False
    then have "cn_reader c = Returned r" "\<not> cn_writing c" "cn_forwarder c = Forwarder_Ended"
      using less.prems by (auto simp: outcome_kept_def)
    then show ?thesis using conn_run.start by blast
  qed
qed

text \<open>C32: A connection that leaves its read loop ends with that loop's outcome, unless its socket
  neither takes nor refuses a write. Aborting the forwarder takes effect at some later moment; until
  then it may still receive events. Whatever happens from a state where the reader awaits the
  writer, every step of the connection but such a receive brings the end nearer, with at most
  261 units to go; a step that does is always possible; from this very state some execution
  leads to the end, with the outcome returned, forwarder and writer gone; and no
  execution from it changes the outcome.\<close>

theorem closing_connection_ends:
  assumes run: "conn_run lk parse lossy encode (conn_new s) c" and r: "cn_reader c = Awaiting_Writer r"
  shows "closing_work c \<le> 261 \<and>
     (\<forall>d. conn_step lk parse lossy encode c d \<longrightarrow>
        closing_work d < closing_work c \<or> still_listening c d \<or> (\<exists>s1. d = c\<lparr>cn_world := s1\<rparr>)) \<and>
     (\<exists>d. conn_step lk parse lossy encode c d \<and> closing_work d < closing_work c) \<and>
     (\<exists>d. conn_run lk parse lossy encode c d \<and> cn_reader d = Returned r \<and>
        cn_forwarder d = Forwarder_Ended \<and> \<not> cn_writing d) \<and>
     (\<forall>d. conn_run lk parse lossy encode c d \<longrightarrow> cn_reader d = Awaiting_Writer r \<or> cn_reader d = Returned r)"
proof -
  have kept: "outcome_kept r (cn_reader c)" using r by (simp add: outcome_kept_def)
  obtain rs es where "conn_ok encode c rs es" using conn_run_ok [OF run] by blast
  then have "length (cn_queue c) \<le> 256" by (simp add: conn_ok_def client_queue_def)
  then have "closing_work c \<le> 261" using r by (simp add: closing_work_def split: forwarder.split)
  moreover note closing_step [OF kept] closing_enabled [OF kept disjI1 [OF r]] closing_finishes [OF kept]
  moreover have "cn_reader d = Awaiting_Writer r \<or> cn_reader d = Returned r" if "conn_run lk parse lossy encode c d" for d
    using closing_outcome [OF that kept] by (simp add: outcome_kept_def)
  ultimately show ?thesis by blast
qed

text \<open>A client that stops reading is not disconnected. With its queue full and both
  producers holding a message, no task but the writer can move: the connection waits for the
  socket.\<close>

theorem full_queue_blocks:
  assumes "length (cn_queue c) = 256" "cn_reader c = Replying m" "cn_forwarder c = Forwarding e" "cn_writing c"
  shows "\<not> reader_step lk parse lossy c d \<and> \<not> forwarder_step c d"
  using assms by (auto simp: client_queue_def elim: reader_step.cases forwarder_step.cases)

section \<open>Accepting connections\<close>

text \<open>\<open>serve\<close>: a task per accepted connection, failures survived, until the shutdown.\<close>

datatype 'p accept_event = Client_Accepted 'p | Accept_Failed error | Shut_Down

fun accept_loop :: "'p accept_event list \<Rightarrow> 'p list" where
  "accept_loop [] = []"
| "accept_loop (Client_Accepted peer # es) = peer # accept_loop es"
| "accept_loop (Accept_Failed e # es) = accept_loop es"
| "accept_loop (Shut_Down # es) = []"

lemma accept_loop_until_shutdown:
  "Client_Accepted p \<in> set (takeWhile (\<lambda>e. e \<noteq> Shut_Down) es) \<longleftrightarrow> p \<in> set (accept_loop es)"
  by (induction es rule: accept_loop.induct) auto

end
