(* ===== verification/Capture.thy ===== *)
theory Capture
  imports Radio_Device
begin

text \<open>
  \<open>radio.rs\<close>, the two field tools: \<open>capture\<close> streams samples to a file with a level report
  once per second, \<open>scan\<close> dwells on each frequency in turn and reports its levels. Both loop
  until enough bytes have arrived, which a driver that keeps answering with nothing would
  make endless: the loops are partial functions, \<open>None\<close> for not returning. What is printed is
  a value: the reports and the readings.
\<close>

section \<open>Capture\<close>

definition saturated :: nat where "saturated = 250"

record capture_params =
  cp_frequency_hz :: nat
  cp_sample_rate :: nat
  cp_lna_db :: nat
  cp_vga_db :: nat
  cp_amp_enable :: bool
  cp_seconds :: f64

text \<open>The output file behind its buffered writer; dropping the writer flushes what it can.\<close>

record 'f file_host =
  fl_create :: "('f, unit) io"
  fl_write_all :: "byte list \<Rightarrow> ('f, unit) io"
  fl_flush :: "('f, unit) io"
  fl_drop :: "'f \<Rightarrow> 'f"

text \<open>\<open>(seconds * f64::from(rate)) as usize * BYTES_PER_SAMPLE\<close>; the product wraps in the
  release profile.\<close>

definition byte_budget :: "f64 \<Rightarrow> nat \<Rightarrow> nat" where
  "byte_budget seconds rate = f_as_u64 (f_mul seconds (f64_of_nat rate)) * 2 mod 2 ^ 64"

text \<open>The running levels, and the reports: bytes written, peak, whether it clipped.\<close>

record meter =
  m_written :: nat
  m_interval_peak :: nat
  m_interval_bytes :: nat
  m_overall_peak :: nat
  m_reports :: "(nat \<times> nat \<times> bool) list"

definition meter_new :: meter where
  "meter_new = \<lparr>m_written = 0, m_interval_peak = 0, m_interval_bytes = 0, m_overall_peak = 0, m_reports = []\<rparr>"

definition meter_chunk :: "nat \<Rightarrow> byte list \<Rightarrow> meter \<Rightarrow> meter" where
  "meter_chunk bytes_per_second chunk m =
     (let peak = peak_magnitude chunk;
          m1 = m\<lparr>m_interval_peak := max (m_interval_peak m) peak,
                 m_overall_peak := max (m_overall_peak m) peak,
                 m_written := m_written m + length chunk,
                 m_interval_bytes := m_interval_bytes m + length chunk\<rparr>
      in if bytes_per_second \<le> m_interval_bytes m1
         then m1\<lparr>m_reports := m_reports m1 @ [(m_written m1, m_interval_peak m1, saturated \<le> m_interval_peak m1)],
                 m_interval_peak := 0, m_interval_bytes := 0\<rparr>
         else m1)"

definition capture_chunk ::
  "'h driver \<Rightarrow> 'f file_host \<Rightarrow> nat \<Rightarrow> nat \<Rightarrow> meter \<Rightarrow> ('h \<times> 'f, meter) io" where
  "capture_chunk drv fl total_bytes bytes_per_second m =
     and_then (on_device (drv_read_sync drv (min (total_bytes - m_written m) transfer_size))) (\<lambda>chunk.
     and_then (on_host (fl_write_all fl chunk)) (\<lambda>_.
       pure_io (Inr (meter_chunk bytes_per_second chunk m))))"

partial_function (option) capture_loop ::
  "'h driver \<Rightarrow> 'f file_host \<Rightarrow> nat \<Rightarrow> nat \<Rightarrow> meter \<Rightarrow> 'h \<times> 'f \<Rightarrow> ((error + meter) \<times> ('h \<times> 'f)) option" where
  "capture_loop drv fl total_bytes bytes_per_second m w =
     (if m_written m < total_bytes
      then (case capture_chunk drv fl total_bytes bytes_per_second m w of
              (r, w1) \<Rightarrow> (case r of Inl e \<Rightarrow> Some (Inl e, w1)
                         | Inr m1 \<Rightarrow> capture_loop drv fl total_bytes bytes_per_second m1 w1))
      else Some (Inr m, w))"

text \<open>Leaving the function drops the stream, which stops the receiver, and the file.\<close>

definition close_stream :: "'h driver \<Rightarrow> 'h \<times> 'f \<Rightarrow> 'h \<times> 'f" where
  "close_stream drv w = (drv_drop_rx drv (fst w), snd w)"

definition close_file :: "'f file_host \<Rightarrow> 'h \<times> 'f \<Rightarrow> 'h \<times> 'f" where
  "close_file fl w = (fst w, fl_drop fl (snd w))"

definition capture_stream ::
  "'h driver \<Rightarrow> 'f file_host \<Rightarrow> capture_params \<Rightarrow> 'h \<times> 'f \<Rightarrow> ((error + meter) \<times> ('h \<times> 'f)) option" where
  "capture_stream drv fl p w =
     (case on_host (fl_create fl) w of
        (Inl e, w1) \<Rightarrow> Some (Inl (Context ''create'' e), close_stream drv w1)
      | (Inr _, w1) \<Rightarrow>
          (case capture_loop drv fl (byte_budget (cp_seconds p) (cp_sample_rate p)) (cp_sample_rate p * 2) meter_new w1 of
             None \<Rightarrow> None
           | Some (Inl e, w2) \<Rightarrow> Some (Inl e, close_stream drv (close_file fl w2))
           | Some (Inr m, w2) \<Rightarrow>
               (case on_host (fl_flush fl) (close_stream drv w2) of
                  (Inl e, w3) \<Rightarrow> Some (Inl e, close_file fl w3)
                | (Inr _, w3) \<Rightarrow> Some (Inr m, close_file fl w3))))"

definition capture_open :: "'h driver \<Rightarrow> capture_params \<Rightarrow> ('h, unit) io" where
  "capture_open drv p =
     and_then (pure_io (validate_rx_gains (cp_lna_db p) (cp_vga_db p))) (\<lambda>_.
     and_then (pure_io (validate_sample_rate (cp_sample_rate p))) (\<lambda>_.
     and_then (open_radio drv) (\<lambda>_.
     and_then (drv_start_rx drv
       \<lparr>rc_lna_db = cp_lna_db p, rc_vga_db = cp_vga_db p, rc_txvga_db = 0, rc_amp_enable = cp_amp_enable p,
        rc_antenna_enable = False, rc_frequency_hz = cp_frequency_hz p,
        rc_sample_rate_hz = cp_sample_rate p, rc_sample_rate_div = 1\<rparr>) (\<lambda>_ h.
     case drv_start_rx_stream drv transfer_size h of
       (r, h1) \<Rightarrow> (add_context ''failed to start RX stream'' r, h1)))))"

definition capture ::
  "'h driver \<Rightarrow> 'f file_host \<Rightarrow> capture_params \<Rightarrow> 'h \<times> 'f \<Rightarrow> ((error + meter) \<times> ('h \<times> 'f)) option" where
  "capture drv fl p w =
     (case on_device (capture_open drv p) w of
        (Inl e, w1) \<Rightarrow> Some (Inl e, w1)
      | (Inr _, w1) \<Rightarrow> capture_stream drv fl p w1)"

section \<open>Scan\<close>

record scan_params =
  sp_frequencies :: "nat list"
  sp_sample_rate :: nat
  sp_lna_db :: nat
  sp_vga_db :: nat
  sp_amp_enable :: bool
  sp_dwell_seconds :: f64
  sp_passes :: nat

partial_function (option) dwell_loop ::
  "'h driver \<Rightarrow> nat \<Rightarrow> nat \<Rightarrow> amplitude_histogram \<Rightarrow> 'h \<Rightarrow> ((error + amplitude_histogram) \<times> 'h) option" where
  "dwell_loop drv dwell_bytes collected hist h =
     (if collected < dwell_bytes
      then (case drv_read_sync drv (min (dwell_bytes - collected) transfer_size) h of
              (r, h1) \<Rightarrow> (case r of Inl e \<Rightarrow> Some (Inl e, h1)
                         | Inr chunk \<Rightarrow> dwell_loop drv dwell_bytes (collected + length chunk) (add_iq hist chunk) h1))
      else Some (Inr hist, h))"

text \<open>What is printed: one row per pass, a peak and a signal level per frequency.\<close>

record scan_report =
  sr_rows :: "(nat \<times> nat) list list"
  sr_saturated_bands :: nat

text \<open>One frequency: retune, discard a transfer, dwell.\<close>

definition scan_band :: "'h driver \<Rightarrow> nat \<Rightarrow> nat \<Rightarrow> 'h \<Rightarrow> ((error + amplitude_histogram) \<times> 'h) option" where
  "scan_band drv dwell_bytes frequency h =
     (case and_then (drv_set_freq drv frequency) (\<lambda>_. drv_read_sync drv transfer_size) h of
        (Inl e, h1) \<Rightarrow> Some (Inl e, h1)
      | (Inr _, h1) \<Rightarrow> dwell_loop drv dwell_bytes 0 hist_new h1)"

fun scan_pass ::
  "'h driver \<Rightarrow> nat \<Rightarrow> nat list \<Rightarrow> (nat \<times> nat) list \<Rightarrow> nat \<Rightarrow> 'h \<Rightarrow> ((error + (nat \<times> nat) list \<times> nat) \<times> 'h) option" where
  "scan_pass drv dwell_bytes [] row bands h = Some (Inr (row, bands), h)"
| "scan_pass drv dwell_bytes (frequency # rest) row bands h =
     (case scan_band drv dwell_bytes frequency h of
        None \<Rightarrow> None
      | Some (Inl e, h1) \<Rightarrow> Some (Inl e, h1)
      | Some (Inr hist, h1) \<Rightarrow>
          (let sig = signal (hist_levels hist (to_f64 (1/2)))
           in scan_pass drv dwell_bytes rest (row @ [(hist_peak hist, sig)])
                (if saturated \<le> sig then bands + 1 else bands) h1))"

fun scan_passes ::
  "'h driver \<Rightarrow> nat \<Rightarrow> nat list \<Rightarrow> nat \<Rightarrow> scan_report \<Rightarrow> 'h \<Rightarrow> ((error + scan_report) \<times> 'h) option" where
  "scan_passes drv dwell_bytes frequencies 0 sr h = Some (Inr sr, h)"
| "scan_passes drv dwell_bytes frequencies (Suc passes) sr h =
     (case scan_pass drv dwell_bytes frequencies [] (sr_saturated_bands sr) h of
        None \<Rightarrow> None
      | Some (Inl e, h1) \<Rightarrow> Some (Inl e, h1)
      | Some (Inr (row, bands), h1) \<Rightarrow>
          scan_passes drv dwell_bytes frequencies passes \<lparr>sr_rows = sr_rows sr @ [row], sr_saturated_bands = bands\<rparr> h1)"

definition scan_open :: "'h driver \<Rightarrow> scan_params \<Rightarrow> ('h, unit) io" where
  "scan_open drv p =
     and_then (pure_io (validate_rx_gains (sp_lna_db p) (sp_vga_db p))) (\<lambda>_.
     and_then (pure_io (validate_sample_rate (sp_sample_rate p))) (\<lambda>_.
     and_then (pure_io (ensure (sp_frequencies p \<noteq> []) (Message ''no frequencies to scan'' []))) (\<lambda>_.
     and_then (open_radio drv) (\<lambda>_.
     and_then (drv_start_rx drv
       \<lparr>rc_lna_db = sp_lna_db p, rc_vga_db = sp_vga_db p, rc_txvga_db = 0, rc_amp_enable = sp_amp_enable p,
        rc_antenna_enable = False, rc_frequency_hz = hd (sp_frequencies p),
        rc_sample_rate_hz = sp_sample_rate p, rc_sample_rate_div = 1\<rparr>) (\<lambda>_.
     drv_start_rx_stream drv transfer_size)))))"

definition scan :: "'h driver \<Rightarrow> scan_params \<Rightarrow> 'h \<Rightarrow> ((error + scan_report) \<times> 'h) option" where
  "scan drv p h =
     (case scan_open drv p h of
        (Inl e, h1) \<Rightarrow> Some (Inl e, h1)
      | (Inr _, h1) \<Rightarrow>
          map_option (\<lambda>(r, h2). (r, drv_drop_rx drv h2))
            (scan_passes drv (byte_budget (sp_dwell_seconds p) (sp_sample_rate p)) (sp_frequencies p) (sp_passes p)
               \<lparr>sr_rows = [], sr_saturated_bands = 0\<rparr> h1))"

section \<open>A driver that answers reads\<close>

text \<open>What the tools expect of \<open>read_sync\<close>, which they ask for whole samples only: an answer is
  whole samples, at least one and no more than asked for.\<close>

definition delivers :: "'h driver \<Rightarrow> bool" where
  "delivers drv \<longleftrightarrow> (\<forall>n h c h1. 0 < n \<longrightarrow> even n \<longrightarrow> drv_read_sync drv n h = (Inr c, h1) \<longrightarrow>
     c \<noteq> [] \<and> length c \<le> n \<and> even (length c))"

lemma deliversD:
  "delivers drv \<Longrightarrow> drv_read_sync drv n h = (Inr c, h1) \<Longrightarrow> 0 < n \<Longrightarrow> even n \<Longrightarrow> c \<noteq> [] \<and> length c \<le> n \<and> even (length c)"
  unfolding delivers_def by blast

lemma transfer_size_pos [simp]: "0 < transfer_size" "even transfer_size"
  by (simp_all add: transfer_size_def)

text \<open>The chunks of a capture, written one after the other.\<close>

fun write_chunks :: "'f file_host \<Rightarrow> byte list list \<Rightarrow> ('f, unit) io" where
  "write_chunks fl [] f = (Inr (), f)"
| "write_chunks fl (c # cs) f = and_then (fl_write_all fl c) (\<lambda>_. write_chunks fl cs) f"

section \<open>The meter\<close>

lemma peak_magnitude_append:
  "even (length xs) \<Longrightarrow> peak_magnitude (xs @ ys) = max (peak_magnitude xs) (peak_magnitude ys)"
  by (simp add: peak_magnitude_Max envelope_append Max_Un)

lemma even_length_concat: "(\<And>c. c \<in> set cs \<Longrightarrow> even (length c)) \<Longrightarrow> even (length (concat cs))"
  by (induction cs) auto

definition meter_ok :: "meter \<Rightarrow> byte list \<Rightarrow> bool" where
  "meter_ok m bs \<longleftrightarrow> m_written m = length bs \<and> m_overall_peak m = peak_magnitude bs \<and>
     m_interval_peak m \<le> m_overall_peak m \<and>
     list_all (\<lambda>(written, peak, clipped). written \<le> m_written m \<and> peak \<le> m_overall_peak m \<and>
       clipped = (250 \<le> peak)) (m_reports m)"

lemma meter_ok_new: "meter_ok meter_new []"
  by (simp add: meter_ok_def meter_new_def peak_magnitude_def)

lemma meter_ok_chunk:
  assumes "meter_ok m bs" "even (length bs)"
  shows "meter_ok (meter_chunk bps c m) (bs @ c)"
  using assms
  by (auto simp: meter_ok_def meter_chunk_def Let_def peak_magnitude_append saturated_def list_all_iff)

lemma capture_loop_fills:
  assumes d: "delivers drv" and t: "even total_bytes"
    and m: "meter_ok m bs" "even (length bs)" "length bs \<le> total_bytes"
  shows "\<exists>r w1. capture_loop drv fl total_bytes bps m w = Some (r, w1) \<and>
     (\<forall>m1. r = Inr m1 \<longrightarrow> (\<exists>cs. meter_ok m1 (bs @ concat cs) \<and> length (bs @ concat cs) = total_bytes \<and>
        write_chunks fl cs (snd w) = (Inr (), snd w1)))"
  using m
proof (induction "total_bytes - length bs" arbitrary: m bs w rule: less_induct)
  case less
  have written: "m_written m = length bs" using less.prems(1) by (simp add: meter_ok_def)
  show ?case
  proof (cases "length bs < total_bytes")
    case False
    then have "capture_loop drv fl total_bytes bps m w = Some (Inr m, w)"
      by (subst capture_loop.simps) (simp add: written)
    then show ?thesis using False less.prems by (auto intro!: exI [of _ "[]"])
  next
    case True
    define want where "want = min (total_bytes - length bs) transfer_size"
    have want: "0 < want" "even want" using True t less.prems(2) by (simp_all add: want_def min_def)
    obtain r0 h0 where rd: "drv_read_sync drv want (fst w) = (r0, h0)" by force
    note unfold_loop = capture_loop.simps [of drv fl total_bytes bps m w]
    show ?thesis
    proof (cases r0)
      case (Inl e)
      then show ?thesis using rd True
        by (simp add: unfold_loop written capture_chunk_def and_then_def on_device_def want_def [symmetric])
    next
      case (Inr c)
      have c: "c \<noteq> []" "length c \<le> want" "even (length c)" using deliversD [OF d] rd want Inr by auto
      obtain r1 f1 where wr: "fl_write_all fl c (snd w) = (r1, f1)" by force
      show ?thesis
      proof (cases r1)
        case (Inl e)
        then show ?thesis using rd True \<open>r0 = Inr c\<close> wr
          by (simp add: unfold_loop written capture_chunk_def and_then_def on_device_def on_host_def
              want_def [symmetric])
      next
        case r1: (Inr u)
        have step: "capture_loop drv fl total_bytes bps m w =
            capture_loop drv fl total_bytes bps (meter_chunk bps c m) (h0, f1)"
          using rd True \<open>r0 = Inr c\<close> wr r1
          by (simp add: unfold_loop written capture_chunk_def and_then_def on_device_def on_host_def
              want_def [symmetric] pure_io_def)
        have ok: "meter_ok (meter_chunk bps c m) (bs @ c)" "even (length (bs @ c))" "length (bs @ c) \<le> total_bytes"
          using meter_ok_chunk [OF less.prems(1,2)] less.prems(2) c True by (auto simp: want_def)
        have "total_bytes - length (bs @ c) < total_bytes - length bs" using c(1) True by (cases c) auto
        from less.hyps [OF this ok, of "(h0, f1)"]
        obtain r w1 where r: "capture_loop drv fl total_bytes bps (meter_chunk bps c m) (h0, f1) = Some (r, w1)"
          and cs: "\<forall>m1. r = Inr m1 \<longrightarrow> (\<exists>cs. meter_ok m1 ((bs @ c) @ concat cs) \<and>
             length ((bs @ c) @ concat cs) = total_bytes \<and> write_chunks fl cs f1 = (Inr (), snd w1))" by auto
        have "\<exists>cs. meter_ok m1 (bs @ concat cs) \<and> length (bs @ concat cs) = total_bytes \<and>
            write_chunks fl cs (snd w) = (Inr (), snd w1)" if "r = Inr m1" for m1
        proof -
          obtain cs1 where "meter_ok m1 ((bs @ c) @ concat cs1)" "length ((bs @ c) @ concat cs1) = total_bytes"
            "write_chunks fl cs1 f1 = (Inr (), snd w1)" using cs \<open>r = Inr m1\<close> by blast
          then show ?thesis using wr r1 by (intro exI [of _ "c # cs1"]) (simp add: and_then_def)
        qed
        then show ?thesis using step r by auto
      qed
    qed
  qed
qed

lemma byte_budget_even [simp]: "even (byte_budget s r)"
  by (simp add: byte_budget_def dvd_mod)

text \<open>C28: A capture that succeeds is complete. If the driver answers reads with whole samples,
  \<open>capture\<close> returns on every input; when it succeeds, the file has been written the requested
  number of bytes in order and flushed, the peak it reports is the peak of exactly those bytes, every
  interval report is marked as clipping just when its peak reached 250, and the receive
  stream has been dropped.\<close>

theorem capture_fills_the_file:
  assumes "delivers drv"
  shows "\<exists>r w1. capture drv fl p w = Some (r, w1) \<and>
     (\<forall>m. r = Inr m \<longrightarrow>
        (\<exists>cs f0 f1 f2. fl_create fl (snd w) = (Inr (), f0) \<and> write_chunks fl cs f0 = (Inr (), f1) \<and>
           fl_flush fl f1 = (Inr (), f2) \<and> snd w1 = fl_drop fl f2 \<and>
           length (concat cs) = byte_budget (cp_seconds p) (cp_sample_rate p) \<and>
           m_written m = length (concat cs) \<and> m_overall_peak m = peak_magnitude (concat cs) \<and>
           list_all (\<lambda>(written, peak, clipped). peak \<le> m_overall_peak m \<and> clipped = (250 \<le> peak)) (m_reports m)) \<and>
        (\<exists>h. fst w1 = drv_drop_rx drv h))"
proof -
  obtain r0 h0 where o: "capture_open drv p (fst w) = (r0, h0)" by force
  show ?thesis
  proof (cases r0)
    case (Inl e)
    then show ?thesis using o by (simp add: capture_def on_device_def)
  next
    case (Inr u)
    then have c: "capture drv fl p w = capture_stream drv fl p (h0, snd w)"
      using o by (simp add: capture_def on_device_def)
    obtain r1 f0 where cr: "fl_create fl (snd w) = (r1, f0)" by force
    show ?thesis
    proof (cases r1)
      case (Inl e)
      then show ?thesis using cr by (simp add: c capture_stream_def on_host_def)
    next
      case r1: (Inr v)
      obtain r2 w2 where l: "capture_loop drv fl (byte_budget (cp_seconds p) (cp_sample_rate p))
            (cp_sample_rate p * 2) meter_new (h0, f0) = Some (r2, w2)"
        and cs: "\<forall>m1. r2 = Inr m1 \<longrightarrow> (\<exists>cs. meter_ok m1 ([] @ concat cs) \<and>
            length ([] @ concat cs) = byte_budget (cp_seconds p) (cp_sample_rate p) \<and>
            write_chunks fl cs (snd (h0, f0)) = (Inr (), snd w2))"
        using capture_loop_fills [OF assms byte_budget_even meter_ok_new, where w = "(h0, f0)" and fl = fl
            and bps = "cp_sample_rate p * 2"] by force
      obtain r3 f2 where fl: "fl_flush fl (snd w2) = (r3, f2)" by force
      have s: "capture drv fl p w = (case r2 of
            Inl e \<Rightarrow> Some (Inl e, close_stream drv (close_file fl w2))
          | Inr m \<Rightarrow> Some (case r3 of Inl e \<Rightarrow> Inl e | Inr _ \<Rightarrow> Inr m, close_file fl (drv_drop_rx drv (fst w2), f2)))"
        using cr r1 l fl
        by (simp add: c capture_stream_def on_host_def close_stream_def split: sum.split)
      show ?thesis unfolding s using cs cr r1 fl
        by (cases r2; cases r3)
          (fastforce simp: meter_ok_def close_file_def list_all_iff)+
    qed
  qed
qed

section \<open>What a scan measures\<close>

text \<open>A reading of a band is the peak and the 99.9th percentile of one dwell's worth of bytes.\<close>

definition reading_of :: "nat \<Rightarrow> nat \<times> nat \<Rightarrow> bool" where
  "reading_of dwell_bytes rd \<longleftrightarrow>
     (\<exists>bs. length bs = dwell_bytes \<and> fst rd = peak_magnitude bs \<and>
        snd rd = hist_percentile (hist_of (envelope bs)) p_signal)"

definition saturated_count :: "(nat \<times> nat) list \<Rightarrow> nat" where
  "saturated_count row = length (filter (\<lambda>rd. 250 \<le> snd rd) row)"

lemma hist_peak_magnitude: "hist_peak (hist_of (envelope bs)) = peak_magnitude bs"
  using hist_ok_of [of "envelope bs"]
  by (auto simp: hist_ok_def peak_magnitude_Max Max_insert max_def)

lemma add_iq_hist_of:
  "even (length bs) \<Longrightarrow> add_iq (hist_of (envelope bs)) c = hist_of (envelope (bs @ c))"
  by (simp add: add_iq_envelope hist_of_def envelope_append)

lemma dwell_loop_measures:
  assumes d: "delivers drv" and t: "even dwell_bytes" and m: "even (length bs)" "length bs \<le> dwell_bytes"
  shows "\<exists>r h1. dwell_loop drv dwell_bytes (length bs) (hist_of (envelope bs)) h = Some (r, h1) \<and>
     (\<forall>hist. r = Inr hist \<longrightarrow> (\<exists>cs. length cs = dwell_bytes \<and> hist = hist_of (envelope cs)))"
  using m
proof (induction "dwell_bytes - length bs" arbitrary: bs h rule: less_induct)
  case less
  note unfold_loop = dwell_loop.simps [of drv dwell_bytes "length bs" "hist_of (envelope bs)" h]
  show ?case
  proof (cases "length bs < dwell_bytes")
    case False
    then have "dwell_loop drv dwell_bytes (length bs) (hist_of (envelope bs)) h = Some (Inr (hist_of (envelope bs)), h)"
      by (simp add: unfold_loop)
    then show ?thesis using False less.prems(2) by (intro exI conjI) auto
  next
    case True
    define want where "want = min (dwell_bytes - length bs) transfer_size"
    obtain r0 h0 where rd: "drv_read_sync drv want h = (r0, h0)" by force
    show ?thesis
    proof (cases r0)
      case (Inl e)
      then show ?thesis using rd True by (simp add: unfold_loop want_def [symmetric])
    next
      case (Inr c)
      have c: "c \<noteq> []" "length c \<le> want" "even (length c)"
        using deliversD [OF d, of want h c h0] rd True Inr t less.prems(1) by (auto simp: want_def min_def)
      have "dwell_loop drv dwell_bytes (length bs) (hist_of (envelope bs)) h =
          dwell_loop drv dwell_bytes (length (bs @ c)) (hist_of (envelope (bs @ c))) h0"
        using rd True Inr by (simp add: unfold_loop want_def [symmetric] add_iq_hist_of [OF less.prems(1)])
      moreover have "even (length (bs @ c))" "length (bs @ c) \<le> dwell_bytes"
        "dwell_bytes - length (bs @ c) < dwell_bytes - length bs"
        using less.prems c True by (auto simp: want_def intro!: diff_less_mono2)
      ultimately show ?thesis using less.hyps [of "bs @ c" h0] by metis
    qed
  qed
qed

lemma scan_band_measures:
  assumes "delivers drv" "even dwell_bytes"
  shows "\<exists>r h1. scan_band drv dwell_bytes f h = Some (r, h1) \<and>
     (\<forall>hist. r = Inr hist \<longrightarrow> reading_of dwell_bytes (hist_peak hist, signal (hist_levels hist q)))"
proof (cases "and_then (drv_set_freq drv f) (\<lambda>_. drv_read_sync drv transfer_size) h")
  case (Pair r0 h0)
  have n: "hist_new = hist_of (envelope [])" by (simp add: hist_of_def envelope_def)
  obtain r h1 where l: "dwell_loop drv dwell_bytes 0 hist_new h0 = Some (r, h1)"
    and cs: "\<forall>hist. r = Inr hist \<longrightarrow> (\<exists>cs. length cs = dwell_bytes \<and> hist = hist_of (envelope cs))"
    using dwell_loop_measures [OF assms, of "[]" h0] n by auto
  have "reading_of dwell_bytes (hist_peak hist, signal (hist_levels hist q))" if "r = Inr hist" for hist
    using cs that by (auto simp: reading_of_def hist_peak_magnitude hist_levels_def Let_def)
  then show ?thesis using Pair l by (cases r0) (auto simp: scan_band_def)
qed

lemma scan_pass_measures:
  assumes "delivers drv" "even dwell_bytes"
  shows "\<exists>r h1. scan_pass drv dwell_bytes fs row bands h = Some (r, h1) \<and>
     (\<forall>row1 bands1. r = Inr (row1, bands1) \<longrightarrow> (\<exists>new. row1 = row @ new \<and> length new = length fs \<and>
        list_all (reading_of dwell_bytes) new \<and> bands1 = bands + saturated_count new))"
proof (induction fs arbitrary: row bands h)
  case (Cons f fs)
  obtain r0 h0 where b: "scan_band drv dwell_bytes f h = Some (r0, h0)"
    and rd: "\<forall>hist. r0 = Inr hist \<longrightarrow> reading_of dwell_bytes (hist_peak hist, signal (hist_levels hist (to_f64 (1/2))))"
    using scan_band_measures [OF assms, of f h "to_f64 (1/2)"] by auto
  show ?case
  proof (cases r0)
    case (Inr hist)
    define sig where "sig = signal (hist_levels hist (to_f64 (1/2)))"
    define bands0 where "bands0 = (if saturated \<le> sig then bands + 1 else bands)"
    obtain r h1 where r: "scan_pass drv dwell_bytes fs (row @ [(hist_peak hist, sig)]) bands0 h0 = Some (r, h1)"
      and new: "\<forall>row1 bands1. r = Inr (row1, bands1) \<longrightarrow> (\<exists>new. row1 = (row @ [(hist_peak hist, sig)]) @ new \<and>
        length new = length fs \<and> list_all (reading_of dwell_bytes) new \<and> bands1 = bands0 + saturated_count new)"
      using Cons.IH [of "row @ [(hist_peak hist, sig)]" bands0 h0] by blast
    have "scan_pass drv dwell_bytes (f # fs) row bands h = Some (r, h1)"
      using b r Inr by (simp add: sig_def bands0_def Let_def)
    moreover have "\<exists>new. row1 = row @ new \<and> length new = length (f # fs) \<and>
        list_all (reading_of dwell_bytes) new \<and> bands1 = bands + saturated_count new"
      if eq: "r = Inr (row1, bands1)" for row1 bands1
    proof -
      obtain new where "row1 = (row @ [(hist_peak hist, sig)]) @ new" "length new = length fs"
        "list_all (reading_of dwell_bytes) new" "bands1 = bands0 + saturated_count new" using new eq by blast
      then show ?thesis using rd Inr
        by (intro exI [of _ "(hist_peak hist, sig) # new"])
          (simp add: sig_def bands0_def saturated_count_def saturated_def)
    qed
    ultimately show ?thesis by blast
  qed (use b in auto)
qed (simp add: saturated_count_def)

lemma scan_passes_measures:
  assumes "delivers drv" "even dwell_bytes"
  shows "\<exists>r h1. scan_passes drv dwell_bytes fs n sr h = Some (r, h1) \<and>
     (\<forall>sr1. r = Inr sr1 \<longrightarrow> (\<exists>rows. sr_rows sr1 = sr_rows sr @ rows \<and> length rows = n \<and>
        list_all (\<lambda>row. length row = length fs \<and> list_all (reading_of dwell_bytes) row) rows \<and>
        sr_saturated_bands sr1 = sr_saturated_bands sr + saturated_count (concat rows)))"
proof (induction n arbitrary: sr h)
  case (Suc n)
  obtain r0 h0 where p: "scan_pass drv dwell_bytes fs [] (sr_saturated_bands sr) h = Some (r0, h0)"
    and row: "\<forall>row1 bands1. r0 = Inr (row1, bands1) \<longrightarrow> length row1 = length fs \<and>
        list_all (reading_of dwell_bytes) row1 \<and> bands1 = sr_saturated_bands sr + saturated_count row1"
    using scan_pass_measures [OF assms, of fs "[]" "sr_saturated_bands sr" h] by auto
  show ?case
  proof (cases r0)
    case (Inr rb)
    obtain row1 bands1 where rb: "rb = (row1, bands1)" by force
    define sr0 where "sr0 = \<lparr>sr_rows = sr_rows sr @ [row1], sr_saturated_bands = bands1\<rparr>"
    obtain r h1 where r: "scan_passes drv dwell_bytes fs n sr0 h0 = Some (r, h1)"
      and rest: "\<forall>sr1. r = Inr sr1 \<longrightarrow> (\<exists>rows. sr_rows sr1 = sr_rows sr0 @ rows \<and> length rows = n \<and>
        list_all (\<lambda>row. length row = length fs \<and> list_all (reading_of dwell_bytes) row) rows \<and>
        sr_saturated_bands sr1 = sr_saturated_bands sr0 + saturated_count (concat rows))"
      using Suc.IH [of sr0 h0] by blast
    have "scan_passes drv dwell_bytes fs (Suc n) sr h = Some (r, h1)"
      using p r Inr rb by (simp add: sr0_def)
    moreover have "\<exists>rows. sr_rows sr1 = sr_rows sr @ rows \<and> length rows = Suc n \<and>
        list_all (\<lambda>row. length row = length fs \<and> list_all (reading_of dwell_bytes) row) rows \<and>
        sr_saturated_bands sr1 = sr_saturated_bands sr + saturated_count (concat rows)" if eq: "r = Inr sr1" for sr1
    proof -
      obtain rows where "sr_rows sr1 = sr_rows sr0 @ rows" "length rows = n"
        "list_all (\<lambda>row. length row = length fs \<and> list_all (reading_of dwell_bytes) row) rows"
        "sr_saturated_bands sr1 = sr_saturated_bands sr0 + saturated_count (concat rows)" using rest eq by blast
      then show ?thesis using row Inr rb
        by (intro exI [of _ "row1 # rows"]) (simp add: sr0_def saturated_count_def)
    qed
    ultimately show ?thesis by blast
  qed (use p in auto)
qed (simp add: saturated_count_def)

lemma reading_bounds:
  assumes "reading_of n rd" "n < 2 ^ 50"
  shows "snd rd \<le> fst rd \<and> fst rd \<le> 256"
proof -
  obtain bs where bs: "length bs = n" "fst rd = peak_magnitude bs"
    "snd rd = hist_percentile (hist_of (envelope bs)) p_signal" using assms(1) by (auto simp: reading_of_def)
  have le: "m \<le> peak_magnitude bs" if "m \<in> set (envelope bs)" for m
    using that by (auto simp: peak_magnitude_Max)
  have "snd rd \<le> peak_magnitude bs"
  proof (cases "envelope bs = []")
    case True
    then show ?thesis using bs(3) hist_ok_of [of "envelope bs"]
      by (simp add: hist_percentile_def percentile_def hist_ok_def)
  next
    case False
    have "length (envelope bs) \<le> n" using bs(1) by (simp add: envelope_def length_iq_samples)
    then have l: "1 \<le> length (envelope bs)" "length (envelope bs) < 2 ^ 50"
      using False assms(2) by (cases "envelope bs"; simp)+
    have "filter (\<lambda>m. m \<le> peak_magnitude bs) (envelope bs) = envelope bs" using le by (simp add: filter_id_conv)
    then show ?thesis unfolding bs(3) p_signal_def
      using l quantile_rank_in_range [of "999/1000" "length (envelope bs)"]
      by (intro hist_percentile_le_cap [OF hist_ok_of]) simp_all
  qed
  moreover have "peak_magnitude bs \<le> 256" using envelope_le by (auto simp: peak_magnitude_Max)
  ultimately show ?thesis using bs(2) by simp
qed

text \<open>A scan measures every band in every pass. If the driver answers reads with whole
  samples, \<open>scan\<close> returns; when it succeeds there is one row per pass and in it one reading per
  frequency, each the peak and the 99.9th percentile of a whole dwell (with the percentile no
  higher than the peak), the number of saturated bands is the number of readings whose percentile reached 250, and the stream is dropped.\<close>

theorem scan_measures_every_band:
  assumes "delivers drv"
  shows "\<exists>r h1. scan drv p h = Some (r, h1) \<and>
     (\<forall>sr. r = Inr sr \<longrightarrow> length (sr_rows sr) = sp_passes p \<and>
        list_all (\<lambda>row. length row = length (sp_frequencies p) \<and>
          list_all (\<lambda>rd. reading_of (byte_budget (sp_dwell_seconds p) (sp_sample_rate p)) rd \<and>
            (byte_budget (sp_dwell_seconds p) (sp_sample_rate p) < 2 ^ 50 \<longrightarrow> snd rd \<le> fst rd \<and> fst rd \<le> 256)) row)
          (sr_rows sr) \<and>
        sr_saturated_bands sr = saturated_count (concat (sr_rows sr)) \<and> (\<exists>h0. h1 = drv_drop_rx drv h0))"
proof -
  obtain r0 h0 where o: "scan_open drv p h = (r0, h0)" by force
  let ?n = "byte_budget (sp_dwell_seconds p) (sp_sample_rate p)"
  let ?sr = "\<lparr>sr_rows = [], sr_saturated_bands = 0\<rparr>"
  obtain r h1 where "scan_passes drv ?n (sp_frequencies p) (sp_passes p) ?sr h0 = Some (r, h1)"
    and "\<forall>sr1. r = Inr sr1 \<longrightarrow> length (sr_rows sr1) = sp_passes p \<and>
        list_all (\<lambda>row. length row = length (sp_frequencies p) \<and> list_all (reading_of ?n) row) (sr_rows sr1) \<and>
        sr_saturated_bands sr1 = saturated_count (concat (sr_rows sr1))"
    using scan_passes_measures [OF assms byte_budget_even, of "sp_dwell_seconds p" "sp_sample_rate p" "sp_frequencies p" "sp_passes p" ?sr h0]
    by auto
  then show ?thesis using o reading_bounds [of ?n] by (cases r0) (fastforce simp: scan_def list_all_iff)+
qed

end
