(* ===== verification/Tools.thy ===== *)
theory Tools
  imports Frequencies Capture
begin

text \<open>
  \<open>wire.rs\<close>, the text of a refusal (\<open>Display\<close> of \<open>Invalid\<close>), and \<open>main.rs\<close>, the field tools as
  the command line runs them: \<open>hrf info\<close>, \<open>hrf scan\<close>, \<open>hrf capture\<close>. Texts are UTF-8 bytes.
\<close>

section \<open>Printing numbers\<close>

text \<open>\<open>{}\<close> of an unsigned integer.\<close>

fun dec :: "nat \<Rightarrow> string" where
  "dec n = (if n < 10 then [char_of (48 + n)] else dec (n div 10) @ [char_of (48 + n mod 10)])"

declare dec.simps [simp del]

text \<open>\<open>{:.1}\<close> of an \<open>f64\<close>: the exact value of the double to one decimal, ties to even.\<close>

definition fixed1 :: "f64 \<Rightarrow> string" where
  "fixed1 v =
     (case v of Nan \<Rightarrow> ''NaN'' | Infinity s \<Rightarrow> (if s then ''-inf'' else ''inf'')
      | Fin x \<Rightarrow> let t = nat (round_even (10 * \<bar>x\<bar>))
                 in (if x < 0 then ''-'' else '''') @ dec (t div 10) @ ''.'' @ dec (t mod 10))"

definition seconds_of :: "int \<Rightarrow> f64" where
  "seconds_of us = f_div (f64_of_int us) (to_f64 1000000)"

definition en_dash :: string where "en_dash = [CHR 0xE2, CHR 0x80, CHR 0x93]"

fun refusal_text :: "invalid \<Rightarrow> string" where
  "refusal_text Empty = ''no timings to transmit''"
| "refusal_text Zero_Timing = ''a timing of zero has no meaning''"
| "refusal_text (Too_Many_Timings n) = dec n @ '' timings exceeds the '' @ dec max_timings @ '' limit''"
| "refusal_text (Frequency_Out_Of_Range f) =
     dec f @ '' Hz is outside the radio's 1 MHz'' @ en_dash @ ''6 GHz range''"
| "refusal_text (Air_Time_Too_Long d) =
     fixed1 (seconds_of d) @ '' s of air time exceeds the '' @ fixed1 (seconds_of max_air_time_us) @ '' s limit''"
| "refusal_text (Gain_Too_High g) = ''TX VGA gain '' @ dec g @ '' dB exceeds the 47 dB maximum''"

lemma digits_value_snoc: "digits_value (s @ [c]) = digits_value s * 10 + (code_of c - 48)"
  by (simp add: digits_value_def)

lemma code_of_digit: "d < 10 \<Longrightarrow> code_of (char_of (48 + d)) = 48 + d"
  by (simp add: code_of_def)

text \<open>What is printed reads back.\<close>

lemma dec_reads_back: "digits_value (dec n) = n \<and> list_all is_digit (dec n) \<and> dec n \<noteq> []"
proof (induction n rule: dec.induct)
  case (1 n)
  show ?case
  proof (cases "n < 10")
    case True
    then show ?thesis by (simp add: dec.simps [of n] digits_value_def code_of_digit is_digit_def)
  next
    case False
    have d: "n mod 10 < 10" by simp
    show ?thesis using 1 False code_of_digit [OF d]
      by (simp add: dec.simps [of n] digits_value_snoc is_digit_def)
  qed
qed

lemma dec_inj: "dec m = dec n \<Longrightarrow> m = n"
  using dec_reads_back by metis

section \<open>A refusal that contradicts itself\<close>

lemma seconds_30: "seconds_of max_air_time_us = Fin 30"
proof -
  have "f64_of_int 30000000 = Fin 30000000" using f64_of_int_small [of 30000000] by simp
  moreover have "to_f64 1000000 = Fin 1000000" "to_f64 30 = Fin 30"
    using to_f64_of_int [of 1000000] to_f64_of_int [of 30] by simp_all
  ultimately show ?thesis by (simp add: seconds_of_def max_air_time_us_def)
qed

lemma round_even_near:
  assumes "of_int n - 1/2 < x" "x < of_int n + 1/2"
  shows "round_even x = n"
proof -
  have "(of_int (round_even x) :: rat) < of_int (n + 1)" "(of_int (n - 1) :: rat) < of_int (round_even x)"
    using abs_errD [OF round_even_dist [of x]] assms by simp_all
  then have "round_even x < n + 1" "n - 1 < round_even x" by (simp_all only: of_int_less_iff)
  then show ?thesis by simp
qed

text \<open>The refusal of a request just over the air-time limit contradicts itself. From one
  microsecond over thirty seconds up to fifty milliseconds over, the request is refused for
  its air time, and the text says that 30.0 s exceeds the 30.0 s limit.\<close>

theorem refusal_contradicts_itself:
  assumes "30000000 < d" "d < 30050000"
  shows "refusal_text (Air_Time_Too_Long d) = ''30.0 s of air time exceeds the 30.0 s limit''"
proof -
  have n: "1 \<le> nat d" "nat d < 2 ^ 50" using assms by auto
  have a: "1 / 2 ^ 20 \<le> (1000000 :: rat)" "(1000000 :: rat) \<le> 2 ^ 20" by simp_all
  obtain y where y: "f_div (f64_of_nat (nat d)) (to_f64 1000000) = Fin y"
    "\<bar>y - of_nat (nat d) / 1000000\<bar> \<le> of_nat (nat d) / 1000000 / 2 ^ 51"
    by (rule f_div_nat_err [OF a n])
  define q :: rat where "q = of_nat (nat d) / 1000000"
  have d: "(of_nat (nat d) :: rat) = of_int d" using assms by simp
  have "(of_int 30000001 :: rat) \<le> of_int d" "(of_int d :: rat) \<le> of_int 30049999"
    using assms by (simp_all only: of_int_le_iff)
  then have q: "30 < q" "q \<le> 30049999/1000000" by (simp_all add: q_def d)
  have "\<bar>y - q\<bar> \<le> q / 2 ^ 51" using y(2) by (simp add: q_def)
  then have "y \<le> q + q / 2 ^ 51" "q - q / 2 ^ 51 \<le> y" by linarith+
  then have yy: "y < 3005/100" "30 - 1/20 < y" using q by simp_all
  have "round_even (10 * y) = 300" by (rule round_even_near) (use yy in simp_all)
  moreover have "f64_of_int d = f64_of_nat (nat d)" by (simp add: f64_of_int_def f64_of_nat_def d)
  ultimately have "fixed1 (seconds_of d) = dec 30 @ ''.'' @ dec 0"
    using y(1) yy by (simp add: fixed1_def seconds_of_def)
  moreover have "round_even (10 * 30) = 300" by (rule round_even_near) simp_all
  then have "fixed1 (seconds_of max_air_time_us) = dec 30 @ ''.'' @ dec 0"
    by (simp add: seconds_30 fixed1_def)
  moreover have "dec 30 = ''30''" "dec 0 = ''0''" by code_simp+
  ultimately show ?thesis by simp
qed

section \<open>The tools\<close>

text \<open>\<open>hrf info\<close>: board, firmware, each \<open>?\<close> on its own, and the USB interface's version.\<close>

definition info :: "'h driver \<Rightarrow> ('h, string \<times> string \<times> string) io" where
  "info drv =
     and_then (open_radio drv) (\<lambda>_.
     and_then (drv_board_id drv) (\<lambda>board.
     and_then (drv_version drv) (\<lambda>firmware h. (Inr (board, firmware, drv_device_version drv h), h))))"

text \<open>\<open>hrf scan\<close>: the frequency list is read before the radio is opened.\<close>

definition cli_scan :: "'h driver \<Rightarrow> string \<Rightarrow> scan_params \<Rightarrow> 'h \<Rightarrow> ((error + scan_report) \<times> 'h) option" where
  "cli_scan drv freqs p h =
     (case parse_frequencies freqs of
        Inl e \<Rightarrow> Some (Inl e, h)
      | Inr frequencies \<Rightarrow> scan drv (p\<lparr>sp_frequencies := frequencies\<rparr>) h)"

end
