(* ===== verification/Service.thy ===== *)
theory Service
  imports Daemon Inbox Tuning Connection Tools
begin

text \<open>
  The daemon as it runs, clients, hotplug and shutdown interleaving as they may, over the
  device: what holds of the radio at every moment, and what holds of a request from the
  socket to the socket.
\<close>

lemma sys_run_reachable:
  assumes "sys_run env (system_new env c w) y" "sy_running y"
  shows "reachable env c w (sy_arbiter y)"
  using sys_run_ok [OF assms(1)] assms(2) reachable_run by (simp add: sys_ok_def passes_def)

text \<open>C1: The radio is half-duplex at every moment of the running daemon. In every state that any
  interleaving of clients, hotplug notices, shutdown and passes of the radio thread reaches,
  the history of what the radio was asked to do keeps the half-duplex rule with the
  transmitter down between passes, the arbiter believes the receiver to be running exactly when
  the device holds an open stream, and once the thread has ended no stream is open.\<close>

theorem running_daemon_is_half_duplex:
  assumes d: "device_new settings h = Inr d"
    and run: "sys_run (device_env drv host) (system_new (device_env drv host) c (d, e)) y"
  shows "duplex (False, False) (d_history (fst (a_world (sy_arbiter y)))) =
       Some (d_rx (fst (a_world (sy_arbiter y))), False) \<and>
     (if sy_running y then s_rx_running (a_state (sy_arbiter y)) = d_rx (fst (a_world (sy_arbiter y)))
      else \<not> d_rx (fst (a_world (sy_arbiter y))))"
proof (cases "sy_running y")
  case True
  note reach = sys_run_reachable [OF run True]
  show ?thesis using dev.reachable_streaming [OF _ _ reach] device_new_ok [OF d] True
    by (simp add: dev_ok_def duplex_at_def)
next
  case False
  then have "sy_arbiter y = run_thread (device_env drv host) c (d, e) (sy_polls y)"
    using sys_run_ok [OF run] by (simp add: sys_ok_def)
  then show ?thesis using dev.run_thread_stops [of "(d, e)" drv host c "sy_polls y"] device_new_ok [OF d] False
    by (simp add: dev_ok_def duplex_at_def)
qed

end
