(* ===== verification/Serve_Process.thy ===== *)
theory Serve_Process
  imports Accounts Service
begin

text \<open>
  \<open>serve\<close> of \<open>main.rs\<close> from start to end: what can fail before the first client, the signals
  that end it, and in what state each way of ending leaves the radio. The radio thread runs
  from the moment it is spawned; clients come in between, as in Clients. \<open>serve\<close> itself is a
  sequence of phases, each with the steps of \<open>serve\<close>, the radio thread and the clients that are
  possible in it.
\<close>

section \<open>Signals\<close>

datatype signal = Sigint | Sigterm

text \<open>\<open>shutdown_signal\<close>, whether it has resolved, given what registering the two handlers answered
  and the signals they have received. \<open>ctrl_c()\<close> resolves at once, with an error that is ignored,
  when its handler cannot be registered; without a listener for SIGTERM it alone is awaited. A
  signal without a handler is the operating system's: it ends the process, not \<open>serve\<close>.\<close>

definition shutdown_signal :: "error + unit \<Rightarrow> error + unit \<Rightarrow> signal list \<Rightarrow> bool" where
  "shutdown_signal interrupt terminate received =
     (let interrupted = (case interrupt of Inl e \<Rightarrow> True | Inr _ \<Rightarrow> Sigint \<in> set received)
      in case terminate of
        Inl e \<Rightarrow> interrupted
      | Inr _ \<Rightarrow> interrupted \<or> Sigterm \<in> set received)"

lemma shutdown_signal_iff:
  "shutdown_signal interrupt terminate received \<longleftrightarrow>
     \<not> is_ok interrupt \<or> Sigint \<in> set received \<or> is_ok terminate \<and> Sigterm \<in> set received"
  by (auto simp: shutdown_signal_def is_ok_def split: sum.split)

section \<open>Start-up\<close>

text \<open>What spawning the thread, the runtime, the listener, the hotplug watch, the listener's address
  and the signal handlers answer.\<close>

record startup =
  up_thread :: "error + unit"
  up_runtime :: "error + unit"
  up_bind :: "error + unit"
  up_watch :: "error + unit"
  up_address :: "error + unit"
  up_interrupt :: "error + unit"
  up_terminate :: "error + unit"

text \<open>The steps that can fail \<open>serve\<close>, in order; the watch for arrivals and the handlers are not
  among them. This is what \<open>serve\<close> is shown to return.\<close>

definition serve_start :: "string \<Rightarrow> startup \<Rightarrow> error + unit" where
  "serve_start listen u =
     (case up_thread u of
        Inl e \<Rightarrow> Inl (Context ''failed to start the radio thread'' e)
      | Inr _ \<Rightarrow> (case up_runtime u of
          Inl e \<Rightarrow> Inl (Context ''failed to start the async runtime'' e)
        | Inr _ \<Rightarrow> (case up_bind u of
            Inl e \<Rightarrow> Inl (Context (''failed to listen on '' @ listen) e)
          | Inr _ \<Rightarrow> (case up_address u of
              Inl e \<Rightarrow> Inl (Context ''listener has no address'' e)
            | Inr _ \<Rightarrow> Inr ()))))"

section \<open>The phases\<close>

text \<open>What \<open>serve\<close> does next: spawn the thread, build the runtime, bind the listener, ask for its
  address (with the hotplug watch, if any, set up); serve clients;
  drop the runtime with the outcome in hand; join the thread; nothing more.\<close>

datatype phase =
    Thread_Next
  | Runtime_Next
  | Bind_Next
  | Address_Next
  | Serving
  | Dropping "error + unit"
  | Joining "error + unit"
  | Over "error + unit"

text \<open>The thread and its clients are there from the spawn on. Clients are numbered as the listener
  accepts them.\<close>

record 'w process =
  pr_phase :: phase
  pr_net :: "'w net option"
  pr_received :: "signal list"
  pr_events :: "nat accept_event list"

definition process_new :: "'w process" where
  "process_new = \<lparr>pr_phase = Thread_Next, pr_net = None, pr_received = [], pr_events = []\<rparr>"

text \<open>Which steps of the thread and the clients there are: a client's once it has been accepted, and
  the hotplug notice once its watch has been set up, past the bind, until the runtime is
  dropped. The thread's own are always possible.\<close>

definition watching :: "phase \<Rightarrow> startup \<Rightarrow> bool" where
  "watching ph u \<longleftrightarrow> 
     (case ph of Address_Next \<Rightarrow> is_ok (up_watch u) | Serving \<Rightarrow> is_ok (up_watch u) | Dropping r \<Rightarrow> is_ok (up_watch u)
      | _ \<Rightarrow> False)"

definition phase_allows :: "phase \<Rightarrow> startup \<Rightarrow> nat accept_event list \<Rightarrow> 'w net \<Rightarrow> 'w net \<Rightarrow> bool" where
  "phase_allows ph u events y z \<longleftrightarrow>
     (\<forall>i. nt_clients z i \<noteq> nt_clients y i \<longrightarrow> i \<in> set (accept_loop events)) \<and>
     (nt_accepted z = nt_accepted y @ [Cmd_Device_Arrived] \<longrightarrow> watching ph u)"

abbreviation senders_dropped :: "'w net \<Rightarrow> 'w net" where
  "senders_dropped y \<equiv> y\<lparr>nt_senders := False\<rparr>"

inductive process_step ::
  "string \<Rightarrow> startup \<Rightarrow> 'w env \<Rightarrow> (string \<Rightarrow> error + request) \<Rightarrow> config \<Rightarrow> 'w \<Rightarrow> 'w process \<Rightarrow> 'w process \<Rightarrow> bool"
  for listen u env parse c w where
  spawned: "pr_phase p = Thread_Next \<Longrightarrow> up_thread u = Inr () \<Longrightarrow>
     process_step listen u env parse c w p (p\<lparr>pr_phase := Runtime_Next, pr_net := Some (net_new env c w)\<rparr>)"
| spawn_failed: "pr_phase p = Thread_Next \<Longrightarrow> up_thread u = Inl e \<Longrightarrow>
     process_step listen u env parse c w p
       (p\<lparr>pr_phase := Over (Inl (Context ''failed to start the radio thread'' e))\<rparr>)"
| built: "pr_phase p = Runtime_Next \<Longrightarrow> up_runtime u = Inr () \<Longrightarrow>
     process_step listen u env parse c w p (p\<lparr>pr_phase := Bind_Next\<rparr>)"
| build_failed: "pr_phase p = Runtime_Next \<Longrightarrow> up_runtime u = Inl e \<Longrightarrow> pr_net p = Some y \<Longrightarrow>
     process_step listen u env parse c w p
       (p\<lparr>pr_phase := Over (Inl (Context ''failed to start the async runtime'' e)), pr_net := Some (senders_dropped y)\<rparr>)"
| bound: "pr_phase p = Bind_Next \<Longrightarrow> up_bind u = Inr () \<Longrightarrow>
     process_step listen u env parse c w p (p\<lparr>pr_phase := Address_Next\<rparr>)"
| bind_failed: "pr_phase p = Bind_Next \<Longrightarrow> up_bind u = Inl e \<Longrightarrow> pr_net p = Some y \<Longrightarrow>
     process_step listen u env parse c w p
       (p\<lparr>pr_phase := Joining (Inl (Context (''failed to listen on '' @ listen) e)), pr_net := Some (senders_dropped y)\<rparr>)"
| addressed: "pr_phase p = Address_Next \<Longrightarrow> up_address u = Inr () \<Longrightarrow>
     process_step listen u env parse c w p (p\<lparr>pr_phase := Serving\<rparr>)"
| address_failed: "pr_phase p = Address_Next \<Longrightarrow> up_address u = Inl e \<Longrightarrow>
     process_step listen u env parse c w p (p\<lparr>pr_phase := Dropping (Inl (Context ''listener has no address'' e))\<rparr>)"
| working: "pr_net p = Some y \<Longrightarrow> net_step env parse y z \<Longrightarrow> nt_senders z = nt_senders y \<Longrightarrow>
     phase_allows (pr_phase p) u (pr_events p) y z \<Longrightarrow>
     process_step listen u env parse c w p (p\<lparr>pr_net := Some z\<rparr>)"
| accepting: "pr_phase p = Serving \<Longrightarrow> a \<noteq> Shut_Down \<Longrightarrow>
     process_step listen u env parse c w p (p\<lparr>pr_events := pr_events p @ [a]\<rparr>)"
| signalled: "pr_phase p = Serving \<Longrightarrow>
     process_step listen u env parse c w p (p\<lparr>pr_received := pr_received p @ [sig]\<rparr>)"
| shut_down: "pr_phase p = Serving \<Longrightarrow> shutdown_signal (up_interrupt u) (up_terminate u) (pr_received p) \<Longrightarrow>
     process_step listen u env parse c w p (p\<lparr>pr_phase := Dropping (Inr ()), pr_events := pr_events p @ [Shut_Down]\<rparr>)"
| runtime_dropped: "pr_phase p = Dropping r \<Longrightarrow> pr_net p = Some y \<Longrightarrow>
     process_step listen u env parse c w p (p\<lparr>pr_phase := Joining r, pr_net := Some (senders_dropped y)\<rparr>)"
| joined: "pr_phase p = Joining r \<Longrightarrow> pr_net p = Some y \<Longrightarrow> \<not> nt_running y \<Longrightarrow>
     process_step listen u env parse c w p (p\<lparr>pr_phase := Over r\<rparr>)"

inductive process_run ::
  "string \<Rightarrow> startup \<Rightarrow> 'w env \<Rightarrow> (string \<Rightarrow> error + request) \<Rightarrow> config \<Rightarrow> 'w \<Rightarrow> 'w process \<Rightarrow> 'w process \<Rightarrow> bool"
  for listen u env parse c w p where
  start: "process_run listen u env parse c w p p"
| next_step: "process_run listen u env parse c w p q \<Longrightarrow> process_step listen u env parse c w q r \<Longrightarrow>
     process_run listen u env parse c w p r"

section \<open>The invariant of the phases\<close>

text \<open>A daemon no client has asked anything.\<close>

definition untouched :: "'w net \<Rightarrow> bool" where
  "untouched y \<longleftrightarrow> (\<forall>cmd \<in> set (nt_accepted y). cmd = Cmd_Device_Arrived) \<and> (\<forall>i. nt_clients y i = client_new)"

lemma untouched_dropped [simp]: "untouched (senders_dropped y) = untouched y"
  by (simp add: untouched_def)

text \<open>How far \<open>serve\<close> got, and why it stopped.\<close>

fun phase_ok :: "string \<Rightarrow> startup \<Rightarrow> signal list \<Rightarrow> nat accept_event list \<Rightarrow> phase \<Rightarrow> 'w net \<Rightarrow> bool" where
  "phase_ok listen u received events Thread_Next y \<longleftrightarrow> False"
| "phase_ok listen u received events Runtime_Next y \<longleftrightarrow>
     up_thread u = Inr () \<and> nt_senders y \<and> untouched y \<and> events = []"
| "phase_ok listen u received events Bind_Next y \<longleftrightarrow>
     up_thread u = Inr () \<and> up_runtime u = Inr () \<and> nt_senders y \<and> untouched y \<and> events = []"
| "phase_ok listen u received events Address_Next y \<longleftrightarrow>
     up_thread u = Inr () \<and> up_runtime u = Inr () \<and> up_bind u = Inr () \<and> nt_senders y \<and> untouched y \<and> events = []"
| "phase_ok listen u received events Serving y \<longleftrightarrow> serve_start listen u = Inr () \<and> nt_senders y"
| "phase_ok listen u received events (Dropping r) y \<longleftrightarrow>
     r = serve_start listen u \<and> nt_senders y \<and> is_ok (up_runtime u) \<and>
     (if is_ok r then shutdown_signal (up_interrupt u) (up_terminate u) received else untouched y \<and> events = [])"
| "phase_ok listen u received events (Joining r) y \<longleftrightarrow>
     r = serve_start listen u \<and> \<not> nt_senders y \<and> is_ok (up_runtime u) \<and>
     (if is_ok r then shutdown_signal (up_interrupt u) (up_terminate u) received else untouched y)"
| "phase_ok listen u received events (Over r) y \<longleftrightarrow>
     r = serve_start listen u \<and> \<not> nt_senders y \<and> (is_ok (up_runtime u) \<longrightarrow> \<not> nt_running y) \<and>
     (if is_ok r then shutdown_signal (up_interrupt u) (up_terminate u) received else untouched y)"

definition process_ok ::
  "string \<Rightarrow> startup \<Rightarrow> 'w env \<Rightarrow> (string \<Rightarrow> error + request) \<Rightarrow> config \<Rightarrow> 'w \<Rightarrow> 'w process \<Rightarrow> bool" where
  "process_ok listen u env parse c w p \<longleftrightarrow>
     (case pr_net p of
        None \<Rightarrow> pr_phase p = Thread_Next \<and> pr_events p = [] \<or> pr_phase p = Over (serve_start listen u) \<and> \<not> is_ok (serve_start listen u)
      | Some y \<Rightarrow> net_run env parse (net_new env c w) y \<and>
          phase_ok listen u (pr_received p) (pr_events p) (pr_phase p) y \<and>
          (\<forall>i. nt_clients y i \<noteq> client_new \<longrightarrow> Client_Accepted i \<in> set (pr_events p)) \<and>
          (is_ok (up_watch u) \<or> Cmd_Device_Arrived \<notin> set (nt_accepted y)))"

lemma accepted_event: "i \<in> set (accept_loop events) \<Longrightarrow> Client_Accepted i \<in> set events"
  by (induction events rule: accept_loop.induct) auto

lemma net_step_accepted:
  assumes "net_step env parse y z"
  shows "nt_accepted z = nt_accepted y \<or>
     nt_accepted z = nt_accepted y @ [Cmd_Device_Arrived] \<or>
     (\<exists>i st. nt_accepted z = nt_accepted y @ [command_of st] \<and> nt_clients z i \<noteq> nt_clients y i)"
  using assms
proof (cases rule: net_step.cases)
  case (send c i st)
  then have "nt_clients z i \<noteq> nt_clients y i" by (auto dest: arg_cong [where f = cl_task])
  then show ?thesis using send by auto
qed auto

text \<open>Without senders only the thread moves, and no client changes any more.\<close>

lemma net_step_after:
  "net_step env parse y z \<Longrightarrow> \<not> nt_senders y \<Longrightarrow>
     \<not> nt_senders z \<and> nt_accepted z = nt_accepted y \<and> nt_clients z = nt_clients y \<and> (\<not> nt_running y \<longrightarrow> \<not> nt_running z)"
  by (induction rule: net_step.induct) (auto simp: hand_over_def split: option.split task.split)

lemma phase_ok_working:
  assumes "phase_ok listen u received events ph y" "net_step env parse y z" "nt_senders z = nt_senders y"
    and "phase_allows ph u events y z"
  shows "phase_ok listen u received events ph z"
proof -
  have still: "untouched z" if "untouched y" "events = []"
    using that assms(4) net_step_accepted [OF assms(2)] by (auto simp: phase_allows_def untouched_def)
  show ?thesis using assms(1,3) still net_step_after [OF assms(2)]
    by (cases ph) (auto simp: untouched_def watching_def split: if_splits)
qed

lemma serve_started: "serve_start listen u = Inr () \<Longrightarrow> is_ok (up_runtime u)"
  by (simp add: serve_start_def is_ok_def split: sum.splits)

lemma process_step_ok:
  assumes "process_step listen u env parse c w p q" "process_ok listen u env parse c w p"
  shows "process_ok listen u env parse c w q"
  using assms(1)
proof (cases rule: process_step.cases)
  case (working y z)
  have y: "net_run env parse (net_new env c w) y" "phase_ok listen u (pr_received p) (pr_events p) (pr_phase p) y"
    "\<forall>i. nt_clients y i \<noteq> client_new \<longrightarrow> Client_Accepted i \<in> set (pr_events p)"
    "is_ok (up_watch u) \<or> Cmd_Device_Arrived \<notin> set (nt_accepted y)"
    using assms(2) working(2) by (simp_all add: process_ok_def)
  have "Client_Accepted i \<in> set (pr_events p)" if "nt_clients z i \<noteq> client_new" for i
  proof (cases "nt_clients z i = nt_clients y i")
    case False
    then have "i \<in> set (accept_loop (pr_events p))" using working(5) by (simp add: phase_allows_def)
    then show ?thesis by (rule accepted_event)
  qed (use y(3) that in simp)
  moreover have "is_ok (up_watch u) \<or> Cmd_Device_Arrived \<notin> set (nt_accepted z)"
  proof -
    have "command_of st \<noteq> Cmd_Device_Arrived" for st by (cases st) simp_all
    moreover have "is_ok (up_watch u)" if "watching (pr_phase p) u"
      using that by (simp add: watching_def split: phase.splits)
    ultimately show ?thesis
      using working(5) y(4) net_step_accepted [OF working(3)] by (auto simp: phase_allows_def)
  qed
  ultimately show ?thesis
    using working(1) net_run.next_step [OF y(1) working(3)] phase_ok_working [OF y(2) working(3-5)]
    by (simp add: process_ok_def)
next
  case (build_failed e y)
  have "net_run env parse (net_new env c w) (senders_dropped y)"
    using assms(2) build_failed(2,4) net_run.next_step [OF _ net_step.hang_up] by (auto simp: process_ok_def)
  then show ?thesis using assms(2) build_failed
    by (simp add: process_ok_def serve_start_def is_ok_def untouched_def)
next
  case (bind_failed e y)
  have "net_run env parse (net_new env c w) (senders_dropped y)"
    using assms(2) bind_failed(2,4) net_run.next_step [OF _ net_step.hang_up] by (auto simp: process_ok_def)
  then show ?thesis using assms(2) bind_failed
    by (simp add: process_ok_def serve_start_def is_ok_def untouched_def)
next
  case (runtime_dropped r y)
  have "net_run env parse (net_new env c w) (senders_dropped y)"
    using assms(2) runtime_dropped(2,3) net_run.next_step [OF _ net_step.hang_up] by (auto simp: process_ok_def)
  then show ?thesis using assms(2) runtime_dropped
    by (auto simp: process_ok_def is_ok_def serve_start_def split: sum.splits)
next
  case shut_down
  then show ?thesis using assms(2) serve_started by (auto simp: process_ok_def split: option.splits)
next
  case (signalled sig)
  then show ?thesis using assms(2) by (simp add: process_ok_def split: option.splits)
next
  case spawned
  then show ?thesis using assms(2)
    by (simp add: process_ok_def net_run.start untouched_def split: option.splits) (simp_all add: net_new_def)
qed (use assms(2) in \<open>auto simp: process_ok_def serve_start_def is_ok_def split: option.splits\<close>)

lemma process_run_ok:
  "process_run listen u env parse c w process_new p \<Longrightarrow> process_ok listen u env parse c w p"
proof (induction rule: process_run.induct)
  case (next_step q r)
  show ?case by (rule process_step_ok [OF next_step.hyps(2) next_step.IH])
qed (simp add: process_ok_def process_new_def)

section \<open>The end\<close>

lemma net_ended:
  assumes "net_run env parse (net_new env c w) y" "\<not> nt_running y"
  shows "nt_arbiter y = run_thread env c w (nt_polls y)" "nt_accepted y = taken (nt_polls y)"
  using net_sys_ok [OF assms(1)] assms(2) by (auto simp: sys_ok_def system_of_def)

lemma ended_replies:
  assumes "net_run env parse (net_new env c w) y" "\<not> nt_running y"
  shows "list_all2 reply_for (asks (nt_accepted y)) (replies (a_out (nt_arbiter y)))"
  using net_ended [OF assms] passes_replies [of "nt_polls y" env c w] by (simp add: run_thread_passes)

text \<open>Once the runtime is dropped, \<open>serve\<close> can always return.\<close>

lemma process_run_trans:
  "process_run listen u env parse c w q r \<Longrightarrow> process_run listen u env parse c w p q \<Longrightarrow>
   process_run listen u env parse c w p r"
  by (induction rule: process_run.induct) (auto intro: process_run.next_step)

lemma joining_returns:
  assumes "pr_phase p = Joining r" "pr_net p = Some y" "\<not> nt_senders y"
  shows "\<exists>q. process_run listen u env parse c w p q \<and> pr_phase q = Over r"
  using assms
proof (induction "shutdown_work (system_of y)" arbitrary: p y rule: less_induct)
  case less
  show ?case
  proof (cases "nt_running y")
    case False
    show ?thesis
      by (rule exI, rule conjI, rule process_run.next_step [OF process_run.start process_step.joined [OF less.prems(1,2) False]]) simp
  next
    case True
    obtain z where z: "net_step env parse y z"
    proof (cases "nt_inbox y")
      case Nil
      then show ?thesis using that net_step.stop_thread [OF True _ less.prems(3)] by blast
    next
      case (Cons e rest)
      obtain src cmd x a1 where "e = (src, cmd)" "ask_pass env cmd (nt_arbiter y) = (x, a1)"
        using prod.exhaust by metis
      then show ?thesis using that net_step.take_command [OF True, of src cmd rest] Cons by blast
    qed
    note after = net_step_after [OF z less.prems(3)]
    have "shutdown_work (system_of z) < shutdown_work (system_of y)"
      using z less.prems(3) by (cases rule: net_step.cases) (auto simp: shutdown_work_def system_of_def)
    from less.hyps [OF this, of "p\<lparr>pr_net := Some z\<rparr>"] less.prems(1) after
    obtain q where q: "process_run listen u env parse c w (p\<lparr>pr_net := Some z\<rparr>) q" "pr_phase q = Over r" by auto
    have "process_step listen u env parse c w p (p\<lparr>pr_net := Some z\<rparr>)"
      using less.prems z after by (intro process_step.working) (auto simp: phase_allows_def)
    then show ?thesis using process_run_trans [OF q(1) process_run.next_step [OF process_run.start]] q(2) by blast
  qed
qed

lemma shutdown_returns:
  assumes "process_run listen u env parse c w process_new p"
    and "pr_phase p = Dropping r \<or> pr_phase p = Joining r"
  shows "\<exists>q. process_run listen u env parse c w p q \<and> pr_phase q = Over r"
proof -
  have ok: "process_ok listen u env parse c w p" by (rule process_run_ok [OF assms(1)])
  obtain y where y: "pr_net p = Some y" using ok assms(2) by (auto simp: process_ok_def split: option.splits)
  show ?thesis
  proof (cases "pr_phase p = Joining r")
    case True
    then show ?thesis using joining_returns [OF True y] ok y by (simp add: process_ok_def)
  next
    case False
    then have "pr_phase p = Dropping r" using assms(2) by simp
    note step = process_step.runtime_dropped [OF this y, of listen u env parse c w]
    obtain q where "process_run listen u env parse c w (p\<lparr>pr_phase := Joining r, pr_net := Some (senders_dropped y)\<rparr>) q"
      "pr_phase q = Over r"
      using joining_returns [of "p\<lparr>pr_phase := Joining r, pr_net := Some (senders_dropped y)\<rparr>" r "senders_dropped y"
          listen u env parse c w] by auto
    then show ?thesis using process_run_trans [OF _ process_run.next_step [OF process_run.start step]] by blast
  qed
qed

text \<open>C18: However \<open>serve\<close> ends, it leaves the radio down. In every execution of \<open>serve\<close>, the radio
  thread and the clients in which the runtime could be built, once \<open>serve\<close> has returned the thread has
  ended, no receive stream is open and the transmitter is down, the history of the device kept the
  half-duplex rule throughout, and every command the queue accepted was carried out and
  answered in order. What it returns is what its start-up met. An error means that no client was ever
  served; success, that an interrupt arrived, or a SIGTERM its listener could be registered for, or
  that the interrupt's handler could not be registered, which ends \<open>serve\<close> just the same. Only
  clients accepted before the shutdown were served, and without the hotplug watch no arrival
  was ever noticed.\<close>

theorem serve_leaves_the_radio_down:
  assumes d: "device_new settings h = Inr d"
    and run: "process_run listen u (device_env drv host) parse c (d, e) process_new p"
    and over: "pr_phase p = Over r" and net: "pr_net p = Some y"
    and built: "is_ok (up_runtime u)"
  shows "\<not> nt_running y \<and> \<not> d_rx (fst (a_world (nt_arbiter y))) \<and>
     duplex (False, False) (d_history (fst (a_world (nt_arbiter y)))) = Some (False, False) \<and>
     list_all2 reply_for (asks (nt_accepted y)) (replies (a_out (nt_arbiter y))) \<and>
     r = serve_start listen u \<and>
     (case r of
        Inl er \<Rightarrow> (\<forall>cmd \<in> set (nt_accepted y). cmd = Cmd_Device_Arrived) \<and> (\<forall>i. nt_clients y i = client_new)
      | Inr _ \<Rightarrow> Sigint \<in> set (pr_received p) \<or> is_ok (up_terminate u) \<and> Sigterm \<in> set (pr_received p) \<or>
          \<not> is_ok (up_interrupt u)) \<and>
     (\<forall>i. nt_clients y i \<noteq> client_new \<longrightarrow> Client_Accepted i \<in> set (pr_events p)) \<and>
     (\<not> is_ok (up_watch u) \<longrightarrow> Cmd_Device_Arrived \<notin> set (nt_accepted y))"
proof -
  let ?env = "device_env drv host"
  have "process_ok listen u ?env parse c (d, e) p" by (rule process_run_ok [OF run])
  then have y: "net_run ?env parse (net_new ?env c (d, e)) y" "\<not> nt_running y" "r = serve_start listen u"
    "if is_ok r then shutdown_signal (up_interrupt u) (up_terminate u) (pr_received p) else untouched y"
    "\<forall>i. nt_clients y i \<noteq> client_new \<longrightarrow> Client_Accepted i \<in> set (pr_events p)"
    "is_ok (up_watch u) \<or> Cmd_Device_Arrived \<notin> set (nt_accepted y)"
    using over net built by (simp_all add: process_ok_def)
  from net_ended(1) [OF y(1,2)] have "nt_arbiter y = run_thread ?env c (d, e) (nt_polls y)" .
  then have "dev_ok (fst (a_world (nt_arbiter y))) \<and> \<not> d_rx (fst (a_world (nt_arbiter y)))"
    using dev.run_thread_stops [of "(d, e)" drv host c "nt_polls y"] device_new_ok [OF d] by simp
  then have down: "\<not> d_rx (fst (a_world (nt_arbiter y))) \<and>
     duplex (False, False) (d_history (fst (a_world (nt_arbiter y)))) = Some (False, False)"
    by (auto simp: dev_ok_def duplex_at_def)
  have "case r of
        Inl er \<Rightarrow> (\<forall>cmd \<in> set (nt_accepted y). cmd = Cmd_Device_Arrived) \<and> (\<forall>i. nt_clients y i = client_new)
      | Inr _ \<Rightarrow> Sigint \<in> set (pr_received p) \<or> is_ok (up_terminate u) \<and> Sigterm \<in> set (pr_received p) \<or>
          \<not> is_ok (up_interrupt u)"
    using y(4) by (auto simp: shutdown_signal_iff untouched_def is_ok_def split: sum.splits)
  then show ?thesis using y(2,3,5,6) down ended_replies [OF y(1,2)] by blast
qed

end
