(* ===== verification/Wire_Json.thy ===== *)
theory Wire_Json
  imports Tools "HOL-Library.Monad_Syntax"
begin

text \<open>
  \<open>wire.rs\<close>, the protocol as JSON: what the serde attributes on its types declare. A message
  is an object of the envelope's fields, a \<open>type\<close> tag and the fields of its payload, in the
  order of the declarations; a request is read from such an object, absent fields taking
  their declared defaults and unknown ones being ignored. Printing a JSON value and reading
  one from text are serde_json's and parameters, and so is the text of an error from below.
\<close>

section \<open>JSON values\<close>

datatype json =
    JNull
  | JBool bool
  | JInt int
  | JFloat f64
  | JString string
  | JArray "json list"
  | JObject "(string \<times> json) list"

definition jnat :: "nat \<Rightarrow> json" where "jnat n = JInt (int n)"

lemma jnat_inject [simp]: "jnat m = jnat n \<longleftrightarrow> m = n"
  by (simp add: jnat_def)

text \<open>\<open>skip_serializing_if = "Option::is_none"\<close>\<close>

definition optional_field :: "string \<Rightarrow> ('a \<Rightarrow> json) \<Rightarrow> 'a option \<Rightarrow> (string \<times> json) list" where
  "optional_field name f v = (case v of None \<Rightarrow> [] | Some a \<Rightarrow> [(name, f a)])"

lemma optional_field_simps [simp]:
  "optional_field n f None = []" "optional_field n f (Some a) = [(n, f a)]"
  by (simp_all add: optional_field_def)

section \<open>Writing a message\<close>

text \<open>The texts of \<open>error\<close> messages.\<close>

fun error_message :: "(error \<Rightarrow> string) \<Rightarrow> error_text \<Rightarrow> string" where
  "error_message render (Could_Not_Parse e) = ''could not parse request: '' @ render e"
| "error_message render (Version_Not_Supported v) =
     ''protocol version '' @ dec v @ '' is not supported; this daemon speaks version '' @ dec protocol_version"
| "error_message render (Refused invalid) = refusal_text invalid"
| "error_message render (Rx_Frequency_Out_Of_Range f) =
     dec f @ '' Hz is outside the radio's 1 MHz'' @ en_dash @ ''6 GHz range''"
| "error_message render (From_Radio e) = render e"
| "error_message render Radio_Thread_Gone = ''the radio thread is gone''"
| "error_message render Radio_Thread_Dropped = ''the radio thread dropped the request''"

fun device_state_name :: "device_state \<Rightarrow> string" where
  "device_state_name Receiving = ''receiving''"
| "device_state_name Transmitting = ''transmitting''"
| "device_state_name Idle = ''idle''"
| "device_state_name Faulted = ''faulted''"

definition rx_frame_fields :: "rx_frame \<Rightarrow> (string \<times> json) list" where
  "rx_frame_fields f =
     [(''frequency'', jnat (fr_frequency f)), (''timings'', JArray (map JInt (fr_timings f))),
      (''rssi'', jnat (fr_rssi f)), (''timestamp_ms'', jnat (fr_timestamp_ms f))]"

definition rx_status_json :: "rx_status \<Rightarrow> json" where
  "rx_status_json r = JObject
     ([(''enabled'', JBool (rs_enabled r)), (''frequency'', jnat (rs_frequency r)), (''sample_rate'', jnat (rs_sample_rate r))]
      @ optional_field ''threshold'' jnat (rs_threshold r))"

definition counters_json :: "counters \<Rightarrow> json" where
  "counters_json c = JObject
     [(''rx_frames'', jnat (c_rx_frames c)), (''transmissions'', jnat (c_transmissions c)),
      (''burst_overflows'', jnat (c_burst_overflows c)), (''device_faults'', jnat (c_device_faults c))]"

definition status_fields :: "status \<Rightarrow> (string \<times> json) list" where
  "status_fields st =
     [(''daemon_version'', JString (st_daemon_version st)), (''protocol_version'', jnat (st_protocol_version st)),
      (''state'', JString (device_state_name (st_state st)))]
     @ optional_field ''device'' JString (st_device st)
     @ [(''rx'', rx_status_json (st_rx st)), (''counters'', counters_json (st_counters st))]"

fun payload_fields :: "(error \<Rightarrow> string) \<Rightarrow> message_payload \<Rightarrow> (string \<times> json) list" where
  "payload_fields render (Transmitted d) = [(''type'', JString ''transmitted''), (''duration_us'', JInt d)]"
| "payload_fields render (Error t) = [(''type'', JString ''error''), (''message'', JString (error_message render t))]"
| "payload_fields render (Status st) = (''type'', JString ''status'') # status_fields st"
| "payload_fields render (Rx_Frame f) = (''type'', JString ''rx_frame'') # rx_frame_fields f"
| "payload_fields render (Device_State d) = [(''type'', JString ''device_state''), (''state'', JString (device_state_name d))]"

definition message_fields :: "(error \<Rightarrow> string) \<Rightarrow> message \<Rightarrow> (string \<times> json) list" where
  "message_fields render m =
     (''v'', jnat (msg_v m)) # optional_field ''id'' JString (msg_id m) @ payload_fields render (msg_payload m)"

definition message_json :: "(error \<Rightarrow> string) \<Rightarrow> message \<Rightarrow> json" where
  "message_json render m = JObject (message_fields render m)"

section \<open>Reading a request\<close>

text \<open>A field may be absent; given twice it is refused.\<close>

definition json_field :: "string \<Rightarrow> (string \<times> json) list \<Rightarrow> json option option" where
  "json_field name kvs =
     (case filter (\<lambda>kv. fst kv = name) kvs of [] \<Rightarrow> Some None | [kv] \<Rightarrow> Some (Some (snd kv)) | _ \<Rightarrow> None)"

definition required :: "string \<Rightarrow> (json \<Rightarrow> 'a option) \<Rightarrow> (string \<times> json) list \<Rightarrow> 'a option" where
  "required name read kvs = do { f \<leftarrow> json_field name kvs; j \<leftarrow> f; read j }"

text \<open>\<open>#[serde(default)]\<close>\<close>

definition defaulted :: "string \<Rightarrow> 'a \<Rightarrow> (json \<Rightarrow> 'a option) \<Rightarrow> (string \<times> json) list \<Rightarrow> 'a option" where
  "defaulted name d read kvs =
     do { f \<leftarrow> json_field name kvs; case f of None \<Rightarrow> Some d | Some j \<Rightarrow> read j }"

fun read_uint :: "nat \<Rightarrow> json \<Rightarrow> nat option" where
  "read_uint width (JInt n) = (if 0 \<le> n \<and> n < 2 ^ width then Some (nat n) else None)"
| "read_uint width _ = None"

fun read_i64 :: "json \<Rightarrow> int option" where
  "read_i64 (JInt n) = (if in_i64 n then Some n else None)"
| "read_i64 _ = None"

fun read_bool :: "json \<Rightarrow> bool option" where
  "read_bool (JBool b) = Some b"
| "read_bool _ = None"

fun read_string :: "json \<Rightarrow> string option" where
  "read_string (JString s) = Some s"
| "read_string _ = None"

fun read_option :: "(json \<Rightarrow> 'a option) \<Rightarrow> json \<Rightarrow> 'a option option" where
  "read_option read JNull = Some None"
| "read_option read j = map_option Some (read j)"

fun read_all :: "(json \<Rightarrow> 'a option) \<Rightarrow> json list \<Rightarrow> 'a list option" where
  "read_all read [] = Some []"
| "read_all read (j # js) = do { a \<leftarrow> read j; as \<leftarrow> read_all read js; Some (a # as) }"

fun read_array :: "(json \<Rightarrow> 'a option) \<Rightarrow> json \<Rightarrow> 'a list option" where
  "read_array read (JArray js) = read_all read js"
| "read_array read _ = None"

definition read_transmit :: "(string \<times> json) list \<Rightarrow> transmit option" where
  "read_transmit kvs =
     do { frequency \<leftarrow> required ''frequency'' (read_uint 64) kvs;
          timings \<leftarrow> required ''timings'' (read_array read_i64) kvs;
          repeat \<leftarrow> defaulted ''repeat'' 0 (read_uint 32) kvs;
          gap_us \<leftarrow> defaulted ''gap_us'' 0 (read_uint 32) kvs;
          txvga_db \<leftarrow> defaulted ''txvga_db'' None (read_option (read_uint 16)) kvs;
          amp \<leftarrow> defaulted ''amp'' False read_bool kvs;
          Some \<lparr>tx_frequency = frequency, tx_timings = timings, tx_repeat = repeat, tx_gap_us = gap_us,
                tx_txvga_db = txvga_db, tx_amp = amp\<rparr> }"

definition read_configure_rx :: "(string \<times> json) list \<Rightarrow> configure_rx option" where
  "read_configure_rx kvs =
     do { frequency \<leftarrow> defaulted ''frequency'' None (read_option (read_uint 64)) kvs;
          enabled \<leftarrow> required ''enabled'' read_bool kvs;
          Some \<lparr>rx_frequency_opt = frequency, rx_enable = enabled\<rparr> }"

definition read_payload :: "(string \<times> json) list \<Rightarrow> request_payload option" where
  "read_payload kvs =
     do { tag \<leftarrow> required ''type'' read_string kvs;
          if tag = ''transmit'' then map_option Transmit (read_transmit kvs)
          else if tag = ''configure_rx'' then map_option Configure_Rx (read_configure_rx kvs)
          else if tag = ''status'' then Some Status_Request
          else None }"

fun read_request :: "json \<Rightarrow> request option" where
  "read_request (JObject kvs) =
     do { v \<leftarrow> defaulted ''v'' protocol_version (read_uint 32) kvs;
          i \<leftarrow> defaulted ''id'' None (read_option read_string) kvs;
          payload \<leftarrow> read_payload kvs;
          Some \<lparr>req_v = v, req_id = i, req_payload = payload\<rparr> }"
| "read_request _ = None"

text \<open>\<open>serde_json::from_str\<close> and \<open>to_string\<close>, given how JSON text is read and printed.\<close>

definition wire_parse :: "(string \<Rightarrow> error + json) \<Rightarrow> string \<Rightarrow> error + request" where
  "wire_parse read txt =
     (case read txt of Inl e \<Rightarrow> Inl e
      | Inr j \<Rightarrow> (case read_request j of None \<Rightarrow> Inl (Message ''not a request'' []) | Some r \<Rightarrow> Inr r))"

definition wire_encode :: "(json \<Rightarrow> string) \<Rightarrow> (error \<Rightarrow> string) \<Rightarrow> message \<Rightarrow> error + string" where
  "wire_encode print render m = Inr (print (message_json render m))"


section \<open>What is read fits its types\<close>

definition wf_request :: "request \<Rightarrow> bool" where
  "wf_request r \<longleftrightarrow> req_v r < 2 ^ 32 \<and>
     (case req_payload r of Transmit t \<Rightarrow> wf_transmit t
      | Configure_Rx c \<Rightarrow> (case rx_frequency_opt c of None \<Rightarrow> True | Some f \<Rightarrow> f < 2 ^ 64)
      | Status_Request \<Rightarrow> True)"

lemma bind_Some: "Option.bind m f = Some b \<longleftrightarrow> (\<exists>a. m = Some a \<and> f a = Some b)"
  by (cases m) auto

lemma read_uint_less: "read_uint w j = Some n \<Longrightarrow> n < 2 ^ w"
  by (cases j) (auto split: if_splits simp: nat_less_iff)

lemma read_i64_in: "read_i64 j = Some n \<Longrightarrow> in_i64 n"
  by (cases j) (auto split: if_splits)

lemma read_all_all: "read_all read js = Some as \<Longrightarrow> (\<And>j a. read j = Some a \<Longrightarrow> P a) \<Longrightarrow> list_all P as"
  by (induction js arbitrary: as) (auto simp: bind_Some)

lemma read_array_all: "read_array read j = Some as \<Longrightarrow> (\<And>j a. read j = Some a \<Longrightarrow> P a) \<Longrightarrow> list_all P as"
  by (cases j) (auto intro: read_all_all)

lemma required_read: "required n read kvs = Some a \<Longrightarrow> \<exists>j. read j = Some a"
  by (auto simp: required_def bind_Some)

lemma defaulted_read: "defaulted n d read kvs = Some a \<Longrightarrow> a = d \<or> (\<exists>j. read j = Some a)"
  by (auto simp: defaulted_def bind_Some split: option.splits)

lemma read_option_read: "read_option read j = Some (Some a) \<Longrightarrow> \<exists>j. read j = Some a"
  by (cases j) auto


lemma defaulted_option_read:
  assumes "defaulted n None (read_option read) kvs = Some (Some a)"
  shows "\<exists>j. read j = Some a"
proof -
  obtain j where "read_option read j = Some (Some a)" using defaulted_read [OF assms] by auto
  then show ?thesis by (rule read_option_read)
qed

lemma read_transmit_wf: "read_transmit kvs = Some t \<Longrightarrow> wf_transmit t"
proof -
  assume "read_transmit kvs = Some t"
  then obtain f ts r g x a where t: "t = \<lparr>tx_frequency = f, tx_timings = ts, tx_repeat = r, tx_gap_us = g, tx_txvga_db = x, tx_amp = a\<rparr>"
    and f: "required ''frequency'' (read_uint 64) kvs = Some f" and ts: "required ''timings'' (read_array read_i64) kvs = Some ts"
    and r: "defaulted ''repeat'' 0 (read_uint 32) kvs = Some r" and g: "defaulted ''gap_us'' 0 (read_uint 32) kvs = Some g"
    and x: "defaulted ''txvga_db'' None (read_option (read_uint 16)) kvs = Some x"
    by (auto simp: read_transmit_def bind_Some)
  have "f < 2 ^ 64" using required_read [OF f] read_uint_less by blast
  moreover have "list_all in_i64 ts" using required_read [OF ts] read_array_all read_i64_in by blast
  moreover have "r < 2 ^ 32" using defaulted_read [OF r] by (auto dest: read_uint_less)
  moreover have "g < 2 ^ 32" using defaulted_read [OF g] by (auto dest: read_uint_less)
  moreover have "n < 2 ^ 16" if "x = Some n" for n
    using defaulted_option_read [OF x [unfolded that]] read_uint_less by blast
  ultimately show ?thesis
    by (auto simp: wf_transmit_def t list_all_iff u64_max_def u32_max_def u16_max_def)
qed

lemma read_request_cases:
  assumes "read_request j = Some r"
  obtains kvs where "j = JObject kvs" "defaulted ''v'' protocol_version (read_uint 32) kvs = Some (req_v r)"
    "defaulted ''id'' None (read_option read_string) kvs = Some (req_id r)" "read_payload kvs = Some (req_payload r)"
  using assms by (cases j) (auto simp: bind_Some)

lemma read_request_wf:
  assumes "read_request j = Some r"
  shows "wf_request r"
proof -
  obtain kvs where v: "defaulted ''v'' protocol_version (read_uint 32) kvs = Some (req_v r)"
    and p: "read_payload kvs = Some (req_payload r)" using assms by (rule read_request_cases)
  have "req_v r < 2 ^ 32"
    using defaulted_read [OF v] by (auto simp: protocol_version_def dest: read_uint_less)
  moreover have "f < 2 ^ 64" if "defaulted ''frequency'' None (read_option (read_uint 64)) kvs = Some (Some f)" for kvs f
    using defaulted_option_read [OF that] read_uint_less by blast
  then have "f < 2 ^ 64" if "read_configure_rx kvs = Some c" "rx_frequency_opt c = Some f" for kvs c f
    using that by (auto simp: read_configure_rx_def bind_Some)
  moreover have "wf_transmit t" if "req_payload r = Transmit t" for t
    using p that read_transmit_wf by (auto simp: read_payload_def bind_Some split: if_splits)
  moreover have "\<exists>kvs. read_configure_rx kvs = Some c" if "req_payload r = Configure_Rx c" for c
    using p that by (auto simp: read_payload_def bind_Some split: if_splits)
  ultimately show ?thesis
    by (cases "req_payload r") (auto simp: wf_request_def split: option.split)
qed

section \<open>The order of fields, and fields nobody declared\<close>

text \<open>All the keys a request is read by.\<close>

definition request_keys :: "string list" where
  "request_keys = [''v'', ''id'', ''type'', ''frequency'', ''timings'', ''repeat'', ''gap_us'', ''txvga_db'', ''amp'', ''enabled'']"

definition same_fields :: "(string \<times> json) list \<Rightarrow> (string \<times> json) list \<Rightarrow> bool" where
  "same_fields kvs kvs1 \<longleftrightarrow>
     mset (filter (\<lambda>kv. fst kv \<in> set request_keys) kvs) = mset (filter (\<lambda>kv. fst kv \<in> set request_keys) kvs1)"

lemma json_field_same:
  assumes "same_fields kvs kvs1" "name \<in> set request_keys"
  shows "json_field name kvs = json_field name kvs1"
proof -
  have "filter (\<lambda>kv. fst kv = name) kvs2 = filter (\<lambda>kv. fst kv = name) (filter (\<lambda>kv. fst kv \<in> set request_keys) kvs2)" for kvs2 :: "(string \<times> json) list"
    using assms(2) by (induction kvs2) auto
  then have m: "mset (filter (\<lambda>kv. fst kv = name) kvs) = mset (filter (\<lambda>kv. fst kv = name) kvs1)"
    using assms(1) unfolding same_fields_def by (metis mset_filter)
  let ?l = "filter (\<lambda>kv. fst kv = name) kvs" and ?l1 = "filter (\<lambda>kv. fst kv = name) kvs1"
  have len: "length ?l = length ?l1" using m by (metis size_mset)
  show ?thesis
  proof (cases "?l")
    case Nil
    then show ?thesis using len by (simp add: json_field_def)
  next
    case (Cons a as)
    then obtain b bs where b: "?l1 = b # bs" using len by (cases ?l1) auto
    show ?thesis
    proof (cases as)
      case Nil
      then have "?l1 = [a]" using m Cons b len by simp
      then show ?thesis using Cons Nil by (simp add: json_field_def)
    next
      case (Cons c cs)
      then show ?thesis using \<open>?l = a # as\<close> b len by (cases bs) (auto simp: json_field_def)
    qed
  qed
qed

lemma read_request_same:
  assumes "same_fields kvs kvs1"
  shows "read_request (JObject kvs) = read_request (JObject kvs1)"
proof -
  have f: "json_field name kvs = json_field name kvs1" if "name \<in> set request_keys" for name
    by (rule json_field_same [OF assms that])
  have rt: "read_transmit kvs = read_transmit kvs1" and rc: "read_configure_rx kvs = read_configure_rx kvs1"
    unfolding read_transmit_def read_configure_rx_def using f
    by (simp_all add: required_def defaulted_def request_keys_def)
  have "read_payload kvs = read_payload kvs1"
    unfolding read_payload_def rt rc using f by (simp add: required_def request_keys_def)
  then show ?thesis using f by (simp add: defaulted_def request_keys_def)
qed

text \<open>C22: A request is what its fields say. Whatever text a client sends, a request that is read
  from it has every number within the width of its field; and neither the order of the
  fields nor fields the protocol does not know change what is read.\<close>

theorem requests_are_read_by_field:
  "(read_request j = Some r \<longrightarrow> wf_request r) \<and>
   (same_fields kvs kvs1 \<longrightarrow> read_request (JObject kvs) = read_request (JObject kvs1))"
  using read_request_wf read_request_same by blast

section \<open>Messages are told apart\<close>

lemma map_JInt_inject [simp]: "map JInt xs = map JInt ys \<longleftrightarrow> xs = ys"
  by (rule inj_map_eq_map) (simp add: inj_def)

lemma device_state_name_inject [simp]: "device_state_name d = device_state_name e \<longleftrightarrow> d = e"
  by (cases d; cases e) simp_all

lemma rx_frame_fields_inject: "rx_frame_fields f = rx_frame_fields g \<Longrightarrow> f = g"
  by (cases f; cases g) (simp add: rx_frame_fields_def)

lemma rx_status_json_inject: "rx_status_json r = rx_status_json s \<Longrightarrow> r = s"
  by (cases r; cases s; cases "rs_threshold r"; cases "rs_threshold s") (auto simp: rx_status_json_def)

lemma counters_json_inject: "counters_json c = counters_json d \<Longrightarrow> c = d"
  by (cases c; cases d) (simp add: counters_json_def)

lemma status_fields_inject: "status_fields s = status_fields t \<Longrightarrow> s = t"
  by (cases s; cases t; cases "st_device s"; cases "st_device t")
    (auto simp: status_fields_def dest: rx_status_json_inject counters_json_inject)

definition carries_error :: "message \<Rightarrow> bool" where
  "carries_error m = (case msg_payload m of Error t \<Rightarrow> True | _ \<Rightarrow> False)"

lemma payload_fields_inject:
  "payload_fields render p = payload_fields render q \<Longrightarrow> (\<And>t. p \<noteq> Error t) \<Longrightarrow> p = q"
  by (cases p; cases q) (auto dest: rx_frame_fields_inject status_fields_inject)

lemma payload_fields_type: "\<exists>tag rest. payload_fields render p = (''type'', JString tag) # rest"
  by (cases p) simp_all

lemma message_json_inject:
  assumes "message_json render m = message_json render n" "\<not> carries_error m"
  shows "m = n"
proof -
  obtain t1 r1 t2 r2 where t: "payload_fields render (msg_payload m) = (''type'', JString t1) # r1"
    "payload_fields render (msg_payload n) = (''type'', JString t2) # r2"
    using payload_fields_type by metis
  have "msg_v m = msg_v n" "msg_id m = msg_id n" "payload_fields render (msg_payload m) = payload_fields render (msg_payload n)"
    using assms(1) t by (cases "msg_id m"; cases "msg_id n"; auto simp: message_json_def message_fields_def)+
  then show ?thesis using payload_fields_inject assms(2)
    by (cases m; cases n) (auto simp: carries_error_def split: message_payload.splits)
qed

end
