(* ===== verification/Proxy_Client.thy ===== *)
theory Proxy_Client
  imports Wire_Json
begin

text \<open>
  \<open>client.py\<close>, the Python client: requests multiplexed over one connection, replies matched by
  id, availability, reconnecting. A coroutine is cut at its awaits, and a step is what the
  client does between two of them. The event loop, the sockets and the clock decide what
  arrives when; listeners and callbacks are recorded as calls. A Python dictionary is the
  fields of a JSON object, without duplicates.
\<close>

section \<open>Dictionaries\<close>

type_synonym dict = "(string \<times> json) list"

text \<open>\<open>payload.get(key)\<close>: absent and null are both \<open>None\<close>.\<close>

definition py_get :: "string \<Rightarrow> dict \<Rightarrow> json option" where
  "py_get key d = (case map_of d key of None \<Rightarrow> None | Some JNull \<Rightarrow> None | Some j \<Rightarrow> Some j)"

text \<open>\<open>str(request_id)\<close> where it can be a key of \<open>_pending\<close>, whose keys are decimal numbers: no
  other value prints as one.\<close>

fun py_key :: "json \<Rightarrow> string option" where
  "py_key (JString s) = Some s"
| "py_key (JInt n) = (if 0 \<le> n then Some (dec (nat n)) else None)"
| "py_key _ = None"

definition client_protocol_version :: int where "client_protocol_version = 1"

text \<open>\<open>version_string.split(".", 1)[0]\<close>, a number if it consists of digits.\<close>

definition semver_major :: "string \<Rightarrow> nat option" where
  "semver_major s =
     (let head = takeWhile (\<lambda>c. c \<noteq> CHR ''.'') s
      in if head \<noteq> [] \<and> list_all is_digit head then Some (digits_value head) else None)"

section \<open>State\<close>

text \<open>A future, named by the request id it was made for: not done, with a result, or with
  \<open>_fail_pending\<close>'s exception. \<open>_pending\<close> is the ids whose futures it holds; the request that
  waits for a future holds it too.\<close>

datatype future = Waiting | Result dict | Disconnected

datatype listener_call = Availability bool | Update | Heard dict

record proxy =
  px_socket :: bool
  px_connected :: bool
  px_pending :: "string set"
  px_futures :: "string \<rightharpoonup> future"
  px_next_id :: nat
  px_device :: "json option"
  px_daemon_version :: "json option"
  px_state :: "json option"
  px_connected_since :: "nat option"
  px_disconnects :: nat
  px_last_rx_frame :: "nat option"
  px_calls :: "listener_call list"

definition proxy_new :: proxy where
  "proxy_new =
     \<lparr>px_socket = False, px_connected = False, px_pending = {}, px_futures = Map.empty, px_next_id = 0, px_device = None,
      px_daemon_version = None, px_state = None, px_connected_since = None, px_disconnects = 0,
      px_last_rx_frame = None, px_calls = []\<rparr>"

definition px_available :: "proxy \<Rightarrow> bool" where "px_available p = px_connected p"

text \<open>\<open>is_compatible\<close>, given this side's version; a daemon reports its version as a string.\<close>

definition is_compatible :: "string \<Rightarrow> proxy \<Rightarrow> bool option" where
  "is_compatible ours p =
     (case px_daemon_version p of
        Some (JString theirs) \<Rightarrow>
          (case (semver_major ours, semver_major theirs) of (Some a, Some b) \<Rightarrow> Some (a = b) | _ \<Rightarrow> None)
      | _ \<Rightarrow> None)"

definition notify :: "proxy \<Rightarrow> proxy" where
  "notify p = p\<lparr>px_calls := px_calls p @ [Update]\<rparr>"

definition set_available :: "bool \<Rightarrow> proxy \<Rightarrow> proxy" where
  "set_available b p =
     (if b = px_connected p then p else p\<lparr>px_connected := b, px_calls := px_calls p @ [Availability b]\<rparr>)"

text \<open>Listeners: a call goes to a copy of the list, in the order of subscription; unsubscribing
  removes one entry and does nothing the second time.\<close>

definition add_listener :: "'l \<Rightarrow> 'l list \<Rightarrow> 'l list" where "add_listener l ls = ls @ [l]"
definition unsubscribe :: "'l \<Rightarrow> 'l list \<Rightarrow> 'l list" where "unsubscribe l ls = remove1 l ls"

definition calls_heard :: "'l list \<Rightarrow> 'l list \<Rightarrow> listener_call \<Rightarrow> ('l \<times> listener_call) list" where
  "calls_heard availability update c =
     (case c of Availability b \<Rightarrow> map (\<lambda>l. (l, c)) availability | Update \<Rightarrow> map (\<lambda>l. (l, c)) update | Heard d \<Rightarrow> [])"

lemma unsubscribed:
  "l \<notin> set ls \<Longrightarrow> unsubscribe l (add_listener l ls) = ls"
  "l \<notin> set ls \<Longrightarrow> unsubscribe l ls = ls"
  "k \<noteq> l \<Longrightarrow> filter ((=) k) (unsubscribe l ls) = filter ((=) k) ls"
  by (simp_all add: add_listener_def unsubscribe_def remove1_append remove1_idem filter_remove1)

section \<open>Requests\<close>

datatype proxy_error = Not_Connected | No_Answer_In_Time | Unreachable | Lost_Connection | Refused_By_Daemon "json option"

text \<open>\<open>_request\<close>, up to its first await: the message to send and the future to wait for.\<close>

definition request_begin :: "dict \<Rightarrow> proxy \<Rightarrow> (proxy_error + string \<times> dict) \<times> proxy" where
  "request_begin payload p =
     (if \<not> px_socket p \<or> \<not> px_connected p then (Inl Not_Connected, p)
      else let n = px_next_id p + 1; request_id = dec n;
               message = [(''v'', JInt client_protocol_version), (''id'', JString request_id)] @ payload
           in (Inr (request_id, message), p\<lparr>px_next_id := n, px_pending := insert request_id (px_pending p),
               px_futures := (px_futures p)(request_id \<mapsto> Waiting)\<rparr>))"

text \<open>How the waiting ends: with the future, with the timeout, or with an error of the socket.\<close>

datatype waited = Future_Done future | Timed_Out | Send_Failed

definition request_end :: "string \<Rightarrow> waited \<Rightarrow> proxy \<Rightarrow> (proxy_error + dict) \<times> proxy" where
  "request_end request_id w p =
     (case w of
        Future_Done (Result answer) \<Rightarrow>
          if py_get ''type'' answer = Some (JString ''error'') then Inl (Refused_By_Daemon (map_of answer ''message'')) else Inr answer
      | Future_Done _ \<Rightarrow> Inl Lost_Connection
      | Timed_Out \<Rightarrow> Inl No_Answer_In_Time
      | Send_Failed \<Rightarrow> Inl Unreachable,
      p\<lparr>px_pending := px_pending p - {request_id}\<rparr>)"

text \<open>\<open>max(0, min(47, round(output_power * 47)))\<close>: Python's \<open>round\<close> takes the even neighbour, and
  raises on what is not finite.\<close>

definition power_to_gain :: "f64 \<Rightarrow> int option" where
  "power_to_gain level =
     (case f_mul level (to_f64 47) of Fin x \<Rightarrow> Some (max 0 (min 47 (round_even x))) | _ \<Rightarrow> None)"

definition transmit_payload :: "int \<Rightarrow> int list \<Rightarrow> int \<Rightarrow> int option \<Rightarrow> f64 option \<Rightarrow> dict option" where
  "transmit_payload frequency timings repeat gap_us output_power =
     (let request = [(''type'', JString ''transmit''), (''frequency'', JInt frequency),
            (''timings'', JArray (map JInt timings)), (''repeat'', JInt repeat)] @ optional_field ''gap_us'' JInt gap_us
      in case output_power of None \<Rightarrow> Some request
         | Some level \<Rightarrow> (case power_to_gain level of None \<Rightarrow> None | Some g \<Rightarrow> Some (request @ [(''txvga_db'', JInt g)])))"

definition status_payload :: dict where "status_payload = [(''type'', JString ''status'')]"

text \<open>\<open>int(reply.get("duration_us", 0))\<close>; a daemon sends an integer.\<close>

definition transmit_result :: "dict \<Rightarrow> int" where
  "transmit_result answer = (case map_of answer ''duration_us'' of Some (JInt d) \<Rightarrow> d | _ \<Rightarrow> 0)"

section \<open>Messages\<close>

definition client_dispatch :: "nat \<Rightarrow> dict \<Rightarrow> proxy \<Rightarrow> proxy" where
  "client_dispatch now payload p =
     (case Option.bind (Option.bind (py_get ''id'' payload) py_key) (\<lambda>k. if k \<in> px_pending p then Some k else None) of
        Some k \<Rightarrow>
          (if px_futures p k = Some Waiting then p\<lparr>px_futures := (px_futures p)(k \<mapsto> Result payload)\<rparr> else p)
      | None \<Rightarrow>
          (let kind = py_get ''type'' payload
           in if kind = Some (JString ''rx_frame'')
              then (let p1 = notify (p\<lparr>px_last_rx_frame := Some now\<rparr>) in p1\<lparr>px_calls := px_calls p1 @ [Heard payload]\<rparr>)
              else if kind = Some (JString ''device_state'')
              then (let state = py_get ''state'' payload
                    in notify (set_available (state \<noteq> Some (JString ''faulted'')) (p\<lparr>px_state := state\<rparr>)))
              else p))"

section \<open>The connection\<close>

text \<open>\<open>_first_status\<close> sends a status request and drops what comes before its reply.\<close>

definition hello :: dict where
  "hello = [(''v'', JInt client_protocol_version), (''id'', JString ''hello''), (''type'', JString ''status'')]"

definition is_hello_reply :: "dict \<Rightarrow> bool" where
  "is_hello_reply payload \<longleftrightarrow> py_get ''id'' payload = Some (JString ''hello'')"

definition first_status :: "dict list \<Rightarrow> dict option" where
  "first_status received = find is_hello_reply received"

text \<open>\<open>_read_until_closed\<close>, once the status has been answered.\<close>

definition handshake_done :: "nat \<Rightarrow> dict \<Rightarrow> proxy \<Rightarrow> proxy" where
  "handshake_done now status p =
     notify (set_available True
       (p\<lparr>px_device := py_get ''device'' status, px_daemon_version := py_get ''daemon_version'' status,
          px_state := py_get ''state'' status, px_connected_since := Some now\<rparr>))"

definition fail_pending :: "proxy \<Rightarrow> proxy" where
  "fail_pending p =
     p\<lparr>px_futures := (\<lambda>k. if k \<in> px_pending p \<and> px_futures p k = Some Waiting then Some Disconnected else px_futures p k),
        px_pending := {}\<rparr>"

text \<open>\<open>_run\<close>: the \<open>finally\<close> block, reached however the connection ended or failed.\<close>

definition connection_over :: "proxy \<Rightarrow> proxy" where
  "connection_over p =
     fail_pending (notify (set_available False
       (p\<lparr>px_socket := False, px_state := None,
          px_disconnects := px_disconnects p + (if px_connected_since p \<noteq> None then 1 else 0),
          px_connected_since := None\<rparr>)))"

definition initial_backoff :: nat where "initial_backoff = 1"
definition max_backoff :: nat where "max_backoff = 60"

text \<open>Where \<open>_run\<close> is.\<close>

datatype run_phase = Connecting | Handshaking | Reading_Messages | Backing_Off nat | Stopped

record run_state =
  rn_proxy :: proxy
  rn_phase :: run_phase
  rn_backoff :: nat

definition run_new :: run_state where
  "run_new = \<lparr>rn_proxy = proxy_new, rn_phase = Connecting, rn_backoff = initial_backoff\<rparr>"

text \<open>\<open>finally\<close>, then the sleep.\<close>

definition lost :: "run_state \<Rightarrow> run_state" where
  "lost r = r\<lparr>rn_proxy := connection_over (rn_proxy r), rn_phase := Backing_Off (rn_backoff r)\<rparr>"

text \<open>\<open>async_start\<close> starts the task, \<open>async_stop\<close> cancels it where it waits; an exception that \<open>_run\<close>
  does not catch ends it like a cancellation does.\<close>

inductive client_step :: "run_state \<Rightarrow> run_state \<Rightarrow> bool" where
  connected: "rn_phase r = Connecting \<Longrightarrow>
     client_step r (r\<lparr>rn_proxy := (rn_proxy r)\<lparr>px_socket := True\<rparr>, rn_phase := Handshaking, rn_backoff := initial_backoff\<rparr>)"
| connect_failed: "rn_phase r = Connecting \<Longrightarrow> client_step r (lost r)"
| greeted: "rn_phase r = Handshaking \<Longrightarrow> first_status received = Some status \<Longrightarrow>
     client_step r (r\<lparr>rn_proxy := handshake_done now status (rn_proxy r), rn_phase := Reading_Messages\<rparr>)"
| not_greeted: "rn_phase r = Handshaking \<Longrightarrow> client_step r (lost r)"
| message: "rn_phase r = Reading_Messages \<Longrightarrow>
     client_step r (r\<lparr>rn_proxy := client_dispatch now payload (rn_proxy r)\<rparr>)"
| closed: "rn_phase r = Reading_Messages \<Longrightarrow> client_step r (lost r)"
| slept: "rn_phase r = Backing_Off n \<Longrightarrow>
     client_step r (r\<lparr>rn_phase := Connecting, rn_backoff := min (rn_backoff r * 2) max_backoff\<rparr>)"
| started: "rn_phase r = Stopped \<Longrightarrow> client_step r (r\<lparr>rn_phase := Connecting, rn_backoff := initial_backoff\<rparr>)"
| stopped: "rn_phase r \<in> {Connecting, Handshaking, Reading_Messages} \<Longrightarrow>
     client_step r (r\<lparr>rn_proxy := connection_over (rn_proxy r), rn_phase := Stopped\<rparr>)"
| stopped_asleep: "rn_phase r = Backing_Off n \<Longrightarrow> client_step r (r\<lparr>rn_phase := Stopped\<rparr>)"
| requested: "request_begin payload (rn_proxy r) = (Inr sent, p) \<Longrightarrow> client_step r (r\<lparr>rn_proxy := p\<rparr>)"
| request_over: "request_end request_id w (rn_proxy r) = (outcome, p) \<Longrightarrow>
     (case w of Future_Done f \<Rightarrow> px_futures (rn_proxy r) request_id = Some f \<and> f \<noteq> Waiting | _ \<Rightarrow> True) \<Longrightarrow>
     client_step r (r\<lparr>rn_proxy := p\<rparr>)"

inductive client_run :: "run_state \<Rightarrow> bool" where
  start: "client_run run_new"
| next_step: "client_run r \<Longrightarrow> client_step r r1 \<Longrightarrow> client_run r1"


section \<open>What a future gets\<close>

text \<open>The dictionary a future was given bears its id.\<close>

definition answers_id :: "string \<Rightarrow> dict \<Rightarrow> bool" where
  "answers_id k payload \<longleftrightarrow> Option.bind (py_get ''id'' payload) py_key = Some k"

text \<open>Ids are the numbers handed out so far, a pending one has a future, and a result is for its
  own request.\<close>

definition proxy_ok :: "proxy \<Rightarrow> bool" where
  "proxy_ok p \<longleftrightarrow> px_pending p \<subseteq> dom (px_futures p) \<and>
     (\<forall>k \<in> dom (px_futures p). \<exists>n. k = dec n \<and> 1 \<le> n \<and> n \<le> px_next_id p) \<and>
     (\<forall>k d. px_futures p k = Some (Result d) \<longrightarrow> answers_id k d)"

lemma proxy_ok_cong:
  "px_pending p1 = px_pending p \<Longrightarrow> px_futures p1 = px_futures p \<Longrightarrow> px_next_id p1 = px_next_id p \<Longrightarrow> proxy_ok p1 = proxy_ok p"
  by (simp add: proxy_ok_def)

lemma notify_simps [simp]:
  "px_pending (notify p) = px_pending p" "px_futures (notify p) = px_futures p" "px_next_id (notify p) = px_next_id p"
  "px_state (notify p) = px_state p" "px_connected (notify p) = px_connected p" "px_socket (notify p) = px_socket p"
  by (simp_all add: notify_def)

lemma set_available_simps [simp]:
  "px_pending (set_available b p) = px_pending p" "px_futures (set_available b p) = px_futures p"
  "px_next_id (set_available b p) = px_next_id p" "px_state (set_available b p) = px_state p"
  "px_connected (set_available b p) = b" "px_socket (set_available b p) = px_socket p"
  by (simp_all add: set_available_def)

lemma proxy_ok_new: "proxy_ok proxy_new"
  by (simp add: proxy_ok_def proxy_new_def)

lemma proxy_ok_notify [simp]: "proxy_ok (notify p) = proxy_ok p"
  and proxy_ok_available [simp]: "proxy_ok (set_available b p) = proxy_ok p"
  by (simp_all add: proxy_ok_def)

lemma client_dispatch_ok: "proxy_ok p \<Longrightarrow> proxy_ok (client_dispatch now payload p)"
  by (auto simp: client_dispatch_def Let_def proxy_ok_def answers_id_def bind_Some split: option.splits if_splits)

lemma request_begin_ok:
  assumes "request_begin payload p = (r, p1)" "proxy_ok p"
  shows "proxy_ok p1"
proof -
  have "\<exists>m. k = dec m \<and> 1 \<le> m \<and> m \<le> px_next_id p + 1" if "px_futures p k = Some f" for k f
    using assms(2) that unfolding proxy_ok_def by (metis domI le_SucI Suc_eq_plus1)
  then show ?thesis using assms by (fastforce simp: request_begin_def proxy_ok_def Let_def split: if_splits)
qed

lemma connection_over_ok: "proxy_ok p \<Longrightarrow> proxy_ok (connection_over p)"
  by (auto simp: connection_over_def fail_pending_def proxy_ok_def dom_def split: if_splits)

lemma client_step_ok: "client_step r r1 \<Longrightarrow> proxy_ok (rn_proxy r) \<Longrightarrow> proxy_ok (rn_proxy r1)"
  by (induction rule: client_step.induct)
    (auto simp: lost_def handshake_done_def request_end_def connection_over_ok client_dispatch_ok
      intro: request_begin_ok, auto simp: proxy_ok_def)

lemma client_run_ok: "client_run r \<Longrightarrow> proxy_ok (rn_proxy r)"
  by (induction rule: client_run.induct) (auto simp: run_new_def proxy_ok_new client_step_ok)


section \<open>Where the connection is\<close>

text \<open>Away from an established connection the client is not available and nobody waits.\<close>

definition run_ok :: "run_state \<Rightarrow> bool" where
  "run_ok r \<longleftrightarrow>
     (case rn_phase r of
        Reading_Messages \<Rightarrow> px_socket (rn_proxy r) \<and> px_connected_since (rn_proxy r) \<noteq> None
      | ph \<Rightarrow> \<not> px_connected (rn_proxy r) \<and> px_pending (rn_proxy r) = {} \<and> px_state (rn_proxy r) = None \<and>
              px_connected_since (rn_proxy r) = None \<and> px_socket (rn_proxy r) = (ph = Handshaking) \<and>
              (case ph of Backing_Off n \<Rightarrow> n = rn_backoff r | _ \<Rightarrow> True)) \<and>
     (\<exists>k. rn_backoff r = min (2 ^ k) max_backoff)"

lemma connection_over_simps [simp]:
  "px_connected (connection_over p) = False" "px_pending (connection_over p) = {}" "px_socket (connection_over p) = False"
  "px_state (connection_over p) = None" "px_connected_since (connection_over p) = None"
  by (simp_all add: connection_over_def fail_pending_def notify_def set_available_def)

lemma client_dispatch_keeps [simp]:
  "px_socket (client_dispatch now d p) = px_socket p" "px_connected_since (client_dispatch now d p) = px_connected_since p"
  by (simp_all add: client_dispatch_def Let_def notify_def set_available_def split: option.split)

lemma handshake_done_simps [simp]:
  "px_socket (handshake_done now d p) = px_socket p" "px_connected_since (handshake_done now d p) = Some now"
  "px_connected (handshake_done now d p)" "px_state (handshake_done now d p) = py_get ''state'' d"
  by (simp_all add: handshake_done_def notify_def set_available_def)

lemma request_begin_sent:
  assumes "request_begin payload p = (Inr sent, p1)"
  shows "px_socket p" "px_connected p" "px_socket p1" "px_connected_since p1 = px_connected_since p"
  using assms by (auto simp: request_begin_def Let_def split: if_splits)

lemma request_end_keeps:
  assumes "request_end k w p = (x, p1)"
  shows "p1 = p\<lparr>px_pending := px_pending p - {k}\<rparr>"
  using assms by (simp add: request_end_def)

lemma widened: "(\<exists>k. b = min (2 ^ k) max_backoff) \<Longrightarrow> \<exists>k. min (b * 2) max_backoff = min (2 ^ k) max_backoff"
proof (elim exE)
  fix k :: nat assume "b = min (2 ^ k) max_backoff"
  then show ?thesis by (intro exI [of _ "Suc k"]) (auto simp: max_backoff_def min_def)
qed

lemma first_backoff: "\<exists>k. initial_backoff = min (2 ^ k) max_backoff"
  by (intro exI [of _ 0]) (simp add: initial_backoff_def max_backoff_def)

lemma run_ok_step: "client_step r r1 \<Longrightarrow> run_ok r \<Longrightarrow> run_ok r1"
proof (induction rule: client_step.induct)
  case (requested payload r sent p)
  then show ?case using request_begin_sent [OF requested.hyps] by (auto simp: run_ok_def split: run_phase.splits)
next
  case (request_over k w r x p)
  show ?case unfolding request_end_keeps [OF request_over.hyps(1)] using request_over.prems
    by (auto simp: run_ok_def split: run_phase.splits)
next
  case (slept r n)
  then show ?case using widened [of "rn_backoff r"] by (simp add: run_ok_def)
next
  case (connected r)
  then show ?case using first_backoff by (simp add: run_ok_def)
next
  case (started r)
  then show ?case using first_backoff by (simp add: run_ok_def)
qed (auto simp: run_ok_def lost_def)

lemma client_run_run_ok: "client_run r \<Longrightarrow> run_ok r"
proof (induction rule: client_run.induct)
  case start
  show ?case using first_backoff by (simp add: run_ok_def run_new_def proxy_new_def)
qed (rule run_ok_step)


section \<open>What a caller can rely on\<close>

lemma py_get_Cons [simp]:
  "py_get k ((k1, j) # d) = (if k1 = k then (if j = JNull then None else Some j) else py_get k d)"
  by (cases j) (simp_all add: py_get_def)

lemma fresh_id:
  assumes "proxy_ok p"
  shows "px_futures p (dec (px_next_id p + 1)) = None"
proof (rule ccontr)
  assume "px_futures p (dec (px_next_id p + 1)) \<noteq> None"
  then obtain n where "dec (px_next_id p + 1) = dec n" "n \<le> px_next_id p"
    using assms unfolding proxy_ok_def by blast
  then show False using dec_inj by fastforce
qed

text \<open>C16: A reply reaches the request it answers. Whatever the daemon sends and in whatever order,
  through reconnects, timeouts and any number of requests in flight, a request is only ever
  completed with a message that bears its id; and a new request is given an id that no request
  before it had, so that a late reply cannot be taken for its own, and is refused without being
  sent while the client is not connected and available.\<close>

theorem replies_reach_their_own_request:
  assumes "client_run r"
  shows "(\<forall>k d. px_futures (rn_proxy r) k = Some (Result d) \<longrightarrow> answers_id k d) \<and>
    (case request_begin payload (rn_proxy r) of
       (Inl e, p) \<Rightarrow> e = Not_Connected \<and> p = rn_proxy r \<and> \<not> (px_socket p \<and> px_available p)
     | (Inr (k, m), p) \<Rightarrow> px_futures (rn_proxy r) k = None \<and> px_futures p k = Some Waiting \<and> k \<in> px_pending p \<and> answers_id k m)"
  using client_run_ok [OF assms] fresh_id [OF client_run_ok [OF assms]]
  by (auto simp: proxy_ok_def request_begin_def Let_def px_available_def answers_id_def split: prod.split)

lemma connection_over_fails:
  assumes "k \<in> px_pending p" "px_futures p k = Some Waiting"
  shows "px_futures (connection_over p) k = Some Disconnected"
  using assms by (simp add: connection_over_def fail_pending_def)

text \<open>C25: Nobody waits on a connection that is gone. Whenever the client has no established
  connection it is not available, knows no radio state and has no request in flight, and its
  wait before the next try is a power of two of seconds, at most a minute; and when a
  connection ends, every request that was waiting on it is told so.\<close>

theorem nobody_waits_without_a_connection:
  assumes "client_run r"
  shows "(rn_phase r = Reading_Messages \<or>
      \<not> px_available (rn_proxy r) \<and> px_state (rn_proxy r) = None \<and> px_pending (rn_proxy r) = {} \<and>
      (case rn_phase r of Backing_Off n \<Rightarrow> \<exists>k. n = min (2 ^ k) 60 | _ \<Rightarrow> True)) \<and>
    (k \<in> px_pending (rn_proxy r) \<and> px_futures (rn_proxy r) k = Some Waiting \<longrightarrow>
      px_futures (rn_proxy (lost r)) k = Some Disconnected)"
  using client_run_run_ok [OF assms] connection_over_fails [of k "rn_proxy r"]
  by (cases "rn_phase r") (auto simp: run_ok_def px_available_def max_backoff_def lost_def)

end
