(* ===== verification/Broadcast.thy ===== *)
theory Broadcast
  imports Connection Arbiter_Properties
begin

text \<open>
  The events channel between the radio thread and the connections: \<open>tokio::sync::broadcast\<close>,
  created in \<open>main.rs\<close> with room for 1024 events. The channel is not part of the program; what
  is relied on is that a receiver gets the events in the order they were sent, and that one
  which has fallen behind skips the oldest, at least the newest 1024 being still there. A feed
  is one connection with the radio thread behind it: what the thread publishes, what the
  forwarder receives of it, and what reaches the socket.
\<close>

section \<open>What the radio thread publishes\<close>

definition events_of :: "outgoing list \<Rightarrow> message list" where
  "events_of out = List.map_filter (\<lambda>x. case x of Event m \<Rightarrow> Some m | _ \<Rightarrow> None) out"

text \<open>The device states among a list of messages.\<close>

definition states_told :: "message list \<Rightarrow> device_state list" where
  "states_told ms = List.map_filter (\<lambda>m. case msg_payload m of Device_State d \<Rightarrow> Some d | _ \<Rightarrow> None) ms"

lemma states_told_simps [simp]:
  "states_told [] = []"
  "states_told (ms @ ms1) = states_told ms @ states_told ms1"
  "states_told (m # ms) = (case msg_payload m of Device_State d \<Rightarrow> [d] | _ \<Rightarrow> []) @ states_told ms"
  by (simp_all add: states_told_def List.map_filter_def split: message_payload.split)

lemma events_of_simps [simp]:
  "events_of [] = []"
  "events_of (out @ out1) = events_of out @ events_of out1"
  "events_of (x # out) = (case x of Event m \<Rightarrow> [m] | _ \<Rightarrow> []) @ events_of out"
  by (simp_all add: events_of_def List.map_filter_def split: outgoing.split)

lemma announcements_told: "announcements out = states_told (events_of out)"
  by (induction out) (auto simp: announcements_def announced_def states_told_def events_of_def List.map_filter_def
      split: outgoing.splits message_payload.splits)

lemma last_announced_told:
  "last_announced out = (if states_told (events_of out) = [] then None else Some (last (states_told (events_of out))))"
  by (simp add: last_announced_def announcements_told)

text \<open>The grammar of the log, given the state announced before it: an event has no id, and is a
  device state, or a frame while the state announced last is \<open>receiving\<close>.\<close>

fun tells :: "device_state option \<Rightarrow> message list \<Rightarrow> bool" where
  "tells d [] \<longleftrightarrow> True"
| "tells d (m # ms) \<longleftrightarrow> msg_id m = None \<and>
     (case msg_payload m of
        Device_State e \<Rightarrow> tells (Some e) ms
      | Rx_Frame f \<Rightarrow> d = Some Receiving \<and> tells d ms
      | _ \<Rightarrow> False)"

lemma tells_append:
  "tells d (ms @ ms1) \<longleftrightarrow> tells d ms \<and> tells (if states_told ms = [] then d else Some (last (states_told ms))) ms1"
  by (induction d ms rule: tells.induct) (auto split: message_payload.splits)

definition log_ok :: "'w arbiter \<Rightarrow> bool" where
  "log_ok a \<longleftrightarrow> tells None (events_of (a_out a))"

text \<open>An operation adds to what was sent and keeps the grammar.\<close>

definition feeds :: "'w arbiter \<Rightarrow> 'w arbiter \<Rightarrow> bool" where
  "feeds a b \<longleftrightarrow> prefix (a_out a) (a_out b) \<and> (log_ok a \<longrightarrow> log_ok b)"

lemma feeds_same: "a_out b = a_out a \<Longrightarrow> feeds a b"
  by (simp add: feeds_def log_ok_def)

lemma feeds_trans: "feeds a b \<Longrightarrow> feeds b c \<Longrightarrow> feeds a c"
  by (auto simp: feeds_def intro: prefix_order.order_trans)

lemma feeds_on: "a_out b = a_out a \<Longrightarrow> feeds b c \<Longrightarrow> feeds a c"
  by (rule feeds_trans [OF feeds_same])

lemma feeds_emit:
  assumes "a_out b = a_out a @ [x]"
    and "case x of Event m \<Rightarrow> tells (last_announced (a_out a)) [m] | _ \<Rightarrow> True"
  shows "feeds a b"
  using assms by (cases x) (auto simp: feeds_def log_ok_def tells_append last_announced_told)

lemma feeds_announce: "feeds a (announce d a)"
  by (rule feeds_emit [where x = "Event (event (Device_State d))"]) (simp_all add: announce_def event_def)

lemma feeds_publish: "feeds a (publish a)"
  by (simp add: publish_def Let_def feeds_announce feeds_same)

lemma feeds_reply: "is_reply x \<Longrightarrow> feeds a b \<Longrightarrow> feeds a (emit x b)"
  by (rule feeds_trans, assumption, rule feeds_emit [where x = x]) (auto simp: is_reply_def split: outgoing.splits)

lemma back_off_out: "a_out (back_off env a) = a_out a"
  by (simp add: back_off_def Let_def split_beta)

lemma feeds_fault: "feeds a (fault env a)"
  unfolding fault_def by (rule feeds_trans [OF feeds_same feeds_publish]) (simp add: back_off_out)

lemma feeds_send: "send env req a = (r, b) \<Longrightarrow> feeds a b"
proof -
  have *: "feeds a (if c then publish d else d)" if "a_out d = a_out (announce Transmitting a)" for c and d :: "'a arbiter"
    using that feeds_trans [OF feeds_trans [OF feeds_announce feeds_same [OF that]] feeds_publish]
      feeds_trans [OF feeds_announce feeds_same [OF that]] by simp
  show "send env req a = (r, b) \<Longrightarrow> feeds a b"
    using * [of _ False] by (auto simp: send_def Let_def split_beta split: sum.splits intro!: * feeds_publish)
qed

lemma feeds_preempt: "preempt_transmit env req a = (r, b) \<Longrightarrow> feeds a b"
proof (cases "s_rx_running (a_state a)")
  case True
  obtain x a1 where x: "act (e_stop env) a = (x, a1)" by force
  have out: "a_out a1 = a_out a" using act_eq [OF x] by simp
  have "feeds a b" if "send env req (upd (\<lambda>s. s\<lparr>s_rx_running := False\<rparr>) a1) = (r, b)"
    using feeds_trans [OF feeds_same feeds_send [OF that]] out by simp
  then show "preempt_transmit env req a = (r, b) \<Longrightarrow> feeds a b"
    using True x out by (auto simp: preempt_transmit_def split: sum.splits intro: feeds_same)
qed (simp add: preempt_transmit_def feeds_send)

lemma feeds_start_receiver: "start_receiver env a = (r, b) \<Longrightarrow> feeds a b"
proof -
  obtain x a1 where x: "act (e_start_rx env (s_rx_frequency (a_state a))) a = (x, a1)" by force
  have out: "a_out a1 = a_out a" using act_eq [OF x] by simp
  then have "feeds a (fault env a1)" "feeds a (upd (\<lambda>s. s\<lparr>s_rx_running := True\<rparr>) a1)"
    using feeds_on [OF out feeds_fault] by (simp_all add: feeds_same)
  then show "start_receiver env a = (r, b) \<Longrightarrow> feeds a b"
    using x by (auto simp: start_receiver_def split: sum.splits)
qed

lemma feeds_configure: "feeds a (configure env f en a)"
proof -
  define a1 where "a1 = upd (\<lambda>s. s\<lparr>s_rx_frequency := (case f of Some f \<Rightarrow> f | None \<Rightarrow> s_rx_frequency s), s_rx_enabled := en\<rparr>) a"
  define a2 where "a2 = (if s_rx_running (a_state a1)
      then upd (\<lambda>s. s\<lparr>s_rx_running := False\<rparr>) (snd (act (e_stop env) a1)) else a1)"
  define a3 where "a3 = upd (\<lambda>s. s\<lparr>s_faulted := False\<rparr>) (a2\<lparr>a_detector := detector_new (cfg_detector (s_config (a_state a2)))\<rparr>)"
  obtain r a4 where a4: "(if s_rx_enabled (a_state a3) then start_receiver env a3 else (Inr (), a3)) = (r, a4)" by force
  have out: "a_out a3 = a_out a" by (simp add: a3_def a2_def a1_def)
  have "feeds a3 a4" using a4 by (auto split: if_splits intro: feeds_start_receiver feeds_same)
  then have "feeds a (emit (Configure_Reply r) (publish a4))"
    using feeds_trans [OF feeds_trans [OF feeds_same [OF out]] feeds_publish] by (simp add: feeds_reply)
  moreover have "configure env f en a = emit (Configure_Reply r) (publish a4)"
    unfolding configure_def Let_def a1_def [symmetric] a2_def [symmetric] a3_def [symmetric] a4 by simp
  ultimately show ?thesis by simp
qed

lemma feeds_command: "feeds a (handle_command env cmd a)"
proof (cases cmd)
  case (Cmd_Transmit req)
  obtain r b where r: "preempt_transmit env req a = (r, b)" by force
  then have "feeds a b" "feeds a (fault env b)" using feeds_preempt feeds_trans [OF _ feeds_fault] by blast+
  then show ?thesis using Cmd_Transmit r by (auto simp: handle_command_def feeds_reply split: sum.split)
qed (auto simp: handle_command_def feeds_configure act_def split_beta Let_def intro: feeds_same feeds_reply)

lemma feeds_burst:
  assumes "last_announced (a_out a) = Some Receiving"
  shows "feeds a (deliver_burst env a b) \<and> last_announced (a_out (deliver_burst env a b)) = Some Receiving"
proof -
  obtain f where out: "a_out (deliver_burst env a b) = a_out a @ [Event (event (Rx_Frame f))]"
    using deliver_burst_out [of env a b] by auto
  have "feeds a (deliver_burst env a b)" by (rule feeds_emit [OF out]) (simp add: event_def assms)
  then show ?thesis using assms out by simp
qed

lemma feeds_bursts: "last_announced (a_out a) = Some Receiving \<Longrightarrow> feeds a (foldl (deliver_burst env) a bs)"
proof (induction bs arbitrary: a)
  case (Cons b bs)
  note one = feeds_burst [OF Cons.prems, of env b]
  then show ?case using feeds_trans [OF conjunct1 [OF one] Cons.IH [OF conjunct2 [OF one]]] by simp
qed (simp add: feeds_same)

lemma feeds_receive:
  assumes "last_announced (a_out a) = Some Receiving"
  shows "feeds a (receive env a)"
proof -
  obtain r a1 where r: "act (e_read env) a = (r, a1)" by force
  have out: "a_out a1 = a_out a" using act_eq [OF r] by simp
  show ?thesis
  proof (cases r)
    case (Inl e)
    then show ?thesis using r feeds_trans [OF feeds_same [OF out] feeds_fault] by (simp add: receive_def)
  next
    case (Inr iq)
    define a2 where "a2 = (if \<not> s_receiving_proven (a_state a1)
      then upd (\<lambda>s. s\<lparr>s_receiving_proven := True, s_backoff := fault_backoff\<rparr>) a1 else a1)"
    define a3 where "a3 = a2\<lparr>a_detector := fst (det_push (a_detector a2) iq)\<rparr>"
    have "a_out a3 = a_out a" by (simp add: a3_def a2_def out)
    moreover have "receive env a = foldl (deliver_burst env) a3 (snd (det_push (a_detector a2) iq))"
      by (simp add: receive_def r Inr a2_def [symmetric] a3_def split_beta)
    ultimately show ?thesis using feeds_trans [OF feeds_same feeds_bursts] assms by metis
  qed
qed

text \<open>A running receiver has been announced.\<close>

lemma running_announced:
  assumes "honest_mid a" "s_rx_running (a_state a)"
  shows "last_announced (a_out a) = Some Receiving"
  using assms by (auto simp: honest_mid_def books_def flags_ok_def told_mid_def device_state_of_def split: option.splits)

lemma publish_announced: "books a \<Longrightarrow> last_announced (a_out (publish a)) = Some (device_state_of (a_state a))"
  by (auto simp: publish_def Let_def announce_def books_def)

lemma feeds_pump:
  assumes "honest_mid a" "\<not> s_faulted (a_state a)"
  shows "feeds a (pump env a)"
proof (cases "s_rx_running (a_state a)")
  case True
  then show ?thesis using assms(1) by (simp add: pump_def feeds_receive running_announced)
next
  case False
  obtain r a1 where r: "act (e_start_rx env (s_rx_frequency (a_state a))) a = (r, a1)" by force
  note a1 = act_eq [OF r]
  show ?thesis
  proof (cases r)
    case (Inl e)
    have "feeds a (fault env a1)" by (rule feeds_on [OF _ feeds_fault]) (simp add: a1)
    then show ?thesis using r Inl False by (simp add: pump_def)
  next
    case (Inr u)
    define a2 where "a2 = upd (\<lambda>s. s\<lparr>s_rx_running := True\<rparr>) a1"
    have out: "a_out a2 = a_out a" and dev: "device_state_of (a_state a2) = Receiving"
      using a1 assms(2) by (simp_all add: a2_def device_state_of_def)
    have "books a2" using assms(1) a1 by (simp add: honest_mid_def books_def a2_def)
    then have "last_announced (a_out (publish a2)) = Some Receiving" using publish_announced dev by metis
    then have "feeds a (receive env (publish a2))"
      using feeds_trans [OF feeds_trans [OF feeds_same [OF out] feeds_publish] feeds_receive] by blast
    then show ?thesis using r Inr False by (simp add: pump_def a2_def)
  qed
qed

lemma feeds_retry: "feeds a (retry env a)"
proof -
  obtain now a1 where n: "act (e_now env) a = (now, a1)" by force
  obtain u a2 where u: "act (e_stop env) a1 = (u, a2)" by force
  obtain d a3 where d: "act (e_describe env) a2 = (d, a3)" by force
  have out: "a_out a1 = a_out a" "a_out a3 = a_out a" using act_eq [OF n] act_eq [OF u] act_eq [OF d] by simp_all
  have "feeds a (publish (upd (\<lambda>s. s\<lparr>s_device := Some x, s_faulted := False\<rparr>) a3))" for x
    by (rule feeds_on [OF _ feeds_publish]) (simp add: out)
  then show ?thesis using n u d out by (auto simp: retry_def back_off_out intro: feeds_same split: sum.split)
qed

lemma feeds_pass:
  assumes "honest a"
  shows "feeds a (loop_step env p a)"
proof -
  define a1 where "a1 = (case p of None \<Rightarrow> a | Some cmd \<Rightarrow> handle_command env cmd a)"
  have h: "honest_mid a1" and f: "feeds a a1"
    using assms by (cases p; simp add: a1_def handle_command_honest honest_imp_mid feeds_command feeds_same)+
  have "feeds a1 (loop_body env p a)"
    using feeds_pump [OF h] feeds_retry feeds_same [OF refl] unfolding loop_body_def Let_def a1_def [symmetric]
    by (auto simp: receiving_def)
  then show ?thesis using feeds_trans [OF f] by (simp add: loop_step_def feeds_same)
qed

lemma reachable_log_ok: "reachable env c w a \<Longrightarrow> log_ok a"
proof (induction rule: reachable.induct)
  case start
  show ?case by (simp add: log_ok_def arbiter_new_def split_beta)
next
  case (step a p)
  then show ?case using feeds_pass [OF reachable_honest [OF step(1)]] by (simp add: feeds_def)
qed

section \<open>The channel\<close>

definition event_queue :: nat where "event_queue = 1024"

text \<open>A receiver with the position of its next event in everything ever sent, and what a receive
  yields: the next event; or, when it has fallen behind, how many events it skips, which are
  not among the newest 1024; or the end, when nothing more can come.\<close>

type_synonym channel = "message list \<Rightarrow> nat \<Rightarrow> recv_result \<Rightarrow> nat \<Rightarrow> bool"

definition keeps_newest :: "channel \<Rightarrow> bool" where
  "keeps_newest recv \<longleftrightarrow>
     (\<forall>evs i r j. recv evs i r j \<longrightarrow>
        (case r of
           Received m \<Rightarrow> i < length evs \<and> m = evs ! i \<and> j = i + 1
         | Lagged n \<Rightarrow> j = i + n \<and> j + event_queue \<le> length evs
         | Closed \<Rightarrow> j = i))"

section \<open>A feed\<close>

text \<open>\<open>fd_next\<close> is the subscription's position, \<open>fd_warned\<close> the sum of the losses logged.\<close>

record 'w feed =
  fd_conn :: "'w arbiter conn"
  fd_next :: nat
  fd_warned :: nat

definition feed_log :: "'w feed \<Rightarrow> message list" where
  "feed_log f = events_of (a_out (cn_world (fd_conn f)))"

text \<open>A connection subscribes to what is sent from now on.\<close>

definition feed_new :: "'w arbiter \<Rightarrow> 'w feed" where
  "feed_new a = \<lparr>fd_conn = conn_new a, fd_next = length (events_of (a_out a)), fd_warned = 0\<rparr>"

text \<open>The radio thread's passes for others and without a command are \<open>others\<close>; a pass for this
  connection's request is the reader's \<open>answer\<close>.\<close>

inductive feed_step ::
  "'w env \<Rightarrow> (string \<Rightarrow> error + request) \<Rightarrow> (byte list \<Rightarrow> string) \<Rightarrow> (message \<Rightarrow> error + string) \<Rightarrow> channel
    \<Rightarrow> 'w feed \<Rightarrow> 'w feed \<Rightarrow> bool" for env parse lossy encode recv where
  reader: "reader_step (arbiter_link env) parse lossy (fd_conn f) c \<Longrightarrow>
     feed_step env parse lossy encode recv f (f\<lparr>fd_conn := c\<rparr>)"
| writer: "writer_step encode (fd_conn f) c \<Longrightarrow> feed_step env parse lossy encode recv f (f\<lparr>fd_conn := c\<rparr>)"
| others: "feed_step env parse lossy encode recv f
     (f\<lparr>fd_conn := (fd_conn f)\<lparr>cn_world := loop_step env p (cn_world (fd_conn f))\<rparr>\<rparr>)"
| received: "cn_forwarder (fd_conn f) = Subscribed \<Longrightarrow> recv (feed_log f) (fd_next f) (Received m) j \<Longrightarrow>
     feed_step env parse lossy encode recv f (f\<lparr>fd_conn := (fd_conn f)\<lparr>cn_forwarder := Forwarding m,
       cn_events := cn_events (fd_conn f) @ [m]\<rparr>, fd_next := j\<rparr>)"
| lagged: "cn_forwarder (fd_conn f) = Subscribed \<Longrightarrow> recv (feed_log f) (fd_next f) (Lagged n) j \<Longrightarrow>
     feed_step env parse lossy encode recv f (f\<lparr>fd_next := j, fd_warned := fd_warned f + n\<rparr>)"
| closed: "cn_forwarder (fd_conn f) = Subscribed \<Longrightarrow> recv (feed_log f) (fd_next f) Closed j \<Longrightarrow>
     feed_step env parse lossy encode recv f (f\<lparr>fd_conn := (fd_conn f)\<lparr>cn_forwarder := Forwarder_Ended\<rparr>, fd_next := j\<rparr>)"
| queue_event: "cn_forwarder (fd_conn f) = Forwarding m \<Longrightarrow> cn_writing (fd_conn f) \<Longrightarrow>
     length (cn_queue (fd_conn f)) < client_queue \<Longrightarrow>
     feed_step env parse lossy encode recv f (f\<lparr>fd_conn := (fd_conn f)\<lparr>cn_forwarder := Subscribed,
       cn_queue := cn_queue (fd_conn f) @ [m]\<rparr>\<rparr>)"
| event_refused: "cn_forwarder (fd_conn f) = Forwarding m \<Longrightarrow> \<not> cn_writing (fd_conn f) \<Longrightarrow>
     feed_step env parse lossy encode recv f (f\<lparr>fd_conn := (fd_conn f)\<lparr>cn_forwarder := Forwarder_Ended\<rparr>\<rparr>)"
| aborted: "abort_requested (cn_reader (fd_conn f)) \<Longrightarrow> cn_forwarder (fd_conn f) \<noteq> Forwarder_Ended \<Longrightarrow>
     feed_step env parse lossy encode recv f (f\<lparr>fd_conn := (fd_conn f)\<lparr>cn_forwarder := Forwarder_Ended\<rparr>\<rparr>)"

inductive feed_run ::
  "'w env \<Rightarrow> (string \<Rightarrow> error + request) \<Rightarrow> (byte list \<Rightarrow> string) \<Rightarrow> (message \<Rightarrow> error + string) \<Rightarrow> channel
    \<Rightarrow> 'w feed \<Rightarrow> 'w feed \<Rightarrow> bool" for env parse lossy encode recv f where
  start: "feed_run env parse lossy encode recv f f"
| next_step: "feed_run env parse lossy encode recv f g \<Longrightarrow> feed_step env parse lossy encode recv g h \<Longrightarrow>
     feed_run env parse lossy encode recv f h"

text \<open>A feed is a connection whose world is the arbiter.\<close>

lemma feed_step_conn:
  assumes "feed_step env parse lossy encode recv f g"
  shows "conn_step (arbiter_link env) parse lossy encode (fd_conn f) (fd_conn g)"
  using assms
  by (cases rule: feed_step.cases)
    (auto intro: conn_step.intros conn_step.forwarder [OF forwarder_step.received]
      conn_step.forwarder [OF forwarder_step.lagged] conn_step.forwarder [OF forwarder_step.closed]
      conn_step.forwarder [OF forwarder_step.queue_event] conn_step.forwarder [OF forwarder_step.event_refused]
      conn_step.forwarder [OF forwarder_step.aborted])

lemma feed_run_conn:
  "feed_run env parse lossy encode recv (feed_new a) f \<Longrightarrow>
   conn_run (arbiter_link env) parse lossy encode (conn_new a) (fd_conn f)"
proof (induction rule: feed_run.induct)
  case start
  show ?case by (simp add: feed_new_def conn_run.start)
next
  case (next_step g h)
  then show ?case using conn_run.next_step feed_step_conn by metis
qed

section \<open>The radio thread behind it\<close>

text \<open>What the connection relies on: the thread stays reachable and only adds to what it sent.\<close>

definition follows :: "'w arbiter \<Rightarrow> 'w arbiter \<Rightarrow> bool" where
  "follows a b \<longleftrightarrow> honest b \<and> feeds a b"

lemma follows_pass: "follows a b \<Longrightarrow> follows a (loop_step env p b)"
  by (auto simp: follows_def loop_step_honest intro: feeds_trans feeds_pass)

lemma ask_pass_follows: "ask_pass env cmd b = (x, b1) \<Longrightarrow> follows a b \<Longrightarrow> follows a b1"
  by (auto simp: ask_pass_def Let_def follows_pass)

interpretation feeding: radio_service "arbiter_link env" "follows a" sent_count
  for env :: "'w env" and a
proof
  fix s s1 :: "'w arbiter" and t r d f en c st
  show "follows a s1" if "follows a s" "ask_transmit (arbiter_link env) t s = (r, s1)"
    using that by (auto simp: arbiter_link_def split: prod.splits outgoing.splits dest: ask_pass_follows)
  show "sent_count s1 = (case r of Inr (Inr d) \<Rightarrow> sent_count s + 1 | _ \<Rightarrow> sent_count s)"
    if "ask_transmit (arbiter_link env) t s = (r, s1)"
    using that by (rule radio.transmit_sent)
  show "d = air_time_us t" if "ask_transmit (arbiter_link env) t s = (Inr (Inr d), s1)"
    using that by (rule radio.transmit_air_time)
  show "follows a s1 \<and> sent_count s1 = sent_count s"
    if "follows a s" "ask_configure (arbiter_link env) f en s = (c, s1)"
    using that radio.configure_settled [OF _ that(2)]
    by (auto simp: follows_def arbiter_link_def split: prod.splits outgoing.splits)
       (auto dest!: ask_pass_follows [of _ _ _ _ _ a] simp: follows_def)
  show "follows a s1 \<and> sent_count s1 = sent_count s"
    if "follows a s" "ask_status (arbiter_link env) s = (st, s1)"
    using that radio.status_settled [OF _ that(2)]
    by (auto simp: follows_def arbiter_link_def split: prod.splits outgoing.splits)
       (auto dest!: ask_pass_follows [of _ _ _ _ _ a] simp: follows_def)
qed

text \<open>Replies carry no device state.\<close>

definition states_nothing :: "message \<Rightarrow> bool" where
  "states_nothing m = (case msg_payload m of Device_State d \<Rightarrow> False | _ \<Rightarrow> True)"

lemma dispatch_states_nothing: "dispatch lk parse t s = (m, s1) \<Longrightarrow> states_nothing m"
  by (auto simp: dispatch_def dispatch_transmit_def dispatch_configure_def status_reply_def states_nothing_def
      reply_def error_reply_def event_def split: sum.splits request_payload.splits prod.splits if_splits)

lemma states_nothing_told: "list_all states_nothing ms \<Longrightarrow> states_told ms = []"
  by (induction ms) (auto simp: states_nothing_def split: message_payload.splits)

section \<open>What the forwarder gets\<close>

text \<open>\<open>got\<close> is the log from \<open>start\<close> to \<open>i\<close>, in order, but for \<open>n\<close> events none of which is among
  the newest 1024.\<close>

definition hears_log :: "nat \<Rightarrow> message list \<Rightarrow> nat \<Rightarrow> nat \<Rightarrow> message list \<Rightarrow> bool" where
  "hears_log start evs i n got \<longleftrightarrow> start \<le> i \<and> i \<le> length evs \<and>
     (\<exists>heard lost. got = map ((!) evs) heard \<and> sorted_wrt (<) heard \<and> set heard \<union> lost = {start..<i} \<and>
        set heard \<inter> lost = {} \<and> card lost = n \<and> (\<forall>k \<in> lost. k + event_queue < length evs))"

lemma hears_log_new: "hears_log (length evs) evs (length evs) 0 []"
  by (auto simp: hears_log_def)

lemma hears_log_grows:
  assumes "hears_log start evs i n got" "prefix evs evs1"
  shows "hears_log start evs1 i n got"
proof -
  obtain heard lost where h: "got = map ((!) evs) heard" "sorted_wrt (<) heard" "set heard \<union> lost = {start..<i}"
    "set heard \<inter> lost = {}" "card lost = n" "\<forall>k \<in> lost. k + event_queue < length evs" "start \<le> i" "i \<le> length evs"
    using assms(1) by (auto simp: hears_log_def)
  obtain rest where evs1: "evs1 = evs @ rest" using assms(2) by (auto simp: prefix_def)
  have "k < length evs" if "k \<in> set heard" for k
  proof -
    have "k \<in> {start..<i}" using h(3) that by blast
    then show ?thesis using h(8) by simp
  qed
  then have "got = map ((!) evs1) heard" using h(1) by (simp add: evs1 nth_append)
  then show ?thesis using h(2-8) unfolding hears_log_def evs1
    by (intro conjI exI [of _ heard] exI [of _ lost]) auto
qed

lemma hears_log_received:
  assumes "hears_log start evs i n got" "i < length evs"
  shows "hears_log start evs (i + 1) n (got @ [evs ! i])"
proof -
  obtain heard lost where h: "got = map ((!) evs) heard" "sorted_wrt (<) heard" "set heard \<union> lost = {start..<i}"
    "set heard \<inter> lost = {}" "card lost = n" "\<forall>k \<in> lost. k + event_queue < length evs" "start \<le> i"
    using assms(1) by (auto simp: hears_log_def)
  have below: "k < i" if "k \<in> set heard \<union> lost" for k using that unfolding h(3) by simp
  have "set (heard @ [i]) \<union> lost = {start..<i + 1}" using h(3,7) by auto
  moreover have "set (heard @ [i]) \<inter> lost = {}" using h(4) below by auto
  moreover have "sorted_wrt (<) (heard @ [i])" using h(2) below by (simp add: sorted_wrt_append)
  ultimately show ?thesis using h(1,5-7) assms(2) unfolding hears_log_def
    by (intro conjI exI [of _ "heard @ [i]"] exI [of _ lost]) auto
qed

lemma hears_log_lagged:
  assumes "hears_log start evs i n got" "i + k + event_queue \<le> length evs"
  shows "hears_log start evs (i + k) (n + k) got"
proof -
  obtain heard lost where h: "got = map ((!) evs) heard" "sorted_wrt (<) heard" "set heard \<union> lost = {start..<i}"
    "set heard \<inter> lost = {}" "card lost = n" "\<forall>k \<in> lost. k + event_queue < length evs" "start \<le> i"
    using assms(1) by (auto simp: hears_log_def)
  have below: "x < i" if "x \<in> set heard \<union> lost" for x using that unfolding h(3) by simp
  have fin: "finite lost" using below by (meson UnI2 bounded_nat_set_is_finite)
  have "set heard \<union> (lost \<union> {i..<i + k}) = {start..<i + k}"
    unfolding Un_assoc [symmetric] h(3) using h(7) by auto
  moreover have "set heard \<inter> (lost \<union> {i..<i + k}) = {}" using h(4) below by fastforce
  moreover have "card (lost \<union> {i..<i + k}) = n + k"
    using h(5) fin below by (subst card_Un_disjoint) fastforce+
  ultimately show ?thesis using h(1,2,6,7) assms(2) unfolding hears_log_def
    by (intro conjI exI [of _ heard] exI [of _ "lost \<union> {i..<i + k}"]) (auto simp: event_queue_def)
qed

text \<open>A set of numbers that contains an interval up to its bound, in order.\<close>

lemma sorted_ends_in_interval:
  assumes "sorted_wrt (<) xs" "set xs \<subseteq> {..<n}" "{m..<n} \<subseteq> set xs"
  shows "\<exists>h. xs = h @ [m..<(n::nat)]"
proof -
  have "sorted_wrt (<) (filter (\<lambda>x. m \<le> x) xs)" using assms(1) by (rule sorted_wrt_filter)
  moreover have "set (filter (\<lambda>x. m \<le> x) xs) = set [m..<n]" using assms(2,3) by auto
  ultimately have ge: "filter (\<lambda>x. m \<le> x) xs = [m..<n]"
    by (metis sorted_wrt_upt strict_sorted_equal)
  have "xs = filter (\<lambda>x. \<not> m \<le> x) xs @ filter (\<lambda>x. m \<le> x) xs" using assms(1)
  proof (induction xs)
    case (Cons x xs)
    show ?case
    proof (cases "m \<le> x")
      case True
      then have "y \<in> set xs \<Longrightarrow> m \<le> y" for y using Cons.prems by fastforce
      then show ?thesis using True by (auto simp: filter_id_conv filter_empty_conv)
    qed (use Cons in simp)
  qed simp
  then show ?thesis unfolding ge by blast
qed

lemma map_nth_drop: "map ((!) xs) [m..<length xs] = drop m xs"
  by (rule nth_equalityI) simp_all

lemma hears_log_newest:
  assumes "hears_log start evs (length evs) n got"
  shows "suffix (drop (max start (length evs - event_queue)) evs) got"
proof -
  obtain heard lost where h: "got = map ((!) evs) heard" "sorted_wrt (<) heard" "set heard \<union> lost = {start..<length evs}"
    "\<forall>k \<in> lost. k + event_queue < length evs"
    using assms by (auto simp: hears_log_def)
  let ?m = "max start (length evs - event_queue)"
  have "set heard \<subseteq> {..<length evs}" using h(3) by auto
  moreover have "k \<in> set heard" if "k \<in> {?m..<length evs}" for k
  proof -
    have "k \<in> set heard \<union> lost" using that unfolding h(3) by simp
    moreover have "k \<notin> lost" using h(4) that by fastforce
    ultimately show ?thesis by blast
  qed
  ultimately obtain h1 where "heard = h1 @ [?m..<length evs]"
    using sorted_ends_in_interval [OF h(2), of "length evs" ?m] by blast
  then show ?thesis using h(1) by (simp add: suffix_def map_nth_drop)
qed

section \<open>The invariant of a feed\<close>

definition feed_ok :: "'w arbiter \<Rightarrow> 'w feed \<Rightarrow> bool" where
  "feed_ok a f \<longleftrightarrow>
     follows a (cn_world (fd_conn f)) \<and> list_all states_nothing (cn_answers (fd_conn f)) \<and>
     hears_log (length (events_of (a_out a))) (feed_log f) (fd_next f) (fd_warned f) (cn_events (fd_conn f))"

lemma feed_ok_new: "honest a \<Longrightarrow> feed_ok a (feed_new a)"
  by (simp add: feed_ok_def feed_new_def feed_log_def conn_new_def follows_def feeds_same hears_log_new)

lemma feeds_log: "feeds a b \<Longrightarrow> prefix (events_of (a_out a)) (events_of (a_out b))"
  by (auto simp: feeds_def prefix_def)

lemma feed_ok_world:
  assumes "feed_ok a f" "follows a (cn_world d)" "feeds (cn_world (fd_conn f)) (cn_world d)"
    and "cn_events d = cn_events (fd_conn f)" "list_all states_nothing (cn_answers d)"
  shows "feed_ok a (f\<lparr>fd_conn := d\<rparr>)"
  using assms hears_log_grows [OF _ feeds_log [OF assms(3)]] by (auto simp: feed_ok_def feed_log_def)

lemma feed_step_ok:
  assumes "feed_ok a f" "feed_step env parse lossy encode recv f g" "keeps_newest recv"
  shows "feed_ok a g"
  using assms(2)
proof (cases rule: feed_step.cases)
  case (reader c)
  show ?thesis using reader(2)
  proof (cases rule: reader_step.cases)
    case (answer m t r s)
    have "follows (cn_world (fd_conn f)) (cn_world (fd_conn f))" using assms(1) by (simp add: feed_ok_def follows_def feeds_same)
    then have "follows (cn_world (fd_conn f)) s" using feeding.dispatch_counts [OF _ answer(4)] by blast
    moreover have "follows a s" using assms(1) feeding.dispatch_counts [OF _ answer(4)] by (auto simp: feed_ok_def)
    ultimately show ?thesis unfolding reader(1)
      by (intro feed_ok_world [OF assms(1)])
        (use assms(1) answer dispatch_states_nothing [OF answer(4)] in \<open>auto simp: feed_ok_def follows_def\<close>)
  qed (use assms(1) reader in \<open>auto simp: feed_ok_def feed_log_def\<close>)
next
  case (writer c)
  show ?thesis using writer(2) by (cases rule: writer_step.cases) (use assms(1) writer in \<open>auto simp: feed_ok_def feed_log_def\<close>)
next
  case (others p)
  have "feeds (cn_world (fd_conn f)) (loop_step env p (cn_world (fd_conn f)))"
    using assms(1) by (simp add: feed_ok_def follows_def feeds_pass)
  then show ?thesis unfolding others(1)
    by (intro feed_ok_world [OF assms(1)]) (use assms(1) in \<open>simp_all add: feed_ok_def follows_pass\<close>)
next
  case (received m j)
  have "fd_next f < length (feed_log f) \<and> m = feed_log f ! fd_next f \<and> j = fd_next f + 1"
    using assms(3) received(3) unfolding keeps_newest_def by fastforce
  then show ?thesis using assms(1) received hears_log_received
    by (auto simp: feed_ok_def feed_log_def)
next
  case (lagged n j)
  have "j = fd_next f + n \<and> j + event_queue \<le> length (feed_log f)"
    using assms(3) lagged(3) unfolding keeps_newest_def by fastforce
  then show ?thesis using assms(1) lagged hears_log_lagged
    by (auto simp: feed_ok_def feed_log_def)
next
  case (closed j)
  have "j = fd_next f" using assms(3) closed(3) unfolding keeps_newest_def by fastforce
  then show ?thesis using assms(1) closed by (simp add: feed_ok_def feed_log_def)
qed (use assms(1) in \<open>simp_all add: feed_ok_def feed_log_def\<close>)

lemma feed_run_ok:
  assumes "feed_run env parse lossy encode recv f g" "feed_ok a f" "keeps_newest recv"
  shows "feed_ok a g"
  using assms by (induction rule: feed_run.induct) (auto intro: feed_step_ok)

text \<open>C10: A client that falls behind loses the oldest events only, and how many is logged. Whatever
  the timing, the forwarder has received, in order, the events sent since its connection
  subscribed, up to its position, except for as many as it has logged as dropped; none of those
  was among the newest 1024, so that a forwarder that has caught up holds all of the newest 1024;
  and the socket carries a prefix of what it received, interleaved with the replies.\<close>

theorem slow_client_keeps_the_newest:
  assumes "feed_run env parse lossy encode recv (feed_new a) f" "keeps_newest recv" "honest a"
  shows "(\<exists>heard lost. cn_events (fd_conn f) = map ((!) (feed_log f)) heard \<and> sorted_wrt (<) heard \<and>
       set heard \<union> lost = {length (events_of (a_out a))..<fd_next f} \<and> set heard \<inter> lost = {} \<and>
       card lost = fd_warned f \<and> (\<forall>k \<in> lost. k + 1024 < length (feed_log f))) \<and>
     (fd_next f = length (feed_log f) \<longrightarrow>
       suffix (drop (max (length (events_of (a_out a))) (length (feed_log f) - 1024)) (feed_log f)) (cn_events (fd_conn f))) \<and>
     (\<exists>rs es unsent. cn_written (fd_conn f) @ cn_queue (fd_conn f) @ unsent \<in> shuffles rs es \<and>
        (cn_writing (fd_conn f) \<longrightarrow> unsent = []) \<and> prefix rs (cn_answers (fd_conn f)) \<and> prefix es (cn_events (fd_conn f)))"
proof -
  have ok: "feed_ok a f" using feed_run_ok [OF assms(1) feed_ok_new [OF assms(3)] assms(2)] .
  then have h: "hears_log (length (events_of (a_out a))) (feed_log f) (fd_next f) (fd_warned f) (cn_events (fd_conn f))"
    by (simp add: feed_ok_def)
  obtain rs es where c: "conn_ok encode (fd_conn f) rs es" using conn_run_ok [OF feed_run_conn [OF assms(1)]] by blast
  have "prefix rs (cn_answers (fd_conn f))"
    using c by (cases "cn_reader (fd_conn f)") (auto simp: conn_ok_def dest: snoc_prefix)
  then have "\<exists>rs es unsent. cn_written (fd_conn f) @ cn_queue (fd_conn f) @ unsent \<in> shuffles rs es \<and>
        (cn_writing (fd_conn f) \<longrightarrow> unsent = []) \<and> prefix rs (cn_answers (fd_conn f)) \<and> prefix es (cn_events (fd_conn f))"
    using c events_entered_prefix [of "cn_forwarder (fd_conn f)" "cn_events (fd_conn f)" es] unfolding conn_ok_def by blast
  moreover have "fd_next f = length (feed_log f) \<longrightarrow>
       suffix (drop (max (length (events_of (a_out a))) (length (feed_log f) - 1024)) (feed_log f)) (cn_events (fd_conn f))"
    using h hears_log_newest unfolding event_queue_def by metis
  ultimately show ?thesis using h unfolding hears_log_def event_queue_def by blast
qed

section \<open>Catching up\<close>

text \<open>Receiving does not wait while there is an event the receiver has not had.\<close>

definition never_stalls :: "channel \<Rightarrow> bool" where
  "never_stalls recv \<longleftrightarrow> (\<forall>evs i. i < length evs \<longrightarrow> (\<exists>r j. recv evs i r j \<and> i < j))"

definition caught_up :: "'w feed \<Rightarrow> bool" where
  "caught_up f \<longleftrightarrow> cn_forwarder (fd_conn f) = Subscribed \<and> fd_next f = length (feed_log f) \<and>
     cn_writing (fd_conn f) \<and> cn_queue (fd_conn f) = []"

definition backlog :: "'w feed \<Rightarrow> nat" where
  "backlog f = 3 * (length (feed_log f) - fd_next f) + (if cn_forwarder (fd_conn f) = Subscribed then 0 else 2) +
     length (cn_queue (fd_conn f))"

text \<open>The steps that do it: a write, a place in the queue, a receive.\<close>

lemma catching_up:
  assumes "feed_ok a f" "keeps_newest recv" "never_stalls recv" "cn_forwarder (fd_conn f) \<noteq> Forwarder_Ended"
    and "cn_writing (fd_conn f)" "\<not> caught_up f"
  shows "\<exists>g. feed_step env parse lossy encode recv f g \<and> backlog g < backlog f \<and>
     cn_forwarder (fd_conn g) \<noteq> Forwarder_Ended \<and> cn_writing (fd_conn g) \<and>
     cn_world (fd_conn g) = cn_world (fd_conn f)"
proof (cases "cn_queue (fd_conn f)")
  case (Cons m q)
  obtain d where d: "writer_step encode (fd_conn f) d" "cn_queue d = q" "cn_forwarder d = cn_forwarder (fd_conn f)"
    "cn_writing d" "cn_world d = cn_world (fd_conn f)"
    using writer_step.wrote [OF assms(5) Cons] writer_step.skipped [OF assms(5) Cons] assms(5)
    by (cases "encode m") fastforce+
  then show ?thesis using Cons assms(4)
    by (intro exI [of _ "f\<lparr>fd_conn := d\<rparr>"] conjI feed_step.writer) (auto simp: backlog_def feed_log_def)
next
  case Nil
  show ?thesis
  proof (cases "cn_forwarder (fd_conn f)")
    case (Forwarding m)
    have "length (cn_queue (fd_conn f)) < client_queue" using Nil by (simp add: client_queue_def)
    note step = feed_step.queue_event [where env = env and parse = parse and lossy = lossy and encode = encode and recv = recv, OF Forwarding assms(5) this]
    show ?thesis by (rule exI, rule conjI, rule step) (use assms(5) Nil Forwarding in \<open>auto simp: backlog_def feed_log_def\<close>)
  next
    case Subscribed
    have "fd_next f < length (feed_log f)"
      using assms(1,5,6) Nil Subscribed by (auto simp: caught_up_def feed_ok_def hears_log_def)
    then obtain r j where r: "recv (feed_log f) (fd_next f) r j" "fd_next f < j"
      using assms(3) unfolding never_stalls_def by blast
    have law: "case r of Received m \<Rightarrow> fd_next f < length (feed_log f) \<and> m = feed_log f ! fd_next f \<and> j = fd_next f + 1
         | Lagged n \<Rightarrow> j = fd_next f + n \<and> j + event_queue \<le> length (feed_log f) | Closed \<Rightarrow> j = fd_next f"
      using assms(2) r(1) unfolding keeps_newest_def by blast
    show ?thesis
    proof (cases r)
      case (Received m)
      note step = feed_step.received [where env = env and parse = parse and lossy = lossy and encode = encode and recv = recv, OF Subscribed r(1) [unfolded Received]]
      show ?thesis
        by (rule exI, rule conjI, rule step) (use law Received assms(5) Subscribed in \<open>auto simp: backlog_def feed_log_def\<close>)
    next
      case (Lagged n)
      note step = feed_step.lagged [where env = env and parse = parse and lossy = lossy and encode = encode and recv = recv, OF Subscribed r(1) [unfolded Lagged]]
      show ?thesis
        by (rule exI, rule conjI, rule step) (use law Lagged assms(5) Subscribed r(2) in \<open>auto simp: backlog_def feed_log_def\<close>)
    qed (use law r(2) in simp)
  qed (use assms(4) in simp)
qed

lemma feed_run_trans:
  "feed_run env parse lossy encode recv g h \<Longrightarrow> feed_run env parse lossy encode recv f g \<Longrightarrow>
   feed_run env parse lossy encode recv f h"
  by (induction rule: feed_run.induct) (auto intro: feed_run.next_step)

lemma feed_catches_up:
  assumes "feed_ok a f" "keeps_newest recv" "never_stalls recv"
    and "cn_forwarder (fd_conn f) \<noteq> Forwarder_Ended" "cn_writing (fd_conn f)"
  shows "\<exists>g. feed_run env parse lossy encode recv f g \<and> caught_up g \<and> cn_world (fd_conn g) = cn_world (fd_conn f)"
  using assms(1,4,5)
proof (induction "backlog f" arbitrary: f rule: less_induct)
  case less
  show ?case
  proof (cases "caught_up f")
    case False
    obtain g where g: "feed_step env parse lossy encode recv f g" "backlog g < backlog f"
      "cn_forwarder (fd_conn g) \<noteq> Forwarder_Ended" "cn_writing (fd_conn g)" "cn_world (fd_conn g) = cn_world (fd_conn f)"
      using catching_up [OF less.prems(1) assms(2,3) less.prems(2,3) False] by blast
    obtain h where "feed_run env parse lossy encode recv g h" "caught_up h" "cn_world (fd_conn h) = cn_world (fd_conn g)"
      using less.hyps [OF g(2) feed_step_ok [OF less.prems(1) g(1) assms(2)] g(3,4)] by blast
    then show ?thesis using feed_run_trans [OF _ feed_run.next_step [OF feed_run.start g(1)]] g(5) by metis
  next
    case True
    then show ?thesis using feed_run.start by blast
  qed
qed

text \<open>C30: A client that reads catches up. From every state of a connection whose forwarder and
  writer are alive, however far behind and however full its queue, the connection can go on,
  with no pass of the radio thread, to a state where the forwarder has received all there is
  and all of it has been written to the socket.\<close>

theorem slow_client_can_catch_up:
  assumes "feed_run env parse lossy encode recv (feed_new a) f" "honest a" "keeps_newest recv" "never_stalls recv"
    and "cn_forwarder (fd_conn f) \<noteq> Forwarder_Ended" "cn_writing (fd_conn f)"
  shows "\<exists>g. feed_run env parse lossy encode recv f g \<and> caught_up g \<and>
     cn_world (fd_conn g) = cn_world (fd_conn f)"
  using feed_catches_up [OF feed_run_ok [OF assms(1) feed_ok_new [OF assms(2)] assms(3)] assms(3-6)] .

end
