(* ===== verification/Client_Link.thy ===== *)
theory Client_Link
  imports Proxy_Client Clients Broadcast
begin

text \<open>
  The Python client and the daemon together: what the daemon reads of a request the client
  builds, what the client makes of the daemon's messages, and so what a caller of the client
  learns about the radio.
\<close>

section \<open>Availability\<close>

text \<open>A device state is an event, without an id.\<close>

definition states_are_events :: "message list \<Rightarrow> bool" where
  "states_are_events ms \<longleftrightarrow> list_all (\<lambda>m. case msg_payload m of Device_State d \<Rightarrow> msg_id m = None | _ \<Rightarrow> True) ms"

definition client_hears :: "(error \<Rightarrow> string) \<Rightarrow> nat \<Rightarrow> message list \<Rightarrow> proxy \<Rightarrow> proxy" where
  "client_hears render now ms p = foldl (\<lambda>p m. client_dispatch now (message_fields render m) p) p ms"

lemma py_get_optional [simp]:
  "py_get k (optional_field n JString v @ d) = (if n = k \<and> v \<noteq> None then Some (JString (the v)) else py_get k d)"
  by (cases v) simp_all

lemma py_get_Nil [simp]: "py_get k [] = None"
  by (simp add: py_get_def)

lemma py_get_jnat [simp]: "jnat n \<noteq> JNull"
  by (simp add: jnat_def)

lemma message_id [simp]: "py_get ''id'' (message_fields render m) = map_option JString (msg_id m)"
proof (cases "msg_payload m")
  case (Status st)
  show ?thesis by (cases "msg_id m"; cases "st_device st") (simp_all add: message_fields_def Status status_fields_def)
qed (cases "msg_id m"; simp add: message_fields_def rx_frame_fields_def)+

lemma message_type:
  "py_get ''type'' (message_fields render m) = Some (JString
     (case msg_payload m of Transmitted d \<Rightarrow> ''transmitted'' | Error t \<Rightarrow> ''error'' | Status st \<Rightarrow> ''status''
      | Rx_Frame f \<Rightarrow> ''rx_frame'' | Device_State d \<Rightarrow> ''device_state''))"
  by (cases "msg_payload m") (simp_all add: message_fields_def)

lemma message_state:
  "msg_payload m = Device_State d \<Longrightarrow> py_get ''state'' (message_fields render m) = Some (JString (device_state_name d))"
  by (simp add: message_fields_def)

lemma status_state:
  "py_get ''state'' (message_fields render (reply i (Status st))) = Some (JString (device_state_name (st_state st)))"
  by (simp add: message_fields_def reply_def status_fields_def)

lemma client_dispatch_state:
  assumes "case msg_payload m of Device_State d \<Rightarrow> msg_id m = None | _ \<Rightarrow> True"
  shows "px_connected (client_dispatch now (message_fields render m) p) =
      (case msg_payload m of Device_State d \<Rightarrow> d \<noteq> Faulted | _ \<Rightarrow> px_connected p)"
    and "px_state (client_dispatch now (message_fields render m) p) =
      (case msg_payload m of Device_State d \<Rightarrow> Some (JString (device_state_name d)) | _ \<Rightarrow> px_state p)"
proof -
  have n: "device_state_name d = ''faulted'' \<longleftrightarrow> d = Faulted" for d by (cases d) simp_all
  show "px_connected (client_dispatch now (message_fields render m) p) =
      (case msg_payload m of Device_State d \<Rightarrow> d \<noteq> Faulted | _ \<Rightarrow> px_connected p)"
    "px_state (client_dispatch now (message_fields render m) p) =
      (case msg_payload m of Device_State d \<Rightarrow> Some (JString (device_state_name d)) | _ \<Rightarrow> px_state p)"
    using assms by (cases "msg_payload m"; auto simp: client_dispatch_def Let_def message_type message_state n notify_def
        split: option.split)+
qed

lemma client_hears_states:
  "states_are_events ms \<Longrightarrow>
   px_connected (client_hears render now ms p) =
     (if states_told ms = [] then px_connected p else last (states_told ms) \<noteq> Faulted) \<and>
   px_state (client_hears render now ms p) =
     (if states_told ms = [] then px_state p else Some (JString (device_state_name (last (states_told ms)))))"
proof (induction ms rule: rev_induct)
  case (snoc m ms)
  then show ?case using client_dispatch_state [of m now render "client_hears render now ms p"]
    by (cases "msg_payload m") (auto simp: client_hears_def states_are_events_def)
qed (simp add: client_hears_def)

text \<open>C21: Availability follows the radio, except on a new connection. After the handshake with a
  daemon that reports the status \<open>st\<close> and whatever messages follow, the client shows the last
  device state it was told, and is available exactly when the last \<open>device_state\<close> event is not
  \<open>faulted\<close>; but as long as there was no event it is available, a \<open>faulted\<close> status
  notwithstanding.\<close>

theorem availability_follows_events:
  assumes "states_are_events ms"
    and "p1 = client_hears render now ms (handshake_done now0 (message_fields render (reply (Some ''hello'') (Status st))) p)"
  shows "px_available p1 = (states_told ms = [] \<or> last (states_told ms) \<noteq> Faulted) \<and>
     px_state p1 = Some (JString (device_state_name (last (st_state st # states_told ms))))"
  using client_hears_states [OF assms(1)] unfolding assms(2) px_available_def
  by (simp add: status_state)

section \<open>What the daemon reads of a request\<close>

text \<open>The arguments the protocol has a representation for.\<close>

definition args_in_range :: "int \<Rightarrow> int list \<Rightarrow> int \<Rightarrow> int option \<Rightarrow> bool" where
  "args_in_range frequency timings repeat gap_us \<longleftrightarrow>
     0 \<le> frequency \<and> frequency < 2 ^ 64 \<and> list_all in_i64 timings \<and> 0 \<le> repeat \<and> repeat < 2 ^ 32 \<and>
     (case gap_us of None \<Rightarrow> True | Some g \<Rightarrow> 0 \<le> g \<and> g < 2 ^ 32)"

text \<open>What a caller of \<open>async_transmit\<close> asks for.\<close>

definition asked :: "int \<Rightarrow> int list \<Rightarrow> int \<Rightarrow> int option \<Rightarrow> f64 option \<Rightarrow> transmit" where
  "asked frequency timings repeat gap_us output_power =
     \<lparr>tx_frequency = nat frequency, tx_timings = timings, tx_repeat = nat repeat,
      tx_gap_us = (case gap_us of None \<Rightarrow> 0 | Some g \<Rightarrow> nat g),
      tx_txvga_db = map_option nat (Option.bind output_power power_to_gain), tx_amp = False\<rparr>"

lemma read_all_ints: "read_all read_i64 (map JInt ts) = (if list_all in_i64 ts then Some ts else None)"
  by (induction ts) simp_all

lemma power_to_gain_range: "power_to_gain level = Some g \<Longrightarrow> 0 \<le> g \<and> g \<le> 47"
  by (auto simp: power_to_gain_def split: f64.splits)

lemma json_field_Nil: "json_field n [] = Some None"
  by (simp add: json_field_def)

lemma read_client_transmit:
  assumes "transmit_payload f ts rep gap level = Some payload"
  shows "read_transmit ([(''v'', v), (''id'', i)] @ payload) =
     (if args_in_range f ts rep gap then Some (asked f ts rep gap level) else None)"
proof (cases level)
  case None
  then have p: "payload = [(''type'', JString ''transmit''), (''frequency'', JInt f), (''timings'', JArray (map JInt ts)),
      (''repeat'', JInt rep)] @ optional_field ''gap_us'' JInt gap"
    using assms by (simp add: transmit_payload_def)
  show ?thesis unfolding p
    by (cases gap) (simp_all add: None read_transmit_def required_def defaulted_def json_field_def read_all_ints
        args_in_range_def asked_def)
next
  case (Some l)
  then obtain g where g: "power_to_gain l = Some g" and
    p: "payload = [(''type'', JString ''transmit''), (''frequency'', JInt f), (''timings'', JArray (map JInt ts)),
      (''repeat'', JInt rep)] @ optional_field ''gap_us'' JInt gap @ [(''txvga_db'', JInt g)]"
    using assms by (auto simp: transmit_payload_def Let_def split: option.splits)
  show ?thesis unfolding p using power_to_gain_range [OF g]
    by (cases gap) (simp_all add: Some g read_transmit_def required_def defaulted_def json_field_def read_all_ints
        args_in_range_def asked_def)
qed

lemma transmit_payload_type:
  assumes "transmit_payload f ts rep gap level = Some payload"
  obtains rest where "payload = (''type'', JString ''transmit'') # rest" "\<And>kv. kv \<in> set rest \<Longrightarrow> fst kv \<notin> {''v'', ''id'', ''type''}"
proof -
  have "\<exists>rest. payload = (''type'', JString ''transmit'') # rest \<and> (\<forall>kv \<in> set rest. fst kv \<notin> {''v'', ''id'', ''type''})"
    using assms by (cases gap) (auto simp: transmit_payload_def Let_def split: option.splits)
  then show ?thesis using that by blast
qed

lemma request_begin_message:
  assumes "request_begin payload p = (Inr (k, m), p1)"
  shows "m = [(''v'', JInt 1), (''id'', JString k)] @ payload" "k = dec (px_next_id p + 1)"
    "k \<in> px_pending p1" "px_futures p1 k = Some Waiting"
  using assms by (auto simp: request_begin_def Let_def client_protocol_version_def split: if_splits)

lemma read_client_request:
  assumes "transmit_payload f ts rep gap level = Some payload" "request_begin payload p = (Inr (k, m), p1)"
  shows "read_request (JObject m) =
     (if args_in_range f ts rep gap
      then Some \<lparr>req_v = 1, req_id = Some k, req_payload = Transmit (asked f ts rep gap level)\<rparr> else None)"
proof -
  obtain rest where rest: "payload = (''type'', JString ''transmit'') # rest"
    "\<And>kv. kv \<in> set rest \<Longrightarrow> fst kv \<notin> {''v'', ''id'', ''type''}"
    by (rule transmit_payload_type [OF assms(1)]) blast
  have none: "filter (\<lambda>kv. fst kv = n) rest = []" if "n \<in> {''v'', ''id'', ''type''}" for n
    using rest(2) that by (auto simp: filter_empty_conv)
  note m = request_begin_message(1) [OF assms(2)]
  have "json_field ''v'' m = Some (Some (JInt 1))" "json_field ''id'' m = Some (Some (JString k))"
    "json_field ''type'' m = Some (Some (JString ''transmit''))"
    using none [of "''v''"] none [of "''id''"] none [of "''type''"] by (simp_all add: m rest(1) json_field_def)
  then show ?thesis
    using read_client_transmit [OF assms(1), of "JInt 1" "JString k"] unfolding m
    by (simp add: defaulted_def required_def read_payload_def)
qed

section \<open>What the caller learns\<close>

lemma wire_parse_client:
  assumes "read (print (JObject m)) = Inr (JObject m)" "args_in_range f ts rep gap"
    and "transmit_payload f ts rep gap level = Some payload" "request_begin payload p = (Inr (k, m), p1)"
  shows "wire_parse read (print (JObject m)) =
     Inr \<lparr>req_v = 1, req_id = Some k, req_payload = Transmit (asked f ts rep gap level)\<rparr>"
  using assms(1,2) read_client_request [OF assms(3,4)] by (simp add: wire_parse_def)

lemma wire_parse_client_fails:
  assumes "read (print (JObject m)) = Inr (JObject m)" "\<not> args_in_range f ts rep gap"
    and "transmit_payload f ts rep gap level = Some payload" "request_begin payload p = (Inr (k, m), p1)"
  shows "\<exists>e. wire_parse read (print (JObject m)) = Inl e"
  using assms(1,2) read_client_request [OF assms(3,4)] by (simp add: wire_parse_def)

text \<open>A reply for a request in flight completes it.\<close>

lemma client_dispatch_reply:
  assumes "k \<in> px_pending p" "px_futures p k = Some Waiting" "msg_id msg = Some k"
  shows "px_futures (client_dispatch now (message_fields render msg) p) k = Some (Result (message_fields render msg))"
  using assms by (simp add: client_dispatch_def)

lemma request_end_transmitted:
  "request_end k (Future_Done (Result (message_fields render (reply i (Transmitted d))))) p =
     (Inr (message_fields render (reply i (Transmitted d))), p\<lparr>px_pending := px_pending p - {k}\<rparr>)"
  by (simp add: request_end_def message_type reply_def)

lemma request_end_error:
  "fst (request_end k (Future_Done (Result (message_fields render (error_reply i t)))) p) =
     Inl (Refused_By_Daemon (Some (JString (error_message render t))))"
  by (cases i) (simp_all add: request_end_def message_type error_reply_def reply_def, simp_all add: message_fields_def)

lemma transmit_result_transmitted:
  "transmit_result (message_fields render (reply i (Transmitted d))) = d"
  by (cases i) (simp_all add: transmit_result_def message_fields_def reply_def)

text \<open>Which errors a transmit request of this client can be answered with.\<close>

definition not_the_clients_fault :: "error_text \<Rightarrow> bool" where
  "not_the_clients_fault t = (case t of
       Refused (Gain_Too_High g) \<Rightarrow> False | Version_Not_Supported v \<Rightarrow> False | Could_Not_Parse e \<Rightarrow> False
     | Rx_Frequency_Out_Of_Range f \<Rightarrow> False | _ \<Rightarrow> True)"

lemma asked_gain: "validate (asked f ts rep gap level) \<noteq> Inl (Gain_Too_High g)"
proof -
  have "x \<le> 47" if "tx_txvga_db (asked f ts rep gap level) = Some x" for x
    using that by (cases level) (auto simp: asked_def dest: power_to_gain_range)
  then show ?thesis
    by (cases "tx_txvga_db (asked f ts rep gap level)") (auto simp: validate_def Let_def split: if_splits)
qed

context radio_service
begin

text \<open>The client's caller is told what happened.\<close>

lemma transmit_told:
  assumes "dispatch_transmit lk (Some k) (asked f ts rep gap level) s = (msg, s1)"
  shows "(\<exists>d. msg = reply (Some k) (Transmitted d) \<and> d = air_time_us (asked f ts rep gap level) \<and> sent s1 = sent s + 1) \<or>
     (\<exists>t. msg = error_reply (Some k) t \<and> not_the_clients_fault t \<and> sent s1 = sent s)"
proof (cases "validate (asked f ts rep gap level)")
  case (Inl i)
  then show ?thesis using assms asked_gain [of f ts rep gap level]
    by (cases i) (auto simp: dispatch_transmit_def not_the_clients_fault_def)
next
  case (Inr u)
  obtain r s2 where r: "ask_transmit lk (asked f ts rep gap level) s = (r, s2)" by force
  have "not_the_clients_fault (gone_text g)" for g by (cases g) (simp_all add: not_the_clients_fault_def)
  moreover have "not_the_clients_fault (From_Radio e)" for e by (simp add: not_the_clients_fault_def)
  ultimately show ?thesis using assms Inr r transmit_sent [OF r] transmit_air_time [of "asked f ts rep gap level" s]
    by (auto simp: dispatch_transmit_def split: sum.splits)
qed

end

text \<open>C5: A caller of the client learns whether the radio transmitted. A request of the client with
  arguments the protocol can represent, sent to a daemon in any state, is always completed by the
  daemon's reply: either the call returns, then the daemon has transmitted exactly once and the
  value is the request's air time, or it raises the daemon's own message and nothing was
  transmitted; and the daemon never objects to the gain, the version or the form of the request.
  The premise on \<open>read\<close> is that the request's JSON text reads back as what was printed.\<close>

theorem caller_learns_what_happened:
  assumes law: "read (print (JObject m)) = Inr (JObject m)"
    and args: "args_in_range f ts rep gap" "transmit_payload f ts rep gap level = Some payload"
    and req: "request_begin payload p = (Inr (k, m), p1)"
    and answer: "dispatch (arbiter_link env) (wire_parse read) (print (JObject m)) a = (msg, a1)"
  shows "\<exists>d. px_futures (client_dispatch now (message_fields render msg) p1) k = Some (Result d) \<and>
     (case fst (request_end k (Future_Done (Result d)) (client_dispatch now (message_fields render msg) p1)) of
        Inr d \<Rightarrow> sent_count a1 = sent_count a + 1 \<and> transmit_result d = air_time_us (asked f ts rep gap level)
      | Inl e \<Rightarrow> sent_count a1 = sent_count a \<and>
          (\<exists>t. not_the_clients_fault t \<and> e = Refused_By_Daemon (Some (JString (error_message render t)))))"
proof -
  have "dispatch_transmit (arbiter_link env) (Some k) (asked f ts rep gap level) a = (msg, a1)"
    using answer wire_parse_client [where read = read and print = print, OF law args req] by (simp add: dispatch_def protocol_version_def)
  note told = radio.transmit_told [OF this]
  then have i: "msg_id msg = Some k" by (auto simp: reply_def error_reply_def)
  show ?thesis
    using told client_dispatch_reply [OF request_begin_message(3,4) [OF req] i, of now render]
    by (auto simp: request_end_transmitted request_end_error transmit_result_transmitted)
qed

text \<open>C24: A request the daemon cannot read is never answered. When an argument has no representation
  in the protocol, a negative \<open>repeat\<close> say, the daemon's error carries no id, the client drops it,
  and the call goes on waiting, to fail with a timeout that hides the reason.\<close>

theorem unreadable_requests_go_unanswered:
  assumes law: "read (print (JObject m)) = Inr (JObject m)"
    and args: "\<not> args_in_range f ts rep gap" "transmit_payload f ts rep gap level = Some payload"
    and req: "request_begin payload p = (Inr (k, m), p1)"
    and answer: "dispatch lk (wire_parse read) (print (JObject m)) s = (msg, s1)"
  shows "s1 = s \<and> carries_error msg \<and> client_dispatch now (message_fields render msg) p1 = p1 \<and>
     px_futures p1 k = Some Waiting \<and> fst (request_end k Timed_Out p1) = Inl No_Answer_In_Time"
proof -
  obtain e where e: "wire_parse read (print (JObject m)) = Inl e"
    using wire_parse_client_fails [where read = read and print = print, OF law args req] by blast
  then have m: "msg = event (Error (Could_Not_Parse e))" "s1 = s" using answer by (simp_all add: dispatch_def)
  have "client_dispatch now (message_fields render msg) p1 = p1"
    by (simp add: client_dispatch_def m(1) message_type event_def)
  then show ?thesis using m request_begin_message(4) [OF req]
    by (simp add: carries_error_def event_def request_end_def)
qed

end
