(* ===== verification/Commands.thy ===== *)
theory Commands
  imports Service Wire_Json
begin

text \<open>
  \<open>main.rs\<close>, the command line: the flags of each subcommand with their defaults, and \<open>main\<close>,
  which hands them to the subcommand. A flag is what the argument parser found, or \<open>None\<close> if
  it was not given; the parser fills in the default, and passes a frequency through
  \<open>parse_frequency\<close>. Numbers have been read at their width.
\<close>

section \<open>Flags\<close>

definition or_default :: "'a option \<Rightarrow> 'a \<Rightarrow> 'a" where
  "or_default given d = (case given of None \<Rightarrow> d | Some a \<Rightarrow> a)"

definition freq_flag :: "string option \<Rightarrow> error + nat" where
  "freq_flag given = parse_frequency (or_default given ''315M'')"

record scan_flags =
  sf_freqs :: "string option"
  sf_rate :: "nat option"
  sf_lna :: "nat option"
  sf_vga :: "nat option"
  sf_amp :: bool
  sf_dwell :: "f64 option"
  sf_passes :: "nat option"

definition scan_args :: "scan_flags \<Rightarrow> string \<times> scan_params" where
  "scan_args fl =
     (or_default (sf_freqs fl) ''315M,318M,390M,433.92M'',
      \<lparr>sp_frequencies = [], sp_sample_rate = or_default (sf_rate fl) 2000000, sp_lna_db = or_default (sf_lna fl) 24,
       sp_vga_db = or_default (sf_vga fl) 20, sp_amp_enable = sf_amp fl,
       sp_dwell_seconds = or_default (sf_dwell fl) (to_f64 (3/10)), sp_passes = or_default (sf_passes fl) 40\<rparr>)"

record capture_flags =
  cf_freq :: "string option"
  cf_rate :: "nat option"
  cf_lna :: "nat option"
  cf_vga :: "nat option"
  cf_amp :: bool
  cf_seconds :: "f64 option"
  cf_out :: string

definition capture_args :: "capture_flags \<Rightarrow> error + capture_params" where
  "capture_args fl =
     (case freq_flag (cf_freq fl) of Inl e \<Rightarrow> Inl e
      | Inr freq \<Rightarrow> Inr
          \<lparr>cp_frequency_hz = freq, cp_sample_rate = or_default (cf_rate fl) 2000000, cp_lna_db = or_default (cf_lna fl) 40,
           cp_vga_db = or_default (cf_vga fl) 40, cp_amp_enable = cf_amp fl,
           cp_seconds = or_default (cf_seconds fl) (to_f64 5)\<rparr>)"

record demod_flags =
  df_in :: string
  df_rate :: "nat option"
  df_threshold :: "f64 option"
  df_min_us :: "nat option"
  df_gap_us :: "int option"
  df_min_edges :: "nat option"
  df_bucket_us :: "int option"
  df_burst :: "nat option"
  df_stream :: bool
  df_out :: "string option"
  df_out_all :: "string option"

definition demod_args_of :: "demod_flags \<Rightarrow> demod_args" where
  "demod_args_of fl =
     \<lparr>da_sample_rate = or_default (df_rate fl) 2000000, da_threshold = or_default (df_threshold fl) (to_f64 (1/2)),
      da_min_us = or_default (df_min_us fl) 40, da_gap_us = or_default (df_gap_us fl) 10000,
      da_min_edges = or_default (df_min_edges fl) 8, da_bucket_us = or_default (df_bucket_us fl) 50,
      da_burst = or_default (df_burst fl) 1, da_stream = df_stream fl\<rparr>"

record serve_flags =
  vf_rx_freq :: "string option"
  vf_no_rx :: bool
  vf_rate :: "nat option"
  vf_lna :: "nat option"
  vf_vga :: "nat option"
  vf_rx_amp :: bool
  vf_txvga :: "nat option"
  vf_gap_us :: "int option"
  vf_min_edges :: "nat option"
  vf_record :: "string option"

definition serve_args_of :: "serve_flags \<Rightarrow> error + serve_args" where
  "serve_args_of fl =
     (case freq_flag (vf_rx_freq fl) of Inl e \<Rightarrow> Inl e
      | Inr freq \<Rightarrow> Inr
          \<lparr>sa_rx_freq = freq, sa_no_rx = vf_no_rx fl, sa_rate = or_default (vf_rate fl) 2000000,
           sa_lna = or_default (vf_lna fl) 40, sa_vga = or_default (vf_vga fl) 40, sa_rx_amp = vf_rx_amp fl,
           sa_txvga = or_default (vf_txvga fl) 30, sa_gap_us = or_default (vf_gap_us fl) 3000,
           sa_min_edges = or_default (vf_min_edges fl) 8, sa_record = (vf_record fl \<noteq> None)\<rparr>)"

record transmit_flags =
  tf_freq :: "string option"
  tf_rate :: "nat option"
  tf_txvga :: "nat option"
  tf_amp :: bool
  tf_repeat :: "nat option"
  tf_gap_us :: "nat option"
  tf_file :: string

definition transmit_args :: "transmit_flags \<Rightarrow> error + tx_params \<times> nat \<times> nat" where
  "transmit_args fl =
     (case freq_flag (tf_freq fl) of Inl e \<Rightarrow> Inl e
      | Inr freq \<Rightarrow> Inr
          (\<lparr>tp_frequency_hz = freq, tp_sample_rate = or_default (tf_rate fl) 2000000,
            tp_txvga_db = or_default (tf_txvga fl) 40, tp_amp_enable = tf_amp fl\<rparr>,
           or_default (tf_repeat fl) 4, or_default (tf_gap_us fl) 0))"

section \<open>\<open>main\<close>\<close>

datatype hrf_command =
    Info
  | Scan scan_flags
  | Capture capture_flags
  | Demod demod_flags
  | Serve serve_flags
  | Transmit transmit_flags

text \<open>Outside the program: the driver, the clocks and the recording, files by path (written
  through a buffer, read whole), JSON text, and what the radio thread's polls answer.\<close>

record ('h, 'e, 'f) surroundings =
  su_driver :: "'h driver"
  su_host :: "'e host"
  su_create :: "string \<Rightarrow> 'f file_host"
  su_read :: "string \<Rightarrow> 'f \<Rightarrow> error + byte list"
  su_parse :: "byte list \<Rightarrow> error + json"
  su_print :: "json \<Rightarrow> byte list"
  su_polls :: "command option list"

datatype ('h, 'e) outcome =
    Did_Info string string string
  | Did_Scan scan_report
  | Did_Capture meter
  | Did_Demod demod_report
  | Did_Serve "('h device \<times> 'e) arbiter"
  | Did_Transmit

text \<open>\<open>serde_json::to_writer\<close> into a buffered file, flushed; the file is dropped either way.\<close>

definition timings_json :: "int list \<Rightarrow> json" where "timings_json ts = JArray (map JInt ts)"

definition write_json :: "'f file_host \<Rightarrow> byte list \<Rightarrow> ('f, unit) io" where
  "write_json fl text =
     and_then (fl_create fl) (\<lambda>_ f.
       case and_then (fl_write_all fl text) (\<lambda>_. fl_flush fl) f of (r, f1) \<Rightarrow> (r, fl_drop fl f1))"

text \<open>The end of \<open>report_bursts\<close>: every burst to \<open>--out-all\<close>, then the selected one to \<open>--out\<close>.\<close>

definition write_bursts ::
  "(string \<Rightarrow> 'f file_host) \<Rightarrow> (json \<Rightarrow> byte list) \<Rightarrow> demod_flags \<Rightarrow> demod_report \<Rightarrow> ('f, unit) io" where
  "write_bursts create print fl r =
     and_then (case df_out_all fl of None \<Rightarrow> pure_io (Inr ())
       | Some path \<Rightarrow> write_json (create path) (print (JArray (map timings_json (dr_bursts r))))) (\<lambda>_.
     case df_out fl of None \<Rightarrow> pure_io (Inr ())
       | Some path \<Rightarrow> write_json (create path) (print (timings_json (dr_selected r))))"

text \<open>The timings file of \<open>hrf transmit\<close>: read, then a JSON array of \<open>i64\<close>.\<close>

definition read_timings ::
  "(string \<Rightarrow> 'f \<Rightarrow> error + byte list) \<Rightarrow> (byte list \<Rightarrow> error + json) \<Rightarrow> string \<Rightarrow> 'f \<Rightarrow> error + int list" where
  "read_timings read parse path f =
     (case add_context ''read'' (read path f) of
        Inl e \<Rightarrow> Inl e
      | Inr bytes \<Rightarrow>
          add_context ''timings must be a JSON array of signed integers (microseconds)''
            (case parse bytes of
               Inl e \<Rightarrow> Inl e
             | Inr j \<Rightarrow> (case read_array read_i64 j of None \<Rightarrow> Inl (Message ''invalid type'' []) | Some ts \<Rightarrow> Inr ts)))"

text \<open>\<open>None\<close> is a subcommand that panics or does not return.\<close>

fun hrf_main ::
  "('h, 'e, 'f) surroundings \<Rightarrow> hrf_command \<Rightarrow> 'h \<times> 'e \<times> 'f
    \<Rightarrow> ((error + ('h, 'e) outcome) \<times> ('h \<times> 'e \<times> 'f)) option" where
  "hrf_main su Info (h, e, f) =
     (case info (su_driver su) h of (r, h1) \<Rightarrow> Some (map_sum id (\<lambda>(b, v, u). Did_Info b v u) r, h1, e, f))"
| "hrf_main su (Scan fl) (h, e, f) =
     map_option (\<lambda>(r, h1). (map_sum id Did_Scan r, h1, e, f))
       (cli_scan (su_driver su) (fst (scan_args fl)) (snd (scan_args fl)) h)"
| "hrf_main su (Capture fl) (h, e, f) =
     (case capture_args fl of Inl er \<Rightarrow> Some (Inl er, h, e, f)
      | Inr p \<Rightarrow> map_option (\<lambda>(r, h1, f1). (map_sum id Did_Capture r, h1, e, f1))
          (capture (su_driver su) (su_create su (cf_out fl)) p (h, f)))"
| "hrf_main su (Demod fl) (h, e, f) =
     (case add_context ''open'' (su_read su (df_in fl) f) of Inl er \<Rightarrow> Some (Inl er, h, e, f)
      | Inr raw \<Rightarrow>
          (case demod raw (demod_args_of fl) of
             None \<Rightarrow> None
           | Some (Inl er) \<Rightarrow> Some (Inl er, h, e, f)
           | Some (Inr r) \<Rightarrow>
               (case write_bursts (su_create su) (su_print su) fl r f of
                  (outcome, f1) \<Rightarrow> Some (map_sum id (\<lambda>_. Did_Demod r) outcome, h, e, f1))))"
| "hrf_main su (Serve fl) (h, e, f) =
     (case serve_args_of fl of Inl er \<Rightarrow> Some (Inl er, h, e, f)
      | Inr args \<Rightarrow>
          (case serve (su_driver su) (su_host su) args (h, e) (su_polls su) of
             Inl er \<Rightarrow> Some (Inl er, h, e, f)
           | Inr a \<Rightarrow> Some (Inr (Did_Serve a), d_hw (fst (a_world a)), snd (a_world a), f)))"
| "hrf_main su (Transmit fl) (h, e, f) =
     (case transmit_args fl of Inl er \<Rightarrow> Some (Inl er, h, e, f)
      | Inr (p, repeat, gap_us) \<Rightarrow>
          (case read_timings (su_read su) (su_parse su) (tf_file fl) f of Inl er \<Rightarrow> Some (Inl er, h, e, f)
           | Inr timings \<Rightarrow>
               (case cli_transmit (su_driver su) p timings repeat gap_us h of
                  (r, h1) \<Rightarrow> Some (map_sum id (\<lambda>_. Did_Transmit) r, h1, e, f))))"

section \<open>Only supported settings\<close>

lemma freq_flag_ok: "freq_flag given = Inr hz \<Longrightarrow> freq_ok hz"
  unfolding freq_flag_def freq_ok_def by (rule parsed_frequency_in_range)

lemma parse_frequencies_ok:
  assumes "parse_frequencies txt = Inr fs"
  shows "list_all freq_ok fs"
proof -
  have "collect_results (map parse_frequency ts) = Inr fs \<Longrightarrow> list_all freq_ok fs" for ts
    using parsed_frequency_in_range
    by (induction ts arbitrary: fs) (auto simp: freq_ok_def split: sum.splits)
  then show ?thesis using assms
    by (cases "collect_results (map parse_frequency (split_commas txt))") (auto simp: parse_frequencies_def)
qed

lemma pure_then: "and_then (pure_io r) m h = (case r of Inl e \<Rightarrow> (Inl e, h) | Inr a \<Rightarrow> m a h)"
  by (simp add: and_then_def pure_io_def)

text \<open>What a tool has checked by the time it configures the receiver.\<close>

lemma rx_supported:
  assumes "validate_rx_gains lna vga = Inr ()" "validate_sample_rate rate = Inr ()" "freq_ok f"
  shows "supported \<lparr>rc_lna_db = lna, rc_vga_db = vga, rc_txvga_db = 0, rc_amp_enable = amp, rc_antenna_enable = False,
    rc_frequency_hz = f, rc_sample_rate_hz = rate, rc_sample_rate_div = 1\<rparr>"
  using assms by (auto simp: supported_def validate_rx_gains_def validate_sample_rate_def split: sum.splits)

lemma info_keeps:
  assumes k: "driver_keeps drv I" and h: "I h"
  shows "I (snd (info drv h))"
  unfolding info_def using h
  by (intro and_then_keeps [where P = I] open_radio_keeps [OF k] driver_keepsD(12,13) [OF k]) simp_all

lemma capture_open_keeps:
  assumes k: "driver_keeps drv I" and h: "I h" and f: "freq_ok (cp_frequency_hz p)"
  shows "I (snd (capture_open drv p h))"
proof (cases "validate_rx_gains (cp_lna_db p) (cp_vga_db p) = Inr () \<and> validate_sample_rate (cp_sample_rate p) = Inr ()")
  case True
  then show ?thesis unfolding capture_open_def
    by (simp only: pure_then sum.case)
      (intro and_then_keeps [where P = I] context_keeps [where P = I] open_radio_keeps [OF k] driver_keepsD(3,5) [OF k] h
        rx_supported f; simp)
next
  case False
  then show ?thesis unfolding capture_open_def pure_then using h by (auto split: sum.split)
qed

text \<open>Induction over the iterations of a loop that has returned.\<close>

lemma capture_loop_keeps:
  assumes k: "driver_keeps drv I" and l: "capture_loop drv fl n bps m w = Some r" and w: "I (fst w)"
  shows "I (fst (snd r))"
proof -
  have "d = drv \<longrightarrow> I (fst w) \<longrightarrow> I (fst (snd r))" if "capture_loop d fl n bps m w = Some r" for d fl n bps m w r
    using _ that
  proof (rule capture_loop.raw_induct [where P = "\<lambda>d fl n bps m w r. d = drv \<longrightarrow> I (fst w) \<longrightarrow> I (fst (snd r))"])
    fix loop d fl n bps m w r
    assume IH: "\<And>d fl n bps m w r. loop d fl n bps m w = Some r \<Longrightarrow> d = drv \<longrightarrow> I (fst w) \<longrightarrow> I (fst (snd r))"
      and eq: "(if m_written m < n
        then case capture_chunk d fl n bps m w of
             (r, w1) \<Rightarrow> (case r of Inl e \<Rightarrow> Some (Inl e, w1) | Inr m1 \<Rightarrow> loop d fl n bps m1 w1)
        else Some (Inr m, w)) = Some r"
    have c: "I (fst (snd (capture_chunk drv fl n bps m w)))" if "I (fst w)"
      unfolding capture_chunk_def
      by (intro and_then_keeps [where P = "\<lambda>w. I (fst w)"])
        (simp_all add: that snd_on_device fst_snd_on_host pure_io_def driver_keepsD(6) [OF k])
    show "d = drv \<longrightarrow> I (fst w) \<longrightarrow> I (fst (snd r))"
    proof (intro impI)
      assume d: "d = drv" and w: "I (fst w)"
      obtain x w1 where x: "capture_chunk drv fl n bps m w = (x, w1)" by (rule prod.exhaust)
      have "I (fst w1)" using c [OF w] x by simp
      moreover have "I (fst w1) \<Longrightarrow> loop drv fl n bps m1 w1 = Some r \<Longrightarrow> I (fst (snd r))" for m1
        using IH by blast
      ultimately show "I (fst (snd r))" using eq d w x by (cases r; cases x) (auto split: if_splits)
    qed
  qed
  then show ?thesis using l w by blast
qed

lemma dwell_loop_keeps:
  assumes k: "driver_keeps drv I" and l: "dwell_loop drv n c hist h = Some r" and h: "I h"
  shows "I (snd r)"
proof -
  have "d = drv \<longrightarrow> I h \<longrightarrow> I (snd r)" if "dwell_loop d n c hist h = Some r" for d n c hist h r
    using _ that
  proof (rule dwell_loop.raw_induct [where P = "\<lambda>d n c hist h r. d = drv \<longrightarrow> I h \<longrightarrow> I (snd r)"])
    fix loop d n c hist h r
    assume IH: "\<And>d n c hist h r. loop d n c hist h = Some r \<Longrightarrow> d = drv \<longrightarrow> I h \<longrightarrow> I (snd r)"
      and eq: "(if c < n
        then case drv_read_sync d (min (n - c) transfer_size) h of
             (r, h1) \<Rightarrow> (case r of Inl e \<Rightarrow> Some (Inl e, h1) | Inr chunk \<Rightarrow> loop d n (c + length chunk) (add_iq hist chunk) h1)
        else Some (Inr hist, h)) = Some r"
    show "d = drv \<longrightarrow> I h \<longrightarrow> I (snd r)"
    proof (intro impI)
      assume d: "d = drv" and h: "I h"
      obtain x h1 where x: "drv_read_sync drv (min (n - c) transfer_size) h = (x, h1)" by force
      have "I h1" using driver_keepsD(6) [OF k h, of "min (n - c) transfer_size"] x by simp
      then show "I (snd r)" using eq d h x IH by (cases x) (auto split: if_splits)
    qed
  qed
  then show ?thesis using l h by blast
qed

lemma capture_keeps:
  assumes k: "driver_keeps drv I" and h: "I (fst w)" and f: "freq_ok (cp_frequency_hz p)"
    and c: "capture drv fl p w = Some r"
  shows "I (fst (snd r))"
proof -
  obtain r0 h0 where o: "capture_open drv p (fst w) = (r0, h0)" by force
  have h0: "I h0" using capture_open_keeps [OF k h f] o by simp
  have drop: "I (fst (close_stream drv w1)) = I (drv_drop_rx drv (fst w1))"
    "fst (close_file fl w1) = fst w1" "fst (snd (on_host g w1)) = fst w1" for w1 and g :: "('b, 'c) io"
    by (simp_all add: close_stream_def close_file_def fst_snd_on_host)
  show ?thesis
  proof (cases r0)
    case (Inl e)
    then show ?thesis using c o h0 by (auto simp: capture_def on_device_def)
  next
    case (Inr u)
    obtain r1 w1 where cr: "on_host (fl_create fl) (h0, snd w) = (r1, w1)" by (rule prod.exhaust)
    then have w1: "fst w1 = h0" using fst_snd_on_host [of "fl_create fl" "(h0, snd w)"] by simp
    have s: "capture_stream drv fl p (h0, snd w) = Some r" using c o Inr by (simp add: capture_def on_device_def)
    let ?l = "capture_loop drv fl (byte_budget (cp_seconds p) (cp_sample_rate p)) (cp_sample_rate p * 2) meter_new w1"
    have l: "I (fst w2)" "I (drv_drop_rx drv (fst w2))" if "?l = Some (r2, w2)" for r2 w2
      using capture_loop_keeps [OF k that] w1 h0 driver_keepsD(7) [OF k] by auto
    show ?thesis
    proof (cases r1)
      case (Inl e)
      then show ?thesis using s cr w1 h0 driver_keepsD(7) [OF k] by (auto simp: capture_stream_def close_stream_def)
    next
      case r1: (Inr v)
      obtain r2 w2 where l2: "?l = Some (r2, w2)" using s cr r1 by (cases ?l) (auto simp: capture_stream_def)
      obtain r3 w3 where fl: "on_host (fl_flush fl) (close_stream drv w2) = (r3, w3)" by (rule prod.exhaust)
      then have "fst w3 = drv_drop_rx drv (fst w2)"
        using fst_snd_on_host [of "fl_flush fl" "close_stream drv w2"] by (simp add: close_stream_def)
      then show ?thesis using s cr r1 l2 fl l [OF l2]
        by (cases r2; cases r3) (auto simp: capture_stream_def drop close_stream_def)
    qed
  qed
qed

lemma scan_open_keeps:
  assumes k: "driver_keeps drv I" and h: "I h" and f: "list_all freq_ok (sp_frequencies p)"
  shows "I (snd (scan_open drv p h))"
proof (cases "validate_rx_gains (sp_lna_db p) (sp_vga_db p) = Inr () \<and> validate_sample_rate (sp_sample_rate p) = Inr () \<and>
    sp_frequencies p \<noteq> []")
  case True
  then have "freq_ok (hd (sp_frequencies p))" using f by (cases "sp_frequencies p") auto
  with True show ?thesis unfolding scan_open_def ensure_def
    by (simp only: pure_then sum.case if_True simp_thms)
      (intro and_then_keeps [where P = I] open_radio_keeps [OF k] driver_keepsD(3,5) [OF k] h rx_supported; simp)
next
  case False
  then show ?thesis unfolding scan_open_def pure_then using h by (auto simp: ensure_def split: sum.split)
qed

lemma scan_band_keeps:
  assumes k: "driver_keeps drv I" and h: "I h" and f: "freq_ok f" and r: "scan_band drv n f h = Some r"
  shows "I (snd r)"
proof -
  have "I (snd (and_then (drv_set_freq drv f) (\<lambda>_. drv_read_sync drv transfer_size) h))"
    by (intro and_then_keeps [where P = I] driver_keepsD(6,14) [OF k] h f)
  then show ?thesis using r dwell_loop_keeps [OF k, of n 0 hist_new]
    by (auto simp: scan_band_def split: prod.splits sum.splits)
qed

lemma scan_pass_keeps:
  assumes k: "driver_keeps drv I"
  shows "I h \<Longrightarrow> list_all freq_ok fs \<Longrightarrow> scan_pass drv n fs row bands h = Some r \<Longrightarrow> I (snd r)"
proof (induction fs arbitrary: row bands h)
  case (Cons f fs)
  then obtain r0 h0 where b: "scan_band drv n f h = Some (r0, h0)" by (auto split: option.splits)
  have "I h0" using scan_band_keeps [OF k Cons.prems(1) _ b] Cons.prems(2) by simp
  then show ?case using Cons b by (cases r0) (auto simp: Let_def)
qed auto

lemma scan_passes_keeps:
  assumes k: "driver_keeps drv I" and f: "list_all freq_ok fs"
  shows "I h \<Longrightarrow> scan_passes drv n fs ps sr h = Some r \<Longrightarrow> I (snd r)"
proof (induction ps arbitrary: sr h)
  case (Suc ps)
  then obtain r0 h0 where p: "scan_pass drv n fs [] (sr_saturated_bands sr) h = Some (r0, h0)" by (auto split: option.splits)
  have "I h0" using scan_pass_keeps [OF k Suc.prems(1) f p] by simp
  then show ?case using Suc p by (cases r0) auto
qed auto

lemma scan_keeps:
  assumes k: "driver_keeps drv I" and h: "I h" and f: "list_all freq_ok (sp_frequencies p)" and s: "scan drv p h = Some r"
  shows "I (snd r)"
proof -
  obtain r0 h0 where o: "scan_open drv p h = (r0, h0)" by force
  have "I h0" using scan_open_keeps [OF k h f] o by simp
  then show ?thesis using s o scan_passes_keeps [OF k f] driver_keepsD(7) [OF k]
    by (cases r0) (fastforce simp: scan_def)+
qed

lemma cli_scan_keeps:
  assumes k: "driver_keeps drv I" and h: "I h" and s: "cli_scan drv freqs p h = Some r"
  shows "I (snd r)"
proof (cases "parse_frequencies freqs")
  case (Inr fs)
  then show ?thesis using s scan_keeps [OF k h, of "p\<lparr>sp_frequencies := fs\<rparr>"] parse_frequencies_ok
    by (simp add: cli_scan_def)
qed (use s h in \<open>auto simp: cli_scan_def\<close>)

lemma writes_keep:
  assumes k: "driver_keeps drv I"
  shows "I (snd rh) \<Longrightarrow>
     I (snd (foldl (\<lambda>rh b. and_then (pure_io (fst rh)) (\<lambda>_. drv_write_sync drv b) (snd rh)) rh bs))"
proof (induction bs arbitrary: rh)
  case (Cons b bs)
  have "I (snd (and_then (pure_io (fst rh)) (\<lambda>_. drv_write_sync drv b) (snd rh)))"
    using Cons.prems driver_keepsD(9) [OF k] by (auto simp: pure_then split: sum.split)
  then show ?case by (simp add: Cons.IH)
qed simp

lemma transmit_once_keeps:
  assumes k: "driver_keeps drv I" and h: "I h" and f: "freq_ok (tp_frequency_hz p)"
  shows "I (snd (transmit_once drv p samples h))"
proof (cases "validate_tx_gain (tp_txvga_db p) = Inr () \<and> validate_sample_rate (tp_sample_rate p) = Inr () \<and> samples \<noteq> []")
  case True
  have s: "supported \<lparr>rc_lna_db = 0, rc_vga_db = 0, rc_txvga_db = tp_txvga_db p, rc_amp_enable = tp_amp_enable p,
      rc_antenna_enable = False, rc_frequency_hz = tp_frequency_hz p, rc_sample_rate_hz = tp_sample_rate p,
      rc_sample_rate_div = 1\<rparr>"
    using True f by (auto simp: supported_def validate_tx_gain_def validate_sample_rate_def)
  have "I (drv_drop_tx drv (snd (foldl (\<lambda>rh b. and_then (pure_io (fst rh)) (\<lambda>_. drv_write_sync drv b) (snd rh)) (Inr (), h1) bs)))"
    if "I h1" for h1 bs
    using writes_keep [OF k, of "(Inr (), h1)"] that by (intro driver_keepsD(10) [OF k]) simp
  then have w: "I (snd (case foldl (\<lambda>rh b. and_then (pure_io (fst rh)) (\<lambda>_. drv_write_sync drv b) (snd rh)) (Inr (), h1) bs of
      (r, h2) \<Rightarrow> (r, drv_drop_tx drv h2)))" if "I h1" for h1 bs using that by (simp add: split_beta)
  from True show ?thesis unfolding transmit_once_def ensure_def
    by (simp only: pure_then sum.case if_True simp_thms)
      (intro and_then_keeps [where P = I] context_keeps [where P = I] open_radio_keeps [OF k] driver_keepsD(4,8) [OF k] h s w [unfolded pure_then]; simp)
next
  case False
  then show ?thesis unfolding transmit_once_def pure_then using h by (auto simp: ensure_def split: sum.split)
qed

lemma cli_transmit_keeps:
  "driver_keeps drv I \<Longrightarrow> I h \<Longrightarrow> freq_ok (tp_frequency_hz p) \<Longrightarrow> I (snd (cli_transmit drv p timings repeat gap_us h))"
  unfolding cli_transmit_def pure_then by (auto simp: transmit_once_keeps split: sum.split)

lemma serve_keeps:
  assumes "driver_keeps drv I" "I h" "serve_args_of fl = Inr args" "serve drv host args (h, e) polls = Inr a"
    and "list_all (\<lambda>p. case p of None \<Rightarrow> True | Some cmd \<Rightarrow> vetted cmd) polls"
  shows "I (d_hw (fst (a_world a)))"
proof -
  have "freq_ok (sa_rx_freq args)" using assms(3) freq_flag_ok by (auto simp: serve_args_of_def split: sum.splits)
  with assms show ?thesis by (intro settings_are_supported [of drv I "(h, e)" host args polls a]) simp_all
qed

text \<open>C27: The radio is only ever asked for what it can do. Take any predicate on the USB driver's
  state that survives every driver call as long as receiving and transmitting are configured
  with a frequency of 1 MHz to 6 GHz, a sample rate of 2 to 20 Msps, LNA and VGA gains in
  range and in step, a transmit gain of at most 47 dB and the antenna port unpowered, and
  the receiver is retuned within the same range. It survives every subcommand that returns,
  the daemon included, whatever flags were given and whatever the driver and the files
  answer; the daemon's commands being those the server lets through.\<close>

theorem commands_ask_for_supported_settings:
  assumes "driver_keeps (su_driver su) I" "I h" "hrf_main su cmd (h, e, f) = Some (r, h1, e1, f1)"
    and "list_all (\<lambda>p. case p of None \<Rightarrow> True | Some cmd \<Rightarrow> vetted cmd) (su_polls su)"
  shows "I h1"
proof (cases cmd)
  case Info
  then show ?thesis using assms(3) info_keeps [OF assms(1,2)] by (auto split: prod.splits)
next
  case (Scan fl)
  then show ?thesis using assms(3) cli_scan_keeps [OF assms(1,2)] by auto
next
  case (Capture fl)
  show ?thesis
  proof (cases "capture_args fl")
    case (Inr p)
    then obtain r1 where c: "capture (su_driver su) (su_create su (cf_out fl)) p (h, f) = Some (r1, h1, f1)"
      using Capture assms(3) by auto
    have "freq_ok (cp_frequency_hz p)" using Inr freq_flag_ok by (auto simp: capture_args_def split: sum.splits)
    from capture_keeps [OF assms(1) _ this c] show ?thesis using assms(2) by simp
  qed (use Capture assms(2,3) in auto)
next
  case (Demod fl)
  then show ?thesis using assms(2,3) by (auto split: sum.splits option.splits prod.splits)
next
  case (Serve fl)
  then show ?thesis using assms(2,3) serve_keeps [OF assms(1,2) _ _ assms(4)] by (auto split: sum.splits)
next
  case (Transmit fl)
  show ?thesis
  proof (cases "transmit_args fl")
    case (Inr x)
    obtain p repeat gap_us where x: "x = (p, repeat, gap_us)" by (rule prod_cases3)
    have p: "freq_ok (tp_frequency_hz p)" using Inr x freq_flag_ok by (auto simp: transmit_args_def split: sum.splits)
    show ?thesis using cli_transmit_keeps [OF assms(1,2) p, of _ repeat gap_us] Inr x Transmit assms(2,3)
      by (auto simp: split_beta split: sum.splits)
  qed (use Transmit assms(2,3) in auto)
qed

section \<open>The defaults\<close>

text \<open>No flag given.\<close>

definition bare_scan :: scan_flags where
  "bare_scan = \<lparr>sf_freqs = None, sf_rate = None, sf_lna = None, sf_vga = None, sf_amp = False, sf_dwell = None, sf_passes = None\<rparr>"

definition bare_capture :: "string \<Rightarrow> capture_flags" where
  "bare_capture out = \<lparr>cf_freq = None, cf_rate = None, cf_lna = None, cf_vga = None, cf_amp = False, cf_seconds = None, cf_out = out\<rparr>"

definition bare_serve :: serve_flags where
  "bare_serve = \<lparr>vf_rx_freq = None, vf_no_rx = False, vf_rate = None, vf_lna = None, vf_vga = None, vf_rx_amp = False,
     vf_txvga = None, vf_gap_us = None, vf_min_edges = None, vf_record = None\<rparr>"

definition bare_transmit :: "string \<Rightarrow> transmit_flags" where
  "bare_transmit file = \<lparr>tf_freq = None, tf_rate = None, tf_txvga = None, tf_amp = False, tf_repeat = None, tf_gap_us = None, tf_file = file\<rparr>"

lemma freq_default: "freq_flag None = Inr 315000000"
proof -
  have "digits_value ''315'' = 315" by (simp add: digits_value_def code_of_def)
  then show ?thesis using whole_number_frequency [of "''315''" "''M''" 1000000]
    by (simp add: freq_flag_def or_default_def units_def is_digit_def code_of_def)
qed

lemma split_commas_only: "CHR '','' \<notin> set s \<Longrightarrow> split_commas s = [s]"
  by (induction s) auto

lemma split_commas_first: "CHR '','' \<notin> set s \<Longrightarrow> split_commas (s @ CHR '','' # t) = s # split_commas t"
  by (induction s) auto

lemma scan_default: "parse_frequencies (fst (scan_args bare_scan)) = Inr [315000000, 318000000, 390000000, 433920000]"
proof -
  have v: "digits_value ''315'' = 315" "digits_value ''318'' = 318" "digits_value ''390'' = 390" "digits_value ''43392'' = 43392"
    by (simp_all add: digits_value_def code_of_def)
  have d: "is_digit CHR ''0''" "is_digit CHR ''1''" "is_digit CHR ''2''" "is_digit CHR ''3''" "is_digit CHR ''4''"
    "is_digit CHR ''5''" "is_digit CHR ''8''" "is_digit CHR ''9''"
    by (simp_all add: is_digit_def code_of_def)
  have m: "(''M'', 1000000) \<in> set units" by (simp add: units_def)
  have "parse_frequency ''315M'' = Inr 315000000" "parse_frequency ''318M'' = Inr 318000000"
    "parse_frequency ''390M'' = Inr 390000000"
    using whole_number_frequency [of "''315''" "''M''" 1000000] whole_number_frequency [of "''318''" "''M''" 1000000]
      whole_number_frequency [of "''390''" "''M''" 1000000] m by (simp_all add: v d)
  moreover have "parse_frequency ''433.92M'' = Inr 433920000"
    using decimal_number_frequency [of "''433''" "''92''" "''M''" 1000000 433920000] m by (simp add: v d)
  moreover have "split_commas ''315M,318M,390M,433.92M'' = [''315M'', ''318M'', ''390M'', ''433.92M'']"
    using split_commas_first [of "''315M''" "''318M,390M,433.92M''"] split_commas_first [of "''318M''" "''390M,433.92M''"]
      split_commas_first [of "''390M''" "''433.92M''"] split_commas_only [of "''433.92M''"]
    by (simp del: split_commas.simps)
  ultimately show ?thesis
    by (simp add: parse_frequencies_def scan_args_def bare_scan_def or_default_def del: split_commas.simps)
qed

lemmas accepted_defs = validate_rx_gains_def validate_sample_rate_def validate_tx_gain_def ensure_def

text \<open>The defaults work together. With no flags given the scan list is read as the four bands
  it documents, every gain and rate default is one the radio accepts, the daemon starts on
  315 MHz whatever the driver is like, with the receiver on and a detector
  configuration for which live reception is the offline result.\<close>

theorem defaults_are_accepted:
  "parse_frequencies (fst (scan_args bare_scan)) = Inr [315000000, 318000000, 390000000, 433920000] \<and>
   (let p = snd (scan_args bare_scan)
    in validate_rx_gains (sp_lna_db p) (sp_vga_db p) = Inr () \<and> validate_sample_rate (sp_sample_rate p) = Inr ()) \<and>
   (\<exists>p. capture_args (bare_capture out) = Inr p \<and> validate_rx_gains (cp_lna_db p) (cp_vga_db p) = Inr () \<and>
      validate_sample_rate (cp_sample_rate p) = Inr ()) \<and>
   (\<exists>p. transmit_args (bare_transmit file) = Inr (p, 4, 0) \<and> validate_tx_gain (tp_txvga_db p) = Inr () \<and>
      validate_sample_rate (tp_sample_rate p) = Inr ()) \<and>
   (\<exists>args settings c d. serve_args_of bare_serve = Inr args \<and> serve_config args = Inr (settings, c) \<and>
      device_new settings h = Inr d \<and> cfg_rx_frequency c = 315000000 \<and> cfg_rx_enabled c \<and> config_ok (cfg_detector c))"
proof (intro conjI)
  show "parse_frequencies (fst (scan_args bare_scan)) = Inr [315000000, 318000000, 390000000, 433920000]"
    by (rule scan_default)
  show "let p = snd (scan_args bare_scan)
    in validate_rx_gains (sp_lna_db p) (sp_vga_db p) = Inr () \<and> validate_sample_rate (sp_sample_rate p) = Inr ()"
    by (simp add: scan_args_def bare_scan_def or_default_def Let_def accepted_defs)
  show "\<exists>p. capture_args (bare_capture out) = Inr p \<and> validate_rx_gains (cp_lna_db p) (cp_vga_db p) = Inr () \<and>
      validate_sample_rate (cp_sample_rate p) = Inr ()"
    by (simp add: capture_args_def bare_capture_def freq_default or_default_def accepted_defs)
  show "\<exists>p. transmit_args (bare_transmit file) = Inr (p, 4, 0) \<and> validate_tx_gain (tp_txvga_db p) = Inr () \<and>
      validate_sample_rate (tp_sample_rate p) = Inr ()"
    by (simp add: transmit_args_def bare_transmit_def freq_default or_default_def accepted_defs)
  show "\<exists>args settings c d. serve_args_of bare_serve = Inr args \<and> serve_config args = Inr (settings, c) \<and>
      device_new settings h = Inr d \<and> cfg_rx_frequency c = 315000000 \<and> cfg_rx_enabled c \<and> config_ok (cfg_detector c)"
    by (simp add: serve_args_of_def bare_serve_def freq_default or_default_def serve_config_def device_new_def
        config_new_def detector_config_new_def config_ok_def rate_ok_def Let_def accepted_defs)
qed

end
