(* ===== verification/Ook_Examples.thy ===== *)
theory Ook_Examples
  imports Ook_Properties
begin

text \<open>
  Concrete buffers on which the properties of the on-off-keying core apply: their
  hypotheses hold together, and the values come out as the code computes them.
\<close>

section \<open>At two megasamples a second\<close>

text \<open>At this rate a sample lasts exactly half a microsecond, so the conversions are exact and
  the properties can be applied to concrete buffers.\<close>

lemma to_f64_half: "\<bar>n\<bar> < 2 ^ 53 \<Longrightarrow> to_f64 (of_int n / 2) = Fin (of_int n / 2)"
proof -
  assume n: "\<bar>n\<bar> < 2 ^ 53"
  define x :: rat where "x = of_int n / 2"
  have "rnd x = x" using rnd_exact [of n "-1"] n by (simp add: power_int_minus x_def)
  moreover have "\<bar>x\<bar> \<le> 2 ^ 53"
  proof -
    have "\<bar>of_int n\<bar> \<le> (of_int (2 ^ 53) :: rat)" using n by (metis of_int_abs of_int_le_iff less_imp_le)
    then show ?thesis by (simp add: x_def)
  qed
  ultimately show ?thesis unfolding x_def [symmetric] by (simp add: to_f64_def)
qed

lemma ups_2M: "us_per_sample 2000000 = Fin (1/2)"
  using us_per_sample_eq [of 2000000] p_median_eq by (simp add: rate_ok_def us_rat_def p_median_def)

lemma run_duration_2M: "n < 2 ^ 50 \<Longrightarrow> run_duration n (us_per_sample 2000000) = round_away (of_nat n / 2)"
proof -
  assume n: "n < 2 ^ 50"
  have "f_mul (f64_of_nat n) (Fin (1/2)) = Fin (of_nat n / 2)"
    using to_f64_half [of "int n"] n by (simp add: f64_of_nat_small)
  moreover have "\<bar>of_nat n / 2\<bar> \<le> (2 ^ 60 :: rat)"
    using n by (simp add: of_nat_le_numeral_power_cancel_iff)
  ultimately show ?thesis using f_as_i64_round [of "of_nat n / 2"] by (simp add: run_duration_def ups_2M del: f_round.simps)
qed

lemma us_to_samples_2M:
  assumes "1 \<le> n" "n < 2 ^ 40"
  shows "us_to_samples (f64_of_nat n) (us_per_sample 2000000) = 2 * n"
proof -
  have "f_div (f64_of_nat n) (Fin (1/2)) = Fin (of_int (int (2 * n)))"
    using to_f64_of_int [of "int (2 * n)"] assms by (simp add: f64_of_nat_small mult.commute)
  moreover have "f_max (Fin (of_int (int (2 * n)))) (to_f64 1) = Fin (of_int (int (2 * n)))"
    using to_f64_of_int [of 1] assms by simp
  moreover have "f_as_u64 (Fin (of_int (int (2 * n)))) = 2 * n"
    using assms f_as_u64_of_int [of "int (2 * n)"] by (simp add: u64_max_def)
  ultimately show ?thesis
    by (simp only: us_to_samples_def ups_2M f_round.simps round_away_of_int)
qed

lemma sample_count_2M: "nat \<bar>t\<bar> < 2 ^ 40 \<Longrightarrow> sample_count t 2000000 = 2 * nat \<bar>t\<bar>"
proof -
  assume t: "nat \<bar>t\<bar> < 2 ^ 40"
  have "samples_per_us 2000000 = Fin 2"
    using samples_per_us_eq [of 2000000] to_f64_of_int [of 2] by (simp add: rate_ok_def spu_rat_def)
  moreover have "f_mul (f64_of_nat (nat \<bar>t\<bar>)) (Fin 2) = Fin (of_int (int (2 * nat \<bar>t\<bar>)))"
    using to_f64_of_int [of "int (2 * nat \<bar>t\<bar>)"] t by (simp add: f64_of_nat_small mult.commute)
  moreover have "f_as_u64 (Fin (of_int (int (2 * nat \<bar>t\<bar>)))) = 2 * nat \<bar>t\<bar>"
    using t f_as_u64_of_int [of "int (2 * nat \<bar>t\<bar>)"] by (simp add: u64_max_def)
  ultimately show ?thesis by (simp only: sample_count_def f_round.simps round_away_of_int)
qed

definition demo_config :: detector_config where
  "demo_config = \<lparr>dc_sample_rate = 2000000, dc_threshold_fraction = Fin (1/2), dc_min_us = 1, dc_gap_us = 4,
     dc_min_edges = 1, dc_noise_sigmas = Fin 8, dc_window_samples = 60\<rparr>"

definition demo_quiet :: "nat \<Rightarrow> byte list" where "demo_quiet n = concat (replicate n [0, 0])"

definition demo_pulse :: "byte list" where
  "demo_pulse = demo_quiet 2 @ concat (replicate 4 [100, 0]) @ demo_quiet 10"

lemma length_quiet: "length (demo_quiet n) = 2 * n"
  by (induction n) (simp_all add: demo_quiet_def)

lemma envelope_quiet: "envelope (demo_quiet n) = replicate n 0"
  by (simp add: demo_quiet_def envelope_def iq_samples_replicate sample_magnitude_def)

lemma envelope_constant: "envelope (concat (replicate n [i, q])) = replicate n (sample_magnitude (i, q))"
  by (simp add: envelope_def iq_samples_replicate)

lemma envelope_pulse: "envelope demo_pulse = replicate 2 0 @ replicate 4 100 @ replicate 10 0"
  by (simp add: demo_pulse_def demo_quiet_def envelope_append even_length_replicate envelope_constant
      sample_magnitude_def)

lemma pulse_list: "replicate 2 0 @ replicate 4 x @ replicate 10 0 =
    [0, 0, x, x, x, x, 0, 0, 0, 0, 0, 0, 0, 0, 0, (0::nat)]"
  by (simp add: eval_nat_numeral)

lemma robust_sigma_finite: "\<exists>y. robust_sigma = Fin y \<and> y \<noteq> 0"
proof -
  have "f64_range (674/1000)" by (intro f64_range_easy) simp_all
  then obtain y where "to_f64 (674/1000) = Fin y" "\<bar>y - 674/1000\<bar> \<le> 674/1000 / 2 ^ 53"
    by (auto elim: to_f64_err)
  then show ?thesis by (auto simp: robust_sigma_def)
qed

lemma retuned_silence:
  assumes "\<forall>m \<in> set ms. m = 0" "1 \<le> length ms" "length ms < 2 ^ 50"
    and c: "dc_noise_sigmas c = Fin s" "dc_threshold_fraction c = Fin f"
  shows "retuned_threshold c (hist_of ms) = 1"
proof -
  have all: "filter (\<lambda>m. m \<le> 0) ms = ms" using assms(1) by (simp add: filter_id_conv)
  have p: "hist_percentile (hist_of ms) (to_f64 q) = 0" if "1/4 \<le> q" "q \<le> 9999/10000" for q
  proof -
    have "hist_percentile (hist_of ms) (to_f64 q) \<le> 0"
      using quantile_rank_in_range(2) [OF that assms(2,3)] all
      by (intro hist_percentile_le_cap [OF hist_ok_of that assms(2,3)]) simp
    then show ?thesis by simp
  qed
  have z: "to_f64 0 = Fin 0" "round_away 0 = 0" "f_as_u16 (Fin 0) = 0"
    using to_f64_of_int [of 0] round_away_of_int [of 0] f_as_u16_of_int [of 0] by simp_all
  have "hist_percentile (hist_of ms) p_median = 0" "hist_percentile (hist_of ms) p_quartile = 0"
    "hist_percentile (hist_of ms) p_signal = 0"
    using p [of "1/2"] p [of "3/4"] p [of "999/1000"] by (simp_all add: p_median_def p_quartile_def p_signal_def)
  moreover have "f_div (Fin 0) robust_sigma = Fin 0"
  proof -
    obtain y where y: "robust_sigma = Fin y" "y \<noteq> 0" using robust_sigma_finite by blast
    show ?thesis unfolding y(1) using y(2) z by simp
  qed
  ultimately show ?thesis using c z
    by (simp add: retuned_threshold_def Let_def f64_of_nat_def u16_sat_add_def)
qed

lemma demo_threshold: "retuned_threshold demo_config (add_iq hist_new (demo_quiet 60)) = 1"
  using retuned_silence [of "envelope (demo_quiet 60)" demo_config 8 "1/2"]
  by (simp add: envelope_quiet add_iq_envelope hist_of_def demo_config_def del: replicate.simps)

lemma demo_samples: "us_to_samples (f64_of_nat (Suc 0)) (us_per_sample 2000000) = 2"
  "us_to_samples (f64_of_nat 4) (us_per_sample 2000000) = 8"
  using us_to_samples_2M [of 1] us_to_samples_2M [of 4] by simp_all

lemma demo_gap: "det_gap_samples (detector_new demo_config) = 8"
  using demo_samples(2) by (simp add: detector_new_def demo_config_def Let_def f64_of_int_def f64_of_nat_def)

lemma demo_config_ok: "config_ok demo_config"
  by (simp add: config_ok_def demo_config_def rate_ok_def)

lemma demo_runs: "runs (envelope demo_pulse) 1 2000000 1 =
    [\<lparr>run_on = False, run_us = 1\<rparr>, \<lparr>run_on = True, run_us = 2\<rparr>, \<lparr>run_on = False, run_us = 5\<rparr>]"
proof -
  have "round_away (of_nat 2 / 2) = 1" "round_away (of_nat 4 / 2) = 2" "round_away (of_nat 10 / 2) = 5"
    by (simp_all add: round_away_def floor_eq_iff)
  then have d0: "run_duration 2 (us_per_sample 2000000) = 1" "run_duration 4 (us_per_sample 2000000) = 2"
      "run_duration 10 (us_per_sample 2000000) = 5"
    using run_duration_2M [of 2] run_duration_2M [of 4] run_duration_2M [of 10] by simp_all
  have "(2::nat) = Suc (Suc 0)" "(4::nat) = Suc (Suc (Suc (Suc 0)))"
      "(10::nat) = Suc (Suc (Suc (Suc (Suc (Suc (Suc (Suc (Suc (Suc 0)))))))))" by simp_all
  note d = d0(1) [unfolded this(1)] d0(2) [unfolded this(2)] d0(3) [unfolded this(3)]
  show ?thesis unfolding envelope_pulse pulse_list
    by (simp add: runs_def Let_def demo_samples push_run_def d)
qed

lemma demo_bursts: "split_bursts (runs (envelope demo_pulse) 1 2000000 1) 4 1 = [[2]]"
  unfolding demo_runs by code_simp

lemma streaming_equals_offline_witness:
  "map burst_timings (snd (det_push (detector_new demo_config) (demo_quiet 60 @ demo_pulse))) = [[2]]"
proof -
  show ?thesis
    using streaming_equals_offline [of demo_config "demo_quiet 60" 1 demo_pulse
        "replicate 2 0 @ replicate 4 100" "replicate 10 0"] demo_bursts demo_config_ok demo_threshold demo_gap
    by (simp add: length_quiet envelope_quiet demo_config_def) (simp add: envelope_pulse pulse_list)
qed

lemma live_reception_witness:
  "map burst_timings (snd (det_push (armed demo_config 50) (on_air 3 [3, -2, 3] 1 5 6 2000000 127)))
     = [[3, -2, 3], [3, -2, 3]]"
proof -
  have d: "deliverable 1 4 1 [3, -2, 3]" by code_simp
  have l: "length (envelope (on_air 3 [3, -2, 3] 1 5 6 2000000 127)) = 60"
    by (simp add: envelope_def length_iq_samples on_air_synthesize length_synthesize
        transmission_timings_def sample_count_2M)
  have "map burst_timings (snd (det_push (armed demo_config 50)
      (on_air 3 [3, -2, 3] 1 5 6 (dc_sample_rate demo_config) 127))) = replicate (1 + 1) [3, -2, 3]"
    by (rule live_reception [OF demo_config_ok])
      (use d l in \<open>simp_all add: demo_config_def amp_level_def\<close>)
  then show ?thesis by (simp add: demo_config_def numeral_2_eq_2)
qed

lemma render_runs_roundtrip_witness:
  "split_bursts (runs (envelope (render_transmission [3, -2, 3] 2 5 2000000 127)) 50 2000000 1) 4 1
     = [[3, -2, 3], [3, -2, 3], [3, -2, 3]]"
proof -
  have d: "deliverable 1 4 1 [3, -2, 3]" by code_simp
  have "split_bursts (runs (envelope (render_transmission [3, -2, 3] 2 5 2000000 127)) 50 2000000 1) 4 1
     = replicate (2 + 1) [3, -2, 3]"
    by (rule render_runs_roundtrip [OF _ _ _ d]) (simp_all add: rate_ok_def amp_level_def)
  also have "replicate (2 + 1) [3, -2, 3 :: int] = [[3, -2, 3], [3, -2, 3], [3, -2, 3]]"
    by (simp add: eval_nat_numeral)
  finally show ?thesis .
qed

lemma pulse_starts_silent: "hd (envelope demo_pulse) < 1" "length (envelope demo_pulse) < 2 ^ 50"
  by (simp_all add: envelope_pulse pulse_list)

lemma burst_shape_witness:
  "list_all (\<lambda>b. well_shaped 4 1 (burst_timings b)) (snd (det_push (detector_new demo_config) (demo_quiet 60 @ demo_pulse))) \<and>
   well_shaped 4 1 [2]"
proof -
  have "length (envelope (demo_quiet 60 @ demo_pulse)) < 2 ^ 50"
    using pulse_starts_silent(2) by (simp add: length_quiet envelope_append envelope_quiet envelope_pulse)
  from burst_shape [OF demo_config_ok this pulse_starts_silent(2,1)] show ?thesis
    using demo_bursts by (simp add: demo_config_def list_all_iff)
qed

definition demo_run_list :: "run list" where
  "demo_run_list = map timing_run [-9, 5, -2, 3, -9, 7, -9]"

lemma split_bursts_specification_witness: "split_bursts demo_run_list 4 2 = [[5, -2, 3]]"
proof -
  have "\<forall>p \<in> set (cut_at_gaps 4 demo_run_list). length (piece_body p) \<le> max_burst_edges" by code_simp
  from split_bursts_specification [OF this, of 2] show ?thesis
    by (simp add: demo_run_list_def timing_run_def piece_body_def strip_spaces_def run_signed_def)
qed

lemma detector_bounded_witness:
  "list_all (\<lambda>b. 1 \<le> length (burst_timings b) \<and> length (burst_timings b) \<le> 4096 \<and> burst_peak b \<le> 256)
     (snd (det_push (detector_new demo_config) (demo_quiet 60 @ demo_pulse)))"
  using detector_bounded [of demo_config "demo_quiet 60 @ demo_pulse"]
  by (simp add: demo_config_def list_all_iff)

lemma silence_delivers_nothing_witness:
  "snd (det_push (detector_new demo_config) (demo_quiet 1000)) = []"
  by (rule silence_delivers_nothing) (simp_all add: demo_config_def envelope_quiet)

lemma percentile_is_order_statistic_witness:
  "hist_percentile (add_iq hist_new [9, 0, 1, 0, 2, 0]) p_median = 2"
proof -
  have e: "envelope [9, 0, 1, 0, 2, 0] = [9, 1, 2]"
    by (simp add: envelope_def sample_magnitude_def)
  have "to_f64 (3/2) = Fin (3/2)" "to_f64 3 = Fin 3"
    using to_f64_half [of 3] to_f64_of_int [of 3] by simp_all
  moreover have "\<lceil>3/2 :: rat\<rceil> = 2" by (simp add: ceiling_eq_iff)
  ultimately have "quantile_rank 3 p_median = 2"
    using f_as_u64_of_int [of 2]
    by (simp add: quantile_rank_def p_median_eq f64_of_nat_def u64_max_def)
  then have r: "quantile_rank (length (envelope [9, 0, 1, 0, 2, 0])) p_median = 2"
    unfolding e by (simp add: numeral_3_eq_3)
  show ?thesis using percentile_is_order_statistic [of "[9, 0, 1, 0, 2, 0]" p_median] r by (simp add: e)
qed

lemma signal_level_ignores_spikes_witness: "signal (levels_of (replicate 1001 3 @ [200]) (Fin (1/2))) \<le> 3"
  by (rule signal_level_ignores_spikes [where k = 1]) (simp_all add: filter_replicate)

lemma threshold_between_levels_witness:
  "noise_floor (levels_of [1, 2, 9] (Fin (1/2))) \<le> threshold (levels_of [1, 2, 9] (Fin (1/2))) \<and>
   threshold (levels_of [1, 2, 9] (Fin (1/2))) \<le> signal (levels_of [1, 2, 9] (Fin (1/2))) \<and>
   signal (levels_of [1, 2, 9] (Fin (1/2))) \<le> 257"
  by (rule threshold_between_levels) simp_all

lemma chunking_invisible_witness:
  "det_push (detector_new demo_config) (demo_quiet 60 @ demo_pulse) =
     (fst (det_push (fst (det_push (detector_new demo_config) (demo_quiet 60))) demo_pulse),
      snd (det_push (detector_new demo_config) (demo_quiet 60)) @
      snd (det_push (fst (det_push (detector_new demo_config) (demo_quiet 60))) demo_pulse))"
  by (rule chunking_invisible) (simp add: length_quiet)

lemma width_histogram_counts_witness:
  "\<exists>h. width_histogram [7, -3, 9] 5 = Some h \<and> h 5 = Some 2 \<and> h (-5) = Some 1 \<and> h 0 = None"
proof -
  obtain h where h: "width_histogram [7, -3, 9] 5 = Some h"
    and c: "\<And>k. (case h k of None \<Rightarrow> 0 | Some c \<Rightarrow> c) = length (filter (\<lambda>t. bucket_of 5 t = k) [7, -3, 9])"
    using width_histogram_counts [of "[7, -3, 9]" 5] by auto
  have e: "\<forall>k. h k = None \<longleftrightarrow> (\<forall>t \<in> set [7, -3, 9]. bucket_of 5 t \<noteq> k)"
    using width_histogram_counts [of "[7, -3, 9]" 5] h
    by (metis (no_types) option.inject zero_less_numeral)
  have b: "bucket_of 5 7 = 5" "bucket_of 5 (-3) = -5" "bucket_of 5 9 = 5"
    by (simp_all add: bucket_of_def div_euclid_def)
  have "h 0 = None" unfolding e [rule_format] by (simp add: b)
  moreover have "h 5 = Some 2" using c [of 5] by (simp add: b split: option.splits)
  moreover have "h (-5) = Some 1" using c [of "-5"] by (simp add: b split: option.splits)
  ultimately show ?thesis using h by blast
qed

lemma compare_bursts_least_bound_witness:
  "\<exists>g. compare_bursts [[500, -1000], [510, -980], [500]] = Some g \<and> \<not> same_edge_count g \<and> max_deviation_us g \<le> 20"
proof -
  let ?f = "[500, -1000 :: int]" and ?os = "[[510, -980], [500 :: int]]"
  obtain g where "compare_bursts (?f # ?os) = Some g"
    "same_edge_count g = (\<forall>x \<in> set ?os. length x = length ?f)"
    "\<forall>d. max_deviation_us g \<le> d \<longleftrightarrow>
       0 \<le> d \<and> (\<forall>x \<in> set ?os. length x = length ?f \<longrightarrow> deviates_by ?f x d)"
    using compare_bursts_least_bound [of ?f ?os] by (elim conjE exE) (rule that; assumption)
  then show ?thesis by (auto simp: deviates_by_def)
qed

end
