(* ===== verification/Daemon_Examples.thy ===== *)
theory Daemon_Examples
  imports Daemon Ook_Examples
begin

text \<open>
  Concrete radios, requests and states on which the properties of the arbiter, the server, the
  command line and the whole daemon apply. The fake radio answers like the one of the unit
  tests of \<open>engine.rs\<close>: everything succeeds, and reads yield queued transfers, then silence.
\<close>

section \<open>Fake radios\<close>

text \<open>The world: the clock, and the transfers still to be read.\<close>

type_synonym fake = "nat \<times> byte list list"

definition fake_env :: "fake env" where
  "fake_env =
     \<lparr>e_start_rx = (\<lambda>f w. (Inr (), w)),
      e_read = (\<lambda>w. case snd w of [] \<Rightarrow> (Inr [0, 0], w) | b # bs \<Rightarrow> (Inr b, (fst w, bs))),
      e_stop = (\<lambda>w. (Inr (), w)), e_transmit = (\<lambda>p s w. (Inr (), w)),
      e_describe = (\<lambda>w. (Inr ''fake HackRF'', w)),
      e_now = (\<lambda>w. (fst w, w)), e_now_ms = (\<lambda>w. (fst w, w)), e_sleep = (\<lambda>n w. (fst w + n, snd w)),
      e_log_open = (\<lambda>w. (Inr (), w)), e_log_append = (\<lambda>f w. (Inr (), w))\<rparr>"

text \<open>A radio that transmits but cannot receive.\<close>

definition deaf_env :: "fake env" where
  "deaf_env = fake_env\<lparr>e_start_rx := (\<lambda>f w. (Inl (Message ''radio is not there'' []), w))\<rparr>"

definition fake_config :: config where
  "fake_config = (config_new 2000000 315000000)\<lparr>cfg_detector := demo_config\<rparr>"

definition fresh :: "fake arbiter" where "fresh = arbiter_new fake_env fake_config (0, [])"

definition listening :: "fake arbiter" where
  "listening = fresh\<lparr>a_state := (a_state fresh)\<lparr>s_rx_running := True\<rparr>, a_detector := armed demo_config 50,
     a_world := (0, [on_air 3 [3, -2, 3] 1 5 6 2000000 127])\<rparr>"

definition deaf :: "fake arbiter" where
  "deaf = loop_step deaf_env None (arbiter_new deaf_env fake_config (0, []))"

lemma deaf_state:
  "s_faulted (a_state deaf)" "s_rx_enabled (a_state deaf)" "\<not> s_rx_running (a_state deaf)"
  "s_retry_at (a_state deaf) = 4000000000" "a_world deaf = (0, [])"
  by (simp_all add: deaf_def loop_step_def loop_body_def receiving_def pump_def fault_def enter_fault_def
      arbiter_new_def state_new_def deaf_env_def fake_env_def fake_config_def config_new_def act_def
      max_fault_backoff_def fault_backoff_def)

section \<open>The arbiter\<close>

theorem announcements_are_true_witness:
  "last_announced (a_out deaf) = Some Faulted \<and> s_published (a_state deaf) = Some Faulted \<and>
   no_repeats (announcements (a_out deaf))"
proof -
  have "reachable deaf_env fake_config (0, []) deaf" unfolding deaf_def by (intro reachable.intros)
  note t = announcements_are_true [OF this]
  have "s_published (a_state deaf) = Some Faulted"
    by (simp add: deaf_def loop_step_def loop_body_def receiving_def pump_def fault_def enter_fault_def
        arbiter_new_def state_new_def deaf_env_def fake_env_def fake_config_def config_new_def act_def device_state_of_def)
  then show ?thesis using t by simp
qed

lemma deaf_transmits: "preempt_transmit deaf_env demo_transmit deaf =
    (Inr (air_time_us demo_transmit), snd (preempt_transmit deaf_env demo_transmit deaf))"
  "a_world (snd (preempt_transmit deaf_env demo_transmit deaf)) = (0, [])"
  using deaf_state
  by (simp_all add: preempt_transmit_def send_def act_def deaf_env_def fake_env_def Let_def announce_def emit_def upd_def
      count_transmission_def)

theorem transmitting_stays_announced_witness:
  "s_published (a_state (loop_step deaf_env (Some (Cmd_Transmit demo_transmit)) deaf)) = Some Transmitting \<and>
   device_state_of (a_state (loop_step deaf_env (Some (Cmd_Transmit demo_transmit)) deaf)) = Faulted"
proof (rule transmitting_stays_announced)
  show "is_ok (fst (preempt_transmit deaf_env demo_transmit deaf))" by (subst deaf_transmits) simp
  show "fst (e_now deaf_env (a_world (snd (preempt_transmit deaf_env demo_transmit deaf)))) < s_retry_at (a_state deaf)"
    using deaf_state(4) deaf_transmits(2) by (simp add: deaf_env_def fake_env_def)
qed (use deaf_state in simp_all)

theorem frames_are_bursts_witness:
  "\<exists>fs. frames (a_out (pump fake_env listening)) = frames (a_out listening) @ fs \<and>
     list_all2 (frame_matches (s_rx_frequency (a_state listening)))
       (snd (det_push (a_detector listening) (on_air 3 [3, -2, 3] 1 5 6 2000000 127))) fs \<and>
     a_detector (pump fake_env listening) = fst (det_push (a_detector listening) (on_air 3 [3, -2, 3] 1 5 6 2000000 127))"
  by (rule frames_are_bursts [where ?w1.0 = "(0, [])"]) (simp_all add: listening_def fake_env_def)

theorem backoff_doubles_up_to_a_minute_witness:
  "s_backoff (a_state ((back_off fake_env ^^ 3) fresh)) = 16 * 10 ^ 9 \<and>
   s_backoff (a_state ((back_off fake_env ^^ 9) fresh)) = 60 * 10 ^ 9"
proof -
  have r: "reachable fake_env fake_config (0, []) fresh" unfolding fresh_def by (rule reachable.start)
  have b: "s_backoff (a_state fresh) = 2 * 10 ^ 9"
    by (simp add: fresh_def arbiter_new_def state_new_def fake_env_def fault_backoff_def)
  show ?thesis
    using backoff_doubles_up_to_a_minute [OF r, of 3] backoff_doubles_up_to_a_minute [OF r, of 9]
    by (simp add: b max_fault_backoff_def)
qed

theorem arrival_retries_now_witness:
  "\<not> s_faulted (a_state (loop_step deaf_env (Some Cmd_Device_Arrived) deaf)) \<and>
   s_device (a_state (loop_step deaf_env (Some Cmd_Device_Arrived) deaf)) = Some ''fake HackRF''"
  using arrival_retries_now [of deaf deaf_env 0 "(0, [])" 0 "(0, [])" "Inr ()" "(0, [])" "''fake HackRF''" "(0, [])"]
    deaf_state
  by (simp add: deaf_env_def fake_env_def)

theorem waiting_leaves_the_radio_alone_witness:
  "loop_step deaf_env None deaf = deaf\<lparr>a_world := (10 ^ 8, [])\<rparr>"
  using waiting_leaves_the_radio_alone [of deaf deaf_env 0 "(0, [])"] deaf_state
  by (simp add: deaf_env_def fake_env_def fault_poll_def)

theorem transmit_outcome_witness:
  "last (a_out (handle_command fake_env (Cmd_Transmit demo_transmit) listening)) =
     Transmit_Reply (Inr (air_time_us demo_transmit))"
proof -
  let ?w = "a_world listening"
  have "is_ok (Inr () :: error + unit)" by simp
  then show ?thesis
    using transmit_outcome [of listening fake_env "Inr ()" ?w demo_transmit "Inr ()" ?w]
    by (simp add: fake_env_def)
qed

theorem configure_outcome_witness:
  "\<exists>r. last (a_out (configure deaf_env (Some 433920000) True deaf)) = Configure_Reply r \<and>
     (is_ok r \<or> s_faulted (a_state (configure deaf_env (Some 433920000) True deaf))) \<and>
     s_rx_frequency (a_state (configure deaf_env (Some 433920000) True deaf)) = 433920000"
  using configure_outcome [of deaf_env "Some 433920000" True deaf] by auto

section \<open>The server\<close>

text \<open>A parser that knows three texts: a transmit request, one that does not validate, and a
  status request.\<close>

definition fake_parse :: "string \<Rightarrow> error + request" where
  "fake_parse txt =
     (if txt = ''send'' then Inr \<lparr>req_v = 1, req_id = Some ''a'', req_payload = Transmit demo_transmit\<rparr>
      else if txt = ''loud'' then
        Inr \<lparr>req_v = 1, req_id = Some ''b'', req_payload = Transmit (demo_transmit\<lparr>tx_txvga_db := Some 48\<rparr>)\<rparr>
      else if txt = ''status'' then Inr \<lparr>req_v = 1, req_id = None, req_payload = Status_Request\<rparr>
      else Inl (Message ''expected value'' []))"

lemma loud_refused: "validate (demo_transmit\<lparr>tx_txvga_db := Some 48\<rparr>) = Inl (Gain_Too_High 48)"
  by (simp add: validate_def demo_transmit_def max_timings_def)

theorem bad_requests_never_reach_the_radio_witness:
  "dispatch (arbiter_link fake_env) fake_parse ''loud'' fresh =
     (error_reply (Some ''b'') (Refused (Gain_Too_High 48)), fresh)"
  using bad_requests_never_reach_the_radio [of fake_parse "''loud''"
      "\<lparr>req_v = 1, req_id = Some ''b'', req_payload = Transmit (demo_transmit\<lparr>tx_txvga_db := Some 48\<rparr>)\<rparr>"
      "Refused (Gain_Too_High 48)" "arbiter_link fake_env" fresh]
  by (simp add: fake_parse_def refusal_def loud_refused)

theorem transmitted_means_transmitted_witness:
  "\<exists>m a1. dispatch (arbiter_link fake_env) fake_parse ''send'' fresh = (m, a1) \<and>
     c_transmissions (s_counters (a_state a1)) =
       c_transmissions (s_counters (a_state fresh)) + (case msg_payload m of Transmitted d \<Rightarrow> 1 | _ \<Rightarrow> 0)"
proof -
  obtain m a1 where d: "dispatch (arbiter_link fake_env) fake_parse ''send'' fresh = (m, a1)" by force
  have "reachable fake_env fake_config (0, []) fresh" unfolding fresh_def by (rule reachable.start)
  from transmitted_means_transmitted [OF this d] show ?thesis using d by blast
qed

section \<open>The command line\<close>

theorem parsed_frequency_in_range_witness:
  "\<exists>hz. parse_frequency ''315M'' = Inr hz \<and> 1000000 \<le> hz \<and> hz \<le> 6000000000"
proof -
  have "digits_value ''315'' = 315" by (simp add: digits_value_def code_of_def)
  moreover have "list_all is_digit ''315''" by (simp add: is_digit_def code_of_def)
  moreover have "(''M'', 1000000) \<in> set units" by (simp add: units_def)
  ultimately have "parse_frequency (''315'' @ ''M'') = Inr (digits_value ''315'' * 1000000)"
    by (intro whole_number_frequency) simp_all
  then show ?thesis using parsed_frequency_in_range by force
qed

definition demo_args :: demod_args where
  "demo_args = \<lparr>da_sample_rate = 2000000, da_threshold = Fin (1/2), da_min_us = 1, da_gap_us = 4,
     da_min_edges = 1, da_bucket_us = 0, da_burst = 1, da_stream = False\<rparr>"

lemma flat_threshold: "threshold (levels_of (replicate 100 0) (Fin (1/2))) = 0"
proof -
  have "quantile_rank 100 (to_f64 (999/1000)) \<le> 100"
    by (rule quantile_rank_in_range(2)) simp_all
  then have "hist_percentile (hist_of (replicate 100 0)) (to_f64 (999/1000)) \<le> 0"
    by (intro hist_percentile_le_cap [OF hist_ok_of]) (simp_all add: filter_replicate)
  then have "signal (levels_of (replicate 100 0) (Fin (1/2))) = 0"
    by (simp add: levels_of_hist hist_levels_def Let_def p_signal_def)
  then show ?thesis using levels_threshold_between(2) [of "replicate 100 0" "1/2"] by simp
qed

lemma flat_capture: "offline_demod (demo_quiet 100) demo_args = [[50]]"
proof -
  have "raw_segments 0 mag = rle_from True 0 (replicate (length mag) True)" if "mag \<noteq> []" for mag
  proof -
    have "map ((\<le>) 0) ms = replicate (length ms) True" for ms :: "nat list" by (induction ms) simp_all
    then show ?thesis using that by (cases mag) (simp_all add: raw_segments_def)
  qed
  then have "raw_segments 0 (replicate 100 0) = [(True, 100)]"
    using rle_from_replicate [of True 0 100 "[]"] by simp
  moreover have "run_duration 100 (us_per_sample 2000000) = 50"
    using run_duration_2M [of 100] by (simp add: round_away_def floor_eq_iff)
  ultimately have "runs (replicate 100 0) 0 2000000 1 = [\<lparr>run_on = True, run_us = 50\<rparr>]"
    by (simp add: runs_fold push_run_def)
  moreover have "split_bursts [\<lparr>run_on = True, run_us = 50\<rparr>] 4 1 = [[50]]"
    by (simp add: split_bursts_def acc_push_def acc_new_def run_signed_def max_burst_edges_def acc_finish_def
        strip_spaces_def opt_list_def)
  ultimately show ?thesis
    by (simp add: offline_demod_def demo_args_def envelope_quiet flat_threshold del: replicate.simps)
qed

text \<open>A flat capture reads as one long mark; with a bucket width of zero the report panics, with
  another it reports that mark.\<close>

theorem demod_outcome_witness:
  "demod (demo_quiet 100) demo_args = None \<and>
   (\<exists>rep. demod (demo_quiet 100) (demo_args\<lparr>da_bucket_us := 10\<rparr>) = Some (Inr rep) \<and>
      dr_selected rep = [50] \<and> dr_agreement rep = None)"
proof
  let ?args = "demo_args\<lparr>da_bucket_us := 10\<rparr>"
  have flags: "\<not> da_stream demo_args" "da_burst demo_args = 1" "da_bucket_us demo_args = 0"
    by (simp_all add: demo_args_def)
  have found: "[[50]] = (if da_stream demo_args then map burst_timings (snd (det_push (detector_new (demod_config demo_args)) (demo_quiet 100)))
       else offline_demod (demo_quiet 100) demo_args)"
    using flat_capture flags by simp
  have found10: "[[50]] = (if da_stream ?args then map burst_timings (snd (det_push (detector_new (demod_config ?args)) (demo_quiet 100)))
       else offline_demod (demo_quiet 100) ?args)"
    using flat_capture flags by (simp add: offline_demod_def)
  have few: "length [[50 :: int]] < u64_max" by (simp add: u64_max_def)
  note at0 = demod_outcome [OF found few] and at10 = demod_outcome [OF found10 few]
  from at0 [THEN conjunct1] show "demod (demo_quiet 100) demo_args = None"
    using flags by (simp add: length_quiet)
  have "demod (demo_quiet 100) ?args \<noteq> None" "\<not> (\<exists>e. demod (demo_quiet 100) ?args = Some (Inl e))"
    using at10 [THEN conjunct1] at10 [THEN conjunct2, THEN conjunct1] flags by (simp_all add: length_quiet)
  then obtain rep where rep: "demod (demo_quiet 100) ?args = Some (Inr rep)"
    by (metis not_None_eq sum.exhaust)
  then have "dr_selected rep = [50] \<and> dr_agreement rep = None"
    using at10 [THEN conjunct2, THEN conjunct2] flags by simp
  with rep show "\<exists>rep. demod (demo_quiet 100) ?args = Some (Inr rep) \<and> dr_selected rep = [50] \<and> dr_agreement rep = None"
    by blast
qed

section \<open>The whole daemon\<close>

definition demo_driver :: "unit driver" where
  "demo_driver =
     \<lparr>drv_open = (\<lambda>h. (Inr (), h)), drv_scan = (\<lambda>h. ([], h)), drv_start_rx = (\<lambda>c h. (Inr (), h)),
      drv_start_rx_stream = (\<lambda>n h. (Inr (), h)), drv_read_sync = (\<lambda>n h. (Inr [0, 0], h)),
      drv_drop_rx = id, drv_start_tx = (\<lambda>c h. (Inr (), h)), drv_start_tx_stream = (\<lambda>h. (Inr (), h)),
      drv_write_sync = (\<lambda>b h. (Inr (), h)), drv_drop_tx = id, drv_stop = (\<lambda>h. (Inr (), h)),
      drv_board_id = (\<lambda>h. (Inr ''2'', h)), drv_version = (\<lambda>h. (Inr ''2024.02.1'', h)), drv_device_version = (\<lambda>h. ''1.8''),
      drv_set_freq = (\<lambda>f h. (Inr (), h))\<rparr>"

definition demo_host :: "nat host" where
  "demo_host =
     \<lparr>h_now = (\<lambda>e. (e, e + 1)), h_now_ms = (\<lambda>e. (e, e)), h_sleep = (\<lambda>n e. e + n),
      h_log_open = (\<lambda>e. (Inr (), e)), h_log_append = (\<lambda>f e. (Inr (), e))\<rparr>"

definition demo_serve :: serve_args where
  "demo_serve = \<lparr>sa_rx_freq = 315000000, sa_no_rx = False, sa_rate = 2000000, sa_lna = 40, sa_vga = 40,
     sa_rx_amp = False, sa_txvga = 30, sa_gap_us = 3000, sa_min_edges = 8, sa_record = False\<rparr>"

lemma demo_serve_ok: "\<exists>a. serve demo_driver demo_host demo_serve ((), 0) polls = Inr a"
  by (simp add: serve_def serve_config_def validate_tx_gain_def ensure_def demo_serve_def device_new_def
      validate_rx_gains_def validate_sample_rate_def Let_def)

theorem daemon_is_half_duplex_witness:
  "\<exists>a. serve demo_driver demo_host demo_serve ((), 0) [None, Some (Cmd_Transmit demo_transmit), None] = Inr a \<and>
     duplex (False, False) (d_history (fst (a_world a))) = Some (False, False)"
  using demo_serve_ok daemon_is_half_duplex by meson

definition demo_settings :: device_settings where
  "demo_settings = \<lparr>ds_sample_rate = 2000000, ds_lna_db = 40, ds_vga_db = 40, ds_rx_amp = False\<rparr>"

theorem receiver_flag_is_true_witness:
  "\<exists>d a. device_new demo_settings () = Inr d \<and>
     a = loop_step (device_env demo_driver demo_host) None
           (arbiter_new (device_env demo_driver demo_host) fake_config (d, 0)) \<and>
     s_rx_running (a_state a) = d_rx (fst (a_world a))"
proof -
  obtain d where d: "device_new demo_settings () = Inr d"
    by (simp add: device_new_def demo_settings_def validate_rx_gains_def validate_sample_rate_def ensure_def)
  have "reachable (device_env demo_driver demo_host) fake_config (d, 0)
      (loop_step (device_env demo_driver demo_host) None
        (arbiter_new (device_env demo_driver demo_host) fake_config (d, 0)))"
    by (intro reachable.intros)
  from receiver_flag_is_true [OF d this] show ?thesis using d by blast
qed

theorem transfers_carry_the_frame_witness:
  "\<exists>z. concat (take (length (tx_transfers (pad_to_alignment [1, 2, 3])) - 3) (tx_transfers (pad_to_alignment [1, 2, 3])))
     = [1, 2, 3] @ replicate z 0"
  using transfers_carry_the_frame [of "[1, 2, 3]"] by blast

theorem valid_request_buffer_witness:
  "length (tx_samples fake_config demo_transmit) mod 512 = 0 \<and>
   length (tx_samples fake_config demo_transmit) < 2 * 2 * 30000000 + 512"
proof -
  have le: "int (tx_repeat demo_transmit) * int (tx_gap_us demo_transmit) \<le> i64_max"
    by (simp add: demo_transmit_def i64_max_def)
  have v: "validate demo_transmit = Inr ()"
    unfolding validate_acceptable acceptable_def air_time_cap_le [OF wf_demo_transmit le]
    by (simp add: demo_transmit_def true_air_time_def)
  show ?thesis
    using valid_request_buffer [OF wf_demo_transmit v le, of fake_config 2]
    by (simp add: fake_config_def config_new_def)
qed

theorem air_to_clients_witness:
  "\<exists>fs. frames (a_out (pump fake_env listening)) = frames (a_out listening) @ fs \<and>
     map fr_timings fs = [[3, -2, 3], [3, -2, 3]] \<and> list_all (\<lambda>f. fr_frequency f = 315000000) fs"
proof -
  have d: "deliverable 1 4 1 [3, -2, 3]" by code_simp
  have l: "length (envelope (on_air 3 [3, -2, 3] 1 5 6 2000000 127)) = 60"
    by (simp add: envelope_def length_iq_samples on_air_synthesize length_synthesize
        transmission_timings_def sample_count_2M)
  have "\<exists>fs. frames (a_out (pump fake_env listening)) = frames (a_out listening) @ fs \<and>
     map fr_timings fs = replicate (1 + 1) [3, -2, 3] \<and> (\<forall>f \<in> set fs. fr_frequency f = s_rx_frequency (a_state listening))"
    by (rule air_to_clients [where c = demo_config and thr = 50 and lead = 3 and g = 5 and tail = 6 and amp = 127 and ?w1.0 = "(0, [])"])
      (use d l demo_config_ok in \<open>simp_all add: demo_config_def amp_level_def listening_def fake_env_def\<close>)
  moreover have "s_rx_frequency (a_state listening) = 315000000"
    by (simp add: listening_def fresh_def arbiter_new_def state_new_def fake_env_def fake_config_def config_new_def)
  ultimately show ?thesis by (simp add: numeral_2_eq_2 list_all_iff)
qed

theorem heard_burst_is_transmittable_witness:
  "validate \<lparr>tx_frequency = 315000000, tx_timings = [2], tx_repeat = 0, tx_gap_us = 0, tx_txvga_db = None, tx_amp = False\<rparr> = Inr ()"
  by (rule heard_burst_is_transmittable [of 2000000 1 "envelope demo_pulse" 1 "[2]" 4 1])
    (use demo_bursts pulse_starts_silent in \<open>simp_all add: rate_ok_def duration_us_def\<close>)

end
