(* ===== verification/Service_Examples.thy ===== *)
theory Service_Examples
  imports Commands Daemon_Examples
begin

text \<open>
  Executions of the running daemon, of a connection and of the field tools, on which their
  properties apply.
\<close>

section \<open>The running daemon\<close>

lemma two_steps: "sys_step env a b \<Longrightarrow> sys_step env b d \<Longrightarrow> sys_run env a d"
  by (rule sys_run.next_step, rule sys_run.next_step, rule sys_run.start)

text \<open>Nobody sends; the daemon is shut down.\<close>

definition ended :: "'w env \<Rightarrow> config \<Rightarrow> 'w \<Rightarrow> 'w system" where
  "ended env c w =
     (let y = (system_new env c w)\<lparr>sy_senders := False\<rparr>
      in y\<lparr>sy_arbiter := snd (act (e_stop env) (sy_arbiter y)), sy_running := False\<rparr>)"

lemma ended_run: "sys_run env (system_new env c w) (ended env c w)"
  unfolding ended_def Let_def
  by (rule two_steps [OF sys_step.hang_up sys_step.stop_thread]) (simp_all add: system_new_def)

text \<open>A status request is sent, and the daemon is shut down before it is taken.\<close>

definition leaving :: "fake system" where
  "leaving = (system_new fake_env fake_config (0, []))
     \<lparr>sy_inbox := [Cmd_Status], sy_accepted := [Cmd_Status], sy_senders := False\<rparr>"

lemma leaving_run: "sys_run fake_env (system_new fake_env fake_config (0, [])) leaving"
proof -
  let ?y = "system_new fake_env fake_config (0, [])"
  have "sys_step fake_env ?y (?y\<lparr>sy_inbox := sy_inbox ?y @ [Cmd_Status], sy_accepted := sy_accepted ?y @ [Cmd_Status]\<rparr>)"
    by (intro sys_step.send) (simp_all add: system_new_def command_queue_def)
  from two_steps [OF this sys_step.hang_up] show ?thesis by (simp add: leaving_def system_new_def)
qed

theorem running_daemon_is_half_duplex_witness:
  "\<exists>d y. device_new demo_settings () = Inr d \<and> y = ended (device_env demo_driver demo_host) fake_config (d, 0) \<and>
     \<not> sy_running y \<and> \<not> d_rx (fst (a_world (sy_arbiter y)))"
proof -
  obtain d where d: "device_new demo_settings () = Inr d"
    by (simp add: device_new_def demo_settings_def validate_rx_gains_def validate_sample_rate_def ensure_def)
  have "\<not> sy_running (ended (device_env demo_driver demo_host) fake_config (d, 0))" by (simp add: ended_def Let_def)
  then show ?thesis using running_daemon_is_half_duplex [OF d ended_run, of demo_driver demo_host fake_config 0] d by auto
qed

theorem interleavings_are_thread_runs_witness:
  "sy_arbiter (ended fake_env fake_config (0, [])) = run_thread fake_env fake_config (0, []) []"
proof -
  have "\<not> sy_running (ended fake_env fake_config (0, []))" "sy_polls (ended fake_env fake_config (0, [])) = []"
    by (simp_all add: ended_def Let_def system_new_def)
  then show ?thesis using interleavings_are_thread_runs [OF ended_run, of fake_env fake_config "(0, [])"] by simp
qed

theorem requests_answered_in_order_witness: "length (sy_inbox leaving) \<le> 16"
  using requests_answered_in_order [OF leaving_run] by blast

theorem shutdown_serves_the_queue_witness:
  "\<exists>z. sys_run fake_env leaving z \<and> \<not> sy_running z \<and> taken (sy_polls z) = [Cmd_Status] \<and>
     list_all2 reply_for [Cmd_Status] (replies (a_out (sy_arbiter z)))"
proof -
  have l: "\<not> sy_senders leaving" "sy_accepted leaving = [Cmd_Status]" "asks [Cmd_Status] = [Cmd_Status]"
    by (simp_all add: leaving_def asks_def)
  then show ?thesis using shutdown_serves_the_queue [OF leaving_run l(1)] unfolding l(2) l(3) by blast
qed

section \<open>Settings\<close>

text \<open>A driver whose state is the list of the settings it was asked for; retuning changes the last.\<close>

definition setting_driver :: "radio_config list driver" where
  "setting_driver =
     \<lparr>drv_open = (\<lambda>h. (Inr (), h)), drv_scan = (\<lambda>h. ([], h)), drv_start_rx = (\<lambda>c h. (Inr (), c # h)),
      drv_start_rx_stream = (\<lambda>n h. (Inr (), h)), drv_read_sync = (\<lambda>n h. (Inr [0, 0], h)),
      drv_drop_rx = id, drv_start_tx = (\<lambda>c h. (Inr (), c # h)), drv_start_tx_stream = (\<lambda>h. (Inr (), h)),
      drv_write_sync = (\<lambda>b h. (Inr (), h)), drv_drop_tx = id, drv_stop = (\<lambda>h. (Inr (), h)),
      drv_board_id = (\<lambda>h. (Inr ''2'', h)), drv_version = (\<lambda>h. (Inr ''2024.02.1'', h)), drv_device_version = (\<lambda>h. ''1.8''),
      drv_set_freq = (\<lambda>f h. (Inr (), case h of [] \<Rightarrow> [] | c # cs \<Rightarrow> c\<lparr>rc_frequency_hz := f\<rparr> # c # cs))\<rparr>"

lemma setting_driver_keeps: "driver_keeps setting_driver (list_all supported)"
  by (auto simp: driver_keeps_def setting_driver_def supported_def split: list.split)

theorem settings_are_supported_witness:
  "\<exists>a. serve setting_driver demo_host demo_serve ([], 0) [None, Some (Cmd_Transmit demo_transmit), None] = Inr a \<and>
     list_all supported (d_hw (fst (a_world a)))"
proof -
  note k = setting_driver_keeps
  have s: "\<exists>a. serve setting_driver demo_host demo_serve ([], 0) polls = Inr a" for polls
    by (simp add: serve_def serve_config_def validate_tx_gain_def ensure_def demo_serve_def device_new_def
        validate_rx_gains_def validate_sample_rate_def Let_def)
  have v: "list_all (\<lambda>p. case p of None \<Rightarrow> True | Some cmd \<Rightarrow> vetted cmd) [None, Some (Cmd_Transmit demo_transmit), None]"
    by (simp add: vetted_def freq_ok_def demo_transmit_def)
  obtain a where a: "serve setting_driver demo_host demo_serve ([], 0) [None, Some (Cmd_Transmit demo_transmit), None] = Inr a"
    using s by blast
  have f: "freq_ok (sa_rx_freq demo_serve)" by (simp add: demo_serve_def freq_ok_def)
  from settings_are_supported [OF k _ a f v] show ?thesis using a by simp
qed

text \<open>The daemon started with no flags, sent one request.\<close>

definition demo_surroundings :: "(radio_config list, nat, byte list) surroundings" where
  "demo_surroundings = \<lparr>su_driver = setting_driver, su_host = demo_host, su_create = (\<lambda>p. \<lparr>fl_create = (\<lambda>f. (Inr (), [])), fl_write_all = (\<lambda>b f. (Inr (), f @ b)),
       fl_flush = (\<lambda>f. (Inr (), f)), fl_drop = id\<rparr>),
     su_read = (\<lambda>p. Inr), su_parse = (\<lambda>b. Inr (JArray [])), su_print = (\<lambda>j. []), su_polls = [None, Some (Cmd_Transmit demo_transmit), None]\<rparr>"

theorem commands_ask_for_supported_settings_witness:
  "\<exists>r h1 e1. hrf_main demo_surroundings (Serve bare_serve) ([], 0, []) = Some (r, h1, e1, []) \<and> list_all supported h1"
proof -
  have k: "driver_keeps (su_driver demo_surroundings) (list_all supported)"
    using setting_driver_keeps by (simp add: demo_surroundings_def)
  have v: "list_all (\<lambda>p. case p of None \<Rightarrow> True | Some cmd \<Rightarrow> vetted cmd) (su_polls demo_surroundings)"
    by (simp add: demo_surroundings_def vetted_def freq_ok_def demo_transmit_def)
  obtain r h1 e1 where m: "hrf_main demo_surroundings (Serve bare_serve) ([], 0, []) = Some (r, h1, e1, [])"
  proof (cases "serve_args_of bare_serve")
    case (Inr args)
    then show ?thesis using that
      by (cases "serve (su_driver demo_surroundings) (su_host demo_surroundings) args ([], 0) (su_polls demo_surroundings)") auto
  qed (use that in auto)
  from commands_ask_for_supported_settings [OF k _ m v] show ?thesis using m by auto
qed

text \<open>The arbiter, and one that answers everything outside the tuning range with an error.\<close>

definition strict_link :: "fake arbiter link" where
  "strict_link = (arbiter_link fake_env)
     \<lparr>ask_transmit := (\<lambda>t a. if vetted (Cmd_Transmit t) then ask_transmit (arbiter_link fake_env) t a else (Inl Thread_Gone, a))\<rparr>"

theorem only_vetted_commands_witness:
  "dispatch (arbiter_link fake_env) fake_parse ''send'' fresh = dispatch strict_link fake_parse ''send'' fresh"
  by (rule only_vetted_commands) (auto simp: agree_on_vetted_def strict_link_def)

section \<open>A connection\<close>

text \<open>One request, answered and written, then the socket closes.\<close>

abbreviation demo_step :: "fake arbiter conn \<Rightarrow> fake arbiter conn \<Rightarrow> bool" where
  "demo_step \<equiv> conn_step (arbiter_link fake_env) fake_parse (\<lambda>b. '''') (\<lambda>m. Inr ''{}'')"

definition answered :: "fake arbiter conn" where
  "answered = (let (r, s) = dispatch (arbiter_link fake_env) fake_parse ''send'' fresh
     in (conn_new fresh)\<lparr>cn_world := s, cn_answers := [r], cn_written := [r], cn_sent := [''{}'']\<rparr>)"

lemma answered_run: "conn_run (arbiter_link fake_env) fake_parse (\<lambda>b. '''') (\<lambda>m. Inr ''{}'') (conn_new fresh) answered"
proof -
  let ?run = "conn_run (arbiter_link fake_env) fake_parse (\<lambda>b. '''') (\<lambda>m. Inr ''{}'') (conn_new fresh)"
  obtain r s where d: "dispatch (arbiter_link fake_env) fake_parse ''send'' fresh = (r, s)" by force
  define c1 where "c1 = (conn_new fresh)\<lparr>cn_reader := Replying r, cn_world := s, cn_answers := [r]\<rparr>"
  define c2 where "c2 = c1\<lparr>cn_reader := Reading, cn_queue := [r]\<rparr>"
  have "demo_step (conn_new fresh) c1"
    using reader_step.answer [of "conn_new fresh" "\<lambda>b. ''''" "Text ''send''" "''send''" "arbiter_link fake_env" fake_parse r s] d
    by (intro conn_step.reader) (simp add: c1_def conn_new_def request_text_def)
  then have "?run c1" by (intro conn_run.next_step [OF conn_run.start])
  moreover have "demo_step c1 c2"
    using reader_step.queue_reply [of c1 r] by (intro conn_step.reader) (simp add: c2_def c1_def conn_new_def client_queue_def)
  ultimately have "?run c2" by (rule conn_run.next_step)
  moreover have "demo_step c2 answered"
    using writer_step.wrote [of c2 r "[]" "\<lambda>m. Inr ''{}''" "''{}''"]
    by (intro conn_step.writer) (simp add: answered_def d c2_def c1_def conn_new_def)
  ultimately show ?thesis by (rule conn_run.next_step)
qed

theorem socket_carries_replies_and_events_witness:
  "cn_sent answered = [''{}''] \<and> cn_sent answered = texts_of (\<lambda>m. Inr ''{}'') (cn_written answered)"
  using socket_carries_replies_and_events [OF answered_run] by (simp add: answered_def split_beta)

definition awaiting :: "fake arbiter conn" where
  "awaiting = answered\<lparr>cn_reader := Awaiting_Writer (Inr ())\<rparr>"

lemma awaiting_run: "conn_run (arbiter_link fake_env) fake_parse (\<lambda>b. '''') (\<lambda>m. Inr ''{}'') (conn_new fresh) awaiting"
proof -
  let ?run = "conn_run (arbiter_link fake_env) fake_parse (\<lambda>b. '''') (\<lambda>m. Inr ''{}'') (conn_new fresh)"
  have "cn_reader answered = Reading" by (simp add: answered_def split_beta conn_new_def)
  then have "demo_step answered (answered\<lparr>cn_reader := Leaving (Inr ())\<rparr>)"
    by (intro conn_step.reader reader_step.close)
  with answered_run have "?run (answered\<lparr>cn_reader := Leaving (Inr ())\<rparr>)" by (rule conn_run.next_step)
  moreover have "demo_step (answered\<lparr>cn_reader := Leaving (Inr ())\<rparr>) awaiting"
    using reader_step.leave [of "answered\<lparr>cn_reader := Leaving (Inr ())\<rparr>" "Inr ()"]
    by (intro conn_step.reader) (simp add: awaiting_def)
  ultimately show ?thesis by (rule conn_run.next_step)
qed

theorem closing_connection_ends_witness:
  "closing_work awaiting \<le> 261 \<and>
   (\<exists>d. conn_run (arbiter_link fake_env) fake_parse (\<lambda>b. '''') (\<lambda>m. Inr ''{}'') awaiting d \<and>
     cn_reader d = Returned (Inr ()) \<and> \<not> cn_writing d)"
proof -
  have "cn_reader awaiting = Awaiting_Writer (Inr ())" by (simp add: awaiting_def)
  from closing_connection_ends [OF awaiting_run this] show ?thesis by blast
qed

theorem full_queue_blocks_witness:
  "\<not> reader_step (arbiter_link fake_env) fake_parse (\<lambda>b. '''')
     ((conn_new fresh)\<lparr>cn_reader := Replying (reply None (Transmitted 5)), cn_forwarder := Forwarding (event (Device_State Idle)),
        cn_queue := replicate 256 (event (Device_State Idle))\<rparr>) answered"
  by (rule full_queue_blocks [THEN conjunct1]) (simp_all add: conn_new_def)

section \<open>The tools\<close>

text \<open>A file is its contents.\<close>

definition demo_file :: "byte list file_host" where
  "demo_file = \<lparr>fl_create = (\<lambda>f. (Inr (), [])), fl_write_all = (\<lambda>b f. (Inr (), f @ b)),
     fl_flush = (\<lambda>f. (Inr (), f)), fl_drop = id\<rparr>"

lemma demo_delivers: "delivers demo_driver"
  by (auto simp: delivers_def demo_driver_def)

text \<open>Two samples: a rate of \<open>2 ^ 21\<close> for \<open>2 ^ -20\<close> seconds.\<close>

definition demo_capture :: capture_params where
  "demo_capture = \<lparr>cp_frequency_hz = 315000000, cp_sample_rate = 2097152, cp_lna_db = 16, cp_vga_db = 20,
     cp_amp_enable = False, cp_seconds = Fin (1 / 2 ^ 20)\<rparr>"

lemma two_samples: "byte_budget (Fin (1 / 2 ^ 20)) 2097152 = 4"
proof -
  have "f_mul (Fin (1 / 2 ^ 20)) (f64_of_nat 2097152) = Fin 2"
    using f64_of_nat_small [of 2097152] to_f64_of_int [of 2] by simp
  then show ?thesis using f_as_u64_of_int [of 2] by (simp add: byte_budget_def u64_max_def)
qed

text \<open>Reading two bytes a time, the loop needs as many rounds as there are samples.\<close>

lemma demo_chunk:
  "capture_chunk demo_driver demo_file n k m w = (Inr (meter_chunk k [0, 0] m), fst w, snd w @ [0, 0])"
  by (simp add: capture_chunk_def and_then_def pure_io_def on_device_def on_host_def demo_driver_def demo_file_def)

lemma demo_loop:
  assumes "t = m_written m + 2 * j"
  shows "\<exists>m1 w1. capture_loop demo_driver demo_file t k m w = Some (Inr m1, w1)"
  using assms
proof (induction j arbitrary: m w)
  case 0
  then show ?case by (subst capture_loop.simps) (simp del: split_paired_Ex)
next
  case (Suc j)
  have "t = m_written (meter_chunk k [0, 0] m) + 2 * j" using Suc.prems by (simp add: meter_chunk_def Let_def)
  from Suc.IH [OF this, of "(fst w, snd w @ [0, 0])"] show ?case using Suc.prems
    by (subst capture_loop.simps) (simp add: demo_chunk del: split_paired_Ex)
qed

lemma demo_file_simps:
  "fl_create demo_file f = (Inr (), [])" "fl_flush demo_file f = (Inr (), f)"
  by (simp_all add: demo_file_def)

theorem capture_fills_the_file_witness:
  "\<exists>m w1. capture demo_driver demo_file demo_capture ((), []) = Some (Inr m, w1) \<and> m_written m = 4"
proof -
  have op: "capture_open demo_driver demo_capture () = (Inr (), ())"
    by (simp add: capture_open_def demo_capture_def validate_rx_gains_def validate_sample_rate_def ensure_def
        open_radio_def demo_driver_def and_then_def pure_io_def add_context.simps)
  have b: "byte_budget (cp_seconds demo_capture) (cp_sample_rate demo_capture) = 4"
    using two_samples by (simp add: demo_capture_def)
  obtain m w where l: "capture_loop demo_driver demo_file 4 (cp_sample_rate demo_capture * 2) meter_new ((), []) = Some (Inr m, w)"
    using demo_loop [of 4 meter_new 2 "cp_sample_rate demo_capture * 2" "((), [])"] by (auto simp: meter_new_def)
  have "\<exists>m w1. capture demo_driver demo_file demo_capture ((), []) = Some (Inr m, w1)"
    using op l by (simp add: capture_def capture_stream_def b on_device_def on_host_def demo_file_simps close_file_def)
  then show ?thesis using capture_fills_the_file [OF demo_delivers, of demo_file demo_capture "((), [])"] b by force
qed

lemma demo_dwell: "t = c + 2 * j \<Longrightarrow> \<exists>hist. dwell_loop demo_driver t c h0 () = Some (Inr hist, ())"
proof (induction j arbitrary: c h0)
  case 0
  then show ?case by (subst dwell_loop.simps) simp
next
  case (Suc j)
  have "drv_read_sync demo_driver n () = (Inr [0, 0], ())" for n by (simp add: demo_driver_def)
  then show ?case using Suc.IH [of "c + 2" "add_iq h0 [0, 0]"] Suc.prems
    by (subst dwell_loop.simps) simp
qed

definition demo_scan :: scan_params where
  "demo_scan = \<lparr>sp_frequencies = [315000000, 390000000], sp_sample_rate = 2097152, sp_lna_db = 16, sp_vga_db = 20,
     sp_amp_enable = False, sp_dwell_seconds = Fin (1 / 2 ^ 20), sp_passes = 1\<rparr>"

lemma demo_band: "\<exists>hist. scan_band demo_driver 4 f () = Some (Inr hist, ())"
proof -
  have "and_then (drv_set_freq demo_driver f) (\<lambda>_. drv_read_sync demo_driver transfer_size) () = (Inr [0, 0], ())"
    by (simp add: and_then_def demo_driver_def)
  then show ?thesis using demo_dwell [of 4 0 2 hist_new] by (simp add: scan_band_def)
qed

lemma demo_pass: "\<exists>rb. scan_pass demo_driver 4 fs row bands () = Some (Inr rb, ())"
proof (induction fs arbitrary: row bands)
  case (Cons f fs)
  obtain hist where "scan_band demo_driver 4 f () = Some (Inr hist, ())" using demo_band by blast
  then show ?case using Cons.IH by (simp add: Let_def)
qed simp

theorem scan_measures_every_band_witness:
  "\<exists>sr. scan demo_driver demo_scan () = Some (Inr sr, ()) \<and> length (sr_rows sr) = 1"
proof -
  have op: "scan_open demo_driver demo_scan () = (Inr (), ())"
    by (simp add: scan_open_def demo_scan_def validate_rx_gains_def validate_sample_rate_def ensure_def
        open_radio_def demo_driver_def and_then_def pure_io_def)
  have b: "byte_budget (sp_dwell_seconds demo_scan) (sp_sample_rate demo_scan) = 4"
    using two_samples by (simp add: demo_scan_def)
  have n: "sp_passes demo_scan = 1" by (simp add: demo_scan_def)
  obtain row bands where "scan_pass demo_driver 4 (sp_frequencies demo_scan) [] 0 () = Some (Inr (row, bands), ())"
    using demo_pass by force
  then have "\<exists>sr. scan demo_driver demo_scan () = Some (Inr sr, ())"
    using op by (simp add: scan_def b n)
  then show ?thesis using scan_measures_every_band [OF demo_delivers, of demo_scan "()"] n by force
qed

theorem refusal_contradicts_itself_witness:
  "refusal_text (Air_Time_Too_Long 30000001) = ''30.0 s of air time exceeds the 30.0 s limit''"
  by (rule refusal_contradicts_itself) simp_all

end
