(* ===== verification/Client_Examples.thy ===== *)
theory Client_Examples
  imports Client_Link Service_Examples "HOL-Library.Countable"
begin

text \<open>
  Executions of the daemon with several clients and of the Python client, on which their
  properties apply.
\<close>

section \<open>Several clients\<close>

text \<open>One client has sent a request that is refused, another waits to ask for the status.\<close>

definition two_clients :: "fake net" where
  "two_clients =
     (let y = net_new fake_env fake_config (0, []);
          y1 = set_client 0 (client_new\<lparr>cl_texts := [''loud''], cl_replies := [error_reply (Some ''b'') (Refused (Gain_Too_High 48))]\<rparr>) y
      in set_client 2 (client_new\<lparr>cl_task := Sending (Ask_Status None), cl_texts := [''status'']\<rparr>) y1)"

lemma loud_begins: "begin_dispatch fake_parse ''loud'' = Inl (error_reply (Some ''b'') (Refused (Gain_Too_High 48)))"
  by (simp add: begin_dispatch_def fake_parse_def protocol_version_def loud_refused)

lemma status_begins: "begin_dispatch fake_parse ''status'' = Inr (Ask_Status None)"
  by (simp add: begin_dispatch_def fake_parse_def protocol_version_def)

lemma two_clients_run: "net_run fake_env fake_parse (net_new fake_env fake_config (0, [])) two_clients"
proof -
  let ?y = "net_new fake_env fake_config (0, [])"
  let ?c = "client_new\<lparr>cl_texts := [''loud''], cl_replies := [error_reply (Some ''b'') (Refused (Gain_Too_High 48))]\<rparr>"
  have y: "nt_senders ?y" "nt_clients ?y i = client_new" "cl_task client_new = Ready"
    "cl_texts client_new = []" "cl_replies client_new = []" for i
    by (simp_all add: net_new_def client_new_def)
  have "net_step fake_env fake_parse ?y (set_client 0 ?c ?y)"
    using net_step.refuse [OF y(1) y(2) [of 0, symmetric] y(3) loud_begins, of fake_env] y(4,5) by simp
  moreover have "net_step fake_env fake_parse (set_client 0 ?c ?y) two_clients"
    using net_step.request [of "set_client 0 ?c ?y" client_new 2 fake_parse "''status''", OF _ _ y(3) status_begins, of fake_env] y
    by (simp add: two_clients_def Let_def)
  ultimately show ?thesis using net_run.next_step [OF net_run.next_step [OF net_run.start]] by blast
qed

lemma two_clients_are:
  "nt_senders two_clients" "cl_task (nt_clients two_clients 2) = Sending (Ask_Status None)"
  "cl_replies (nt_clients two_clients 0) = [error_reply (Some ''b'') (Refused (Gain_Too_High 48))]"
  "cl_replies (nt_clients two_clients 2) = []"
  by (simp_all add: two_clients_def Let_def net_new_def client_new_def)

theorem clients_are_served_one_by_one_witness: "list_all not_dropped (cl_replies (nt_clients two_clients 0))"
  using clients_are_served_one_by_one [OF two_clients_run, of 0] by blast

theorem every_request_can_be_answered_witness:
  "\<exists>z m. net_run fake_env fake_parse two_clients z \<and> cl_replies (nt_clients z 2) = [m]"
proof -
  have "cl_task (nt_clients two_clients 2) \<noteq> Ready" using two_clients_are(2) by simp
  from every_request_can_be_answered [OF two_clients_run two_clients_are(1) this]
  obtain z m where z: "net_run fake_env fake_parse two_clients z"
    "nt_clients z 2 = (nt_clients two_clients 2)\<lparr>cl_task := Ready, cl_replies := cl_replies (nt_clients two_clients 2) @ [m]\<rparr>"
    by blast
  have "cl_replies (nt_clients z 2) = [m]" using two_clients_are(4) by (simp add: z(2))
  then show ?thesis using z(1) by blast
qed

theorem clients_refine_the_channel_witness:
  "sys_run fake_env (system_new fake_env fake_config (0, [])) (system_of two_clients)"
  by (rule clients_refine_the_channel [OF two_clients_run])

section \<open>Requests as JSON\<close>

definition spare_request :: json where
  "spare_request = JObject [(''type'', JString ''configure_rx''), (''enabled'', JBool True), (''comment'', JString ''none'')]"

theorem requests_are_read_by_field_witness:
  "\<exists>r. read_request spare_request = Some r \<and> wf_request r \<and>
     read_request (JObject [(''enabled'', JBool True), (''type'', JString ''configure_rx'')]) = Some r"
proof -
  obtain r where r: "read_request spare_request = Some r"
    by (simp add: spare_request_def required_def defaulted_def json_field_def read_payload_def read_configure_rx_def)
  have "same_fields [(''type'', JString ''configure_rx''), (''enabled'', JBool True), (''comment'', JString ''none'')]
      [(''enabled'', JBool True), (''type'', JString ''configure_rx'')]"
    by (simp add: same_fields_def request_keys_def)
  then show ?thesis using requests_are_read_by_field [of spare_request r] r by (auto simp: spare_request_def)
qed

section \<open>The Python client\<close>

text \<open>A client that has connected to an idle daemon.\<close>

definition greeting :: dict where
  "greeting = [(''v'', JInt 1), (''id'', JString ''hello''), (''type'', JString ''status''), (''state'', JString ''idle'')]"

definition greeted_client :: run_state where
  "greeted_client =
     \<lparr>rn_proxy = handshake_done 5 greeting (proxy_new\<lparr>px_socket := True\<rparr>), rn_phase = Reading_Messages, rn_backoff = 1\<rparr>"

lemma greeted_client_run: "client_run greeted_client"
proof -
  have "client_step run_new (run_new\<lparr>rn_proxy := (rn_proxy run_new)\<lparr>px_socket := True\<rparr>, rn_phase := Handshaking, rn_backoff := initial_backoff\<rparr>)"
    by (rule client_step.connected) (simp add: run_new_def)
  note shaking = client_run.next_step [OF client_run.start this]
  let ?r = "run_new\<lparr>rn_proxy := (rn_proxy run_new)\<lparr>px_socket := True\<rparr>, rn_phase := Handshaking, rn_backoff := initial_backoff\<rparr>"
  have "first_status [[(''type'', JString ''device_state'')], greeting] = Some greeting"
    by (simp add: first_status_def is_hello_reply_def greeting_def)
  then have "client_step ?r (?r\<lparr>rn_proxy := handshake_done 5 greeting (rn_proxy ?r), rn_phase := Reading_Messages\<rparr>)"
    by (rule client_step.greeted [rotated]) simp
  from client_run.next_step [OF shaking this] show ?thesis
    by (simp add: greeted_client_def run_new_def initial_backoff_def)
qed

lemma greeted_client_is:
  "px_socket (rn_proxy greeted_client)" "px_connected (rn_proxy greeted_client)" "px_next_id (rn_proxy greeted_client) = 0"
  by (simp_all add: greeted_client_def greeting_def handshake_done_def proxy_new_def set_available_def notify_def)

definition demo_payload :: dict where
  "demo_payload = [(''type'', JString ''transmit''), (''frequency'', JInt 315000000), (''timings'', JArray [JInt 500, JInt (-500)]), (''repeat'', JInt 4)]"

lemma demo_payload: "transmit_payload 315000000 [500, -500] 4 None None = Some demo_payload"
  by (simp add: transmit_payload_def demo_payload_def)

lemma demo_request: "\<exists>m p. request_begin payload (rn_proxy greeted_client) = (Inr (''1'', m), p)"
proof -
  have "dec 1 = ''1''" by code_simp
  then show ?thesis using greeted_client_is by (simp add: request_begin_def Let_def)
qed

theorem replies_reach_their_own_request_witness:
  "\<exists>m p. request_begin demo_payload (rn_proxy greeted_client) = (Inr (''1'', m), p) \<and>
     px_futures (rn_proxy greeted_client) ''1'' = None \<and> px_futures p ''1'' = Some Waiting"
proof -
  obtain m p where r: "request_begin demo_payload (rn_proxy greeted_client) = (Inr (''1'', m), p)" using demo_request by blast
  show ?thesis using replies_reach_their_own_request [OF greeted_client_run, of demo_payload] r by auto
qed

theorem nobody_waits_without_a_connection_witness: "px_pending (rn_proxy run_new) = {} \<and> \<not> px_available (rn_proxy run_new)"
proof -
  have "rn_phase run_new \<noteq> Reading_Messages" by (simp add: run_new_def)
  then show ?thesis using nobody_waits_without_a_connection [OF client_run.start] by blast
qed

text \<open>A daemon whose radio is gone.\<close>

definition gone_status :: status where
  "gone_status = \<lparr>st_daemon_version = daemon_version, st_protocol_version = 1, st_state = Faulted, st_device = None,
     st_rx = \<lparr>rs_enabled = True, rs_frequency = 315000000, rs_sample_rate = 2000000, rs_threshold = None\<rparr>,
     st_counters = counters_default\<rparr>"

theorem availability_follows_events_witness:
  "\<exists>p. p = handshake_done 5 (message_fields (\<lambda>e. '''') (reply (Some ''hello'') (Status gone_status))) proxy_new \<and>
     px_available p \<and> px_state p = Some (JString ''faulted'')"
  using availability_follows_events [of "[]", OF _ refl, of "\<lambda>e. ''''" 5 5 gone_status proxy_new]
  by (simp add: states_are_events_def states_told_def client_hears_def gone_status_def List.map_filter_def)

text \<open>JSON text for the examples: a value is its number, in unary.\<close>

instance f64 :: countable by countable_datatype
instance json :: countable by countable_datatype

definition demo_print :: "json \<Rightarrow> string" where "demo_print j = replicate (to_nat j) CHR ''1''"
definition demo_read :: "string \<Rightarrow> error + json" where "demo_read txt = Inr (from_nat (length txt))"

lemma demo_read_print: "demo_read (demo_print j) = Inr j"
  by (simp add: demo_read_def demo_print_def)

lemma demo_args: "args_in_range 315000000 [500, -500] 4 None" "\<not> args_in_range 315000000 [500, -500] (-1) None"
  by (simp_all add: args_in_range_def in_i64_def i64_min_def i64_max_def)

theorem caller_learns_what_happened_witness:
  "\<exists>m p msg a1 d. request_begin demo_payload (rn_proxy greeted_client) = (Inr (''1'', m), p) \<and>
     dispatch (arbiter_link fake_env) (wire_parse demo_read) (demo_print (JObject m)) fresh = (msg, a1) \<and>
     px_futures (client_dispatch 6 (message_fields (\<lambda>e. '''') msg) p) ''1'' = Some (Result d)"
proof -
  obtain m p where r: "request_begin demo_payload (rn_proxy greeted_client) = (Inr (''1'', m), p)" using demo_request by blast
  obtain msg a1 where d: "dispatch (arbiter_link fake_env) (wire_parse demo_read) (demo_print (JObject m)) fresh = (msg, a1)"
    by (rule prod.exhaust)
  from caller_learns_what_happened [where read = demo_read and print = demo_print, OF demo_read_print demo_args(1) demo_payload r d,
      of 6 "\<lambda>e. ''''"]
  show ?thesis using r d by blast
qed

theorem unreadable_requests_go_unanswered_witness:
  "\<exists>payload m p msg a1. transmit_payload 315000000 [500, -500] (-1) None None = Some payload \<and>
     request_begin payload (rn_proxy greeted_client) = (Inr (''1'', m), p) \<and>
     dispatch (arbiter_link fake_env) (wire_parse demo_read) (demo_print (JObject m)) fresh = (msg, a1) \<and>
     client_dispatch 6 (message_fields (\<lambda>e. '''') msg) p = p"
proof -
  obtain payload where t: "transmit_payload 315000000 [500, -500] (-1) None None = Some payload"
    by (simp add: transmit_payload_def)
  obtain m p where r: "request_begin payload (rn_proxy greeted_client) = (Inr (''1'', m), p)" using demo_request by blast
  obtain msg a1 where d: "dispatch (arbiter_link fake_env) (wire_parse demo_read) (demo_print (JObject m)) fresh = (msg, a1)"
    by (rule prod.exhaust)
  from unreadable_requests_go_unanswered [where read = demo_read and print = demo_print, OF demo_read_print demo_args(2) t r d,
      of 6 "\<lambda>e. ''''"]
  show ?thesis using t r d by blast
qed

end
