(* ===== verification/Serve_Examples.thy ===== *)
theory Serve_Examples
  imports Serve_Process Client_Examples
begin

text \<open>A daemon nobody connects to, ended by SIGTERM, and the books of the daemon with two clients.\<close>

definition all_well :: startup where
  "all_well = \<lparr>up_thread = Inr (), up_runtime = Inr (), up_bind = Inr (), up_watch = Inr (), up_address = Inr (), up_interrupt = Inr (),
     up_terminate = Inr ()\<rparr>"

definition lonely :: "'w env \<Rightarrow> config \<Rightarrow> 'w \<Rightarrow> 'w net" where
  "lonely env c w =
     (let y = (net_new env c w)\<lparr>nt_senders := False\<rparr>
      in y\<lparr>nt_arbiter := snd (act (e_stop env) (nt_arbiter y)), nt_running := False\<rparr>)"

definition process_at :: "phase \<Rightarrow> 'w net \<Rightarrow> signal list \<Rightarrow> nat accept_event list \<Rightarrow> 'w process" where
  "process_at ph y received events = \<lparr>pr_phase = ph, pr_net = Some y, pr_received = received, pr_events = events\<rparr>"

lemma process_at_simps [simp]:
  "pr_phase (process_at ph y r e) = ph" "pr_net (process_at ph y r e) = Some y"
  "pr_received (process_at ph y r e) = r" "pr_events (process_at ph y r e) = e"
  "pr_phase_update f (process_at ph y r e) = process_at (f ph) y r e"
  "pr_received_update g (process_at ph y r e) = process_at ph y (g r) e"
  "pr_events_update h (process_at ph y r e) = process_at ph y r (h e)"
  "process_at ph y r e\<lparr>pr_net := Some z\<rparr> = process_at ph z r e"
  by (simp_all add: process_at_def)

lemma process_run_step:
  "process_run listen u env parse c w p q \<Longrightarrow> process_step listen u env parse c w q r1 \<Longrightarrow> r = r1 \<Longrightarrow>
   process_run listen u env parse c w p r"
  by (auto intro: process_run.next_step)

text \<open>Up to the loop, then a signal, and the end.\<close>

lemma terminated_serving:
  "process_run listen all_well env parse c w process_new (process_at Serving (net_new env c w) [Sigterm] [])"
proof -
  let ?run = "process_run listen all_well env parse c w process_new"
  have "?run (process_at Runtime_Next (net_new env c w) [] [])"
    by (rule process_run_step [OF process_run.start process_step.spawned]) (simp_all add: process_new_def all_well_def process_at_def)
  then have "?run (process_at Bind_Next (net_new env c w) [] [])"
    by (rule process_run_step [OF _ process_step.built]) (simp_all add: all_well_def)
  then have "?run (process_at Address_Next (net_new env c w) [] [])"
    by (rule process_run_step [OF _ process_step.bound]) (simp_all add: all_well_def)
  then have "?run (process_at Serving (net_new env c w) [] [])"
    by (rule process_run_step [OF _ process_step.addressed]) (simp_all add: all_well_def)
  then show ?thesis by (rule process_run_step [OF _ process_step.signalled [where sig = Sigterm]]) simp_all
qed

lemma terminated_run:
  "process_run listen all_well env parse c w process_new (process_at (Over (Inr ())) (lonely env c w) [Sigterm] [Shut_Down])"
proof -
  let ?run = "process_run listen all_well env parse c w process_new"
  let ?y = "(net_new env c w)\<lparr>nt_senders := False\<rparr>"
  have "?run (process_at (Dropping (Inr ())) (net_new env c w) [Sigterm] [Shut_Down])"
    by (rule process_run_step [OF terminated_serving process_step.shut_down])
      (simp_all add: shutdown_signal_def all_well_def)
  then have "?run (process_at (Joining (Inr ())) ?y [Sigterm] [Shut_Down])"
    by (rule process_run_step [OF _ process_step.runtime_dropped]) simp_all
  moreover have "process_step listen all_well env parse c w (process_at (Joining (Inr ())) ?y [Sigterm] [Shut_Down])
      ((process_at (Joining (Inr ())) ?y [Sigterm] [Shut_Down])\<lparr>pr_net := Some (lonely env c w)\<rparr>)"
  proof (rule process_step.working)
    show "net_step env parse ?y (lonely env c w)"
      unfolding lonely_def Let_def by (rule net_step.stop_thread) (simp_all add: net_new_def)
  qed (simp_all add: lonely_def Let_def phase_allows_def)
  ultimately have "?run (process_at (Joining (Inr ())) (lonely env c w) [Sigterm] [Shut_Down])"
    by (rule process_run_step) simp
  then show ?thesis
    by (rule process_run_step [OF _ process_step.joined [where r = "Inr ()" and y = "lonely env c w"]]) (simp_all add: lonely_def Let_def)
qed

theorem serve_leaves_the_radio_down_witness:
  "\<exists>d p y. device_new demo_settings () = Inr d \<and>
     process_run ''0.0.0.0:8765'' all_well (device_env demo_driver demo_host) fake_parse fake_config (d, 0) process_new p \<and>
     pr_phase p = Over (Inr ()) \<and> pr_net p = Some y \<and> \<not> d_rx (fst (a_world (nt_arbiter y))) \<and>
     Sigterm \<in> set (pr_received p)"
proof -
  obtain d where d: "device_new demo_settings () = Inr d"
    by (simp add: device_new_def demo_settings_def validate_rx_gains_def validate_sample_rate_def ensure_def)
  let ?env = "device_env demo_driver demo_host"
  have up: "is_ok (up_runtime all_well)" by (simp add: all_well_def)
  note run = terminated_run [of "''0.0.0.0:8765''" ?env fake_parse fake_config "(d, 0)"]
  show ?thesis
    using serve_leaves_the_radio_down [OF d run process_at_simps(1,2) up] run d process_at_simps(1-3) by fastforce
qed

section \<open>A transmission nobody hears of\<close>








end
