(* ===== verification/Awareness.thy ===== *)
theory Awareness
  imports Client_Link
begin

text \<open>
  What a client knows of the radio, from the announcement by the radio thread through the
  events channel, the forwarder and the socket to the client's own state: as long as it keeps
  reading it learns the current device state, and the one announcement a slow client may miss
  is that reception resumed.
\<close>

section \<open>A client that has caught up\<close>

definition is_frame :: "message \<Rightarrow> bool" where
  "is_frame m = (case msg_payload m of Rx_Frame f \<Rightarrow> True | _ \<Rightarrow> False)"

lemma shuffles_told: "zs \<in> shuffles xs ys \<Longrightarrow> states_told xs = [] \<Longrightarrow> states_told zs = states_told ys"
proof (induction xs ys arbitrary: zs rule: shuffles.induct)
  case (3 x xs y ys)
  then show ?case by (auto split: message_payload.splits)
qed auto

lemma shuffles_set: "zs \<in> shuffles xs ys \<Longrightarrow> set zs = set xs \<union> set ys"
  by (rule set_shuffles)

text \<open>What the log says under its grammar.\<close>

lemma tells_no_ids: "tells d ms \<Longrightarrow> list_all (\<lambda>m. msg_id m = None) ms"
  by (induction d ms rule: tells.induct) (auto split: message_payload.splits)

lemma tells_quiet:
  "tells d ms \<Longrightarrow> states_told ms = [] \<Longrightarrow> list_all is_frame ms \<and> (ms \<noteq> [] \<longrightarrow> d = Some Receiving)"
  by (induction d ms rule: tells.induct) (auto simp: is_frame_def split: message_payload.splits)

lemma caught_up_written:
  assumes "caught_up f" "feed_run env parse lossy encode recv (feed_new a) f"
    and "list_all states_nothing (cn_answers (fd_conn f))"
  shows "states_told (cn_written (fd_conn f)) = states_told (cn_events (fd_conn f)) \<and>
     set (cn_written (fd_conn f)) \<subseteq> set (cn_answers (fd_conn f)) \<union> set (cn_events (fd_conn f))"
proof -
  obtain rs es where ok: "conn_ok encode (fd_conn f) rs es" using conn_run_ok [OF feed_run_conn [OF assms(2)]] by blast
  have p: "prefix rs (cn_answers (fd_conn f))"
    using ok by (cases "cn_reader (fd_conn f)") (auto simp: conn_ok_def dest: snoc_prefix)
  have sh: "cn_written (fd_conn f) \<in> shuffles rs es" "es = cn_events (fd_conn f)"
    using ok assms(1) by (auto simp: conn_ok_def caught_up_def)
  have "list_all states_nothing rs" using p assms(3) by (auto simp: prefix_def)
  then show ?thesis using shuffles_told [OF sh(1)] shuffles_set [OF sh(1)] sh(2) p
    by (auto simp: states_nothing_told dest: set_mono_prefix)
qed

text \<open>Either the newest events hold the last announcement, or they are frames, and then the last
  announcement was \<open>receiving\<close>.\<close>

lemma newest_tell:
  assumes h: "hears_log start evs (length evs) n got" and ok: "tells None evs" and told: "states_told got \<noteq> []"
  shows "last (states_told got) = last (states_told evs) \<or>
     last (states_told evs) = Receiving \<and> event_queue < length evs \<and> list_all is_frame (drop (length evs - event_queue) evs)"
    and "states_told evs \<noteq> []"
proof -
  define m where "m = max start (length evs - event_queue)"
  obtain pre where got: "got = pre @ drop m evs" using hears_log_newest [OF h] by (auto simp: suffix_def m_def)
  have evs: "evs = take m evs @ drop m evs" by simp
  have tail: "tells (if states_told (take m evs) = [] then None else Some (last (states_told (take m evs)))) (drop m evs)"
    using ok tells_append [of None "take m evs" "drop m evs"] by simp
  have split: "states_told evs = states_told (take m evs) @ states_told (drop m evs)"
    using states_told_simps(2) [of "take m evs" "drop m evs"] by simp
  show "last (states_told got) = last (states_told evs) \<or>
     last (states_told evs) = Receiving \<and> event_queue < length evs \<and> list_all is_frame (drop (length evs - event_queue) evs)"
  proof (cases "states_told (drop m evs) = []")
    case False
    then show ?thesis using split by (simp add: got)
  next
    case True
    obtain heard lost where hl: "got = map ((!) evs) heard" "sorted_wrt (<) heard" "set heard \<union> lost = {start..<length evs}"
      "\<forall>k \<in> lost. k + event_queue < length evs"
      using h by (auto simp: hears_log_def)
    have far: "start + event_queue < length evs"
    proof (rule ccontr)
      assume near: "\<not> start + event_queue < length evs"
      have "lost = {}"
      proof (rule ccontr)
        assume "lost \<noteq> {}"
        then obtain k where k: "k \<in> lost" by blast
        then have "k \<in> {start..<length evs}" using hl(3) by blast
        then show False using hl(4) k near by fastforce
      qed
      then have "set heard = {start..<length evs}" using hl(3) by simp
      then have "heard = [start..<length evs]"
        using hl(2) by (metis sorted_wrt_upt strict_sorted_equal set_upt)
      moreover have "m = start" using near by (simp add: m_def)
      ultimately have "got = drop m evs" using hl(1) by (simp add: map_nth_drop)
      then show False using True told by simp
    qed
    then have m: "m = length evs - event_queue" "drop m evs \<noteq> []" by (auto simp: m_def event_queue_def)
    then show ?thesis using tells_quiet [OF tail True] split True far by (auto split: if_splits)
  qed
  show "states_told evs \<noteq> []"
  proof
    assume "states_told evs = []"
    then have "list_all is_frame evs" "evs = []" using tells_quiet [OF ok] by auto
    then show False using h told by (auto simp: hears_log_def)
  qed
qed

lemma tells_event_ids:
  assumes "tells None evs" "hears_log start evs i n got"
  shows "list_all (\<lambda>m. msg_id m = None) got"
proof -
  obtain heard lost where h: "got = map ((!) evs) heard" "set heard \<union> lost = {start..<i}" "i \<le> length evs"
    using assms(2) by (auto simp: hears_log_def)
  have "k < length evs" if "k \<in> set heard" for k
  proof -
    have "k \<in> {start..<i}" using h(2) that by blast
    then show ?thesis using h(3) by simp
  qed
  then show ?thesis using tells_no_ids [OF assms(1)] h(1) by (auto simp: list_all_length list_all_iff)
qed

text \<open>C6: A client that keeps reading knows the radio. Take any execution of the radio thread, the
  events channel and a connection, and a client that has heard what the connection wrote since
  its handshake, among it some device state. Once the connection has caught up, the client
  shows the state the radio thread announced last, and is available exactly if that is not
  \<open>faulted\<close>, however slow it has been before; with one exception: it may have missed that
  reception resumed, if 1024 frames and nothing else have followed. The announcement is the
  device's state but for the \<open>transmitting\<close> that may stay announced.\<close>

theorem client_that_keeps_up_knows_the_radio:
  assumes radio: "reachable env c w a" and channel: "keeps_newest recv"
    and run: "feed_run env parse lossy (wire_encode print render) recv (feed_new a) f" and up: "caught_up f"
    and heard: "cn_written (fd_conn f) = pre @ post" "states_told post \<noteq> []"
    and p1: "p1 = client_hears render now post p"
  shows "\<exists>d. s_published (a_state (cn_world (fd_conn f))) = Some d \<and>
     (d = device_state_of (a_state (cn_world (fd_conn f))) \<or>
       d = Transmitting \<and> s_faulted (a_state (cn_world (fd_conn f))) \<and> s_rx_enabled (a_state (cn_world (fd_conn f)))) \<and>
     (px_state p1 = Some (JString (device_state_name d)) \<and> px_available p1 = (d \<noteq> Faulted) \<or>
       d = Receiving \<and> 1024 < length (feed_log f) \<and> list_all is_frame (drop (length (feed_log f) - 1024) (feed_log f)))"
proof -
  have a: "honest a" "log_ok a" using reachable_honest [OF radio] reachable_log_ok [OF radio] .
  have ok: "feed_ok a f" using feed_run_ok [OF run feed_ok_new [OF a(1)] channel] .
  then have h: "hears_log (length (events_of (a_out a))) (feed_log f) (length (feed_log f)) (fd_warned f) (cn_events (fd_conn f))"
    and quiet: "list_all states_nothing (cn_answers (fd_conn f))" and honest: "honest (cn_world (fd_conn f))"
    and grammar: "tells None (feed_log f)"
    using up a(2) by (auto simp: feed_ok_def caught_up_def follows_def feeds_def log_ok_def feed_log_def)
  note written = caught_up_written [OF up run quiet]
  have told: "states_told (cn_events (fd_conn f)) = states_told pre @ states_told post"
    using written heard(1) by simp
  have ids: "states_are_events post"
    using written quiet tells_event_ids [OF grammar h] heard(1)
    by (force simp: states_are_events_def list_all_iff states_nothing_def split: message_payload.splits)
  have "last (states_told (cn_events (fd_conn f))) = last (states_told post)" using told heard(2) by simp
  note news = newest_tell [OF h grammar, unfolded this]
  have "s_published (a_state (cn_world (fd_conn f))) = Some (last (states_told (feed_log f)))"
    using honest news(2) told heard(2)
    by (auto simp: honest_def books_def last_announced_told feed_log_def)
  then show ?thesis
    using news(1) told heard(2) honest client_hears_states [OF ids, of render now p]
    unfolding p1 px_available_def event_queue_def
    by (auto simp: honest_def told_def)
qed

end
