(* ===== verification/Handshake.thy ===== *)
theory Handshake
  imports Awareness
begin

text \<open>
  A race at the handshake. The client takes the radio's state from the answer to its first
  request and drops the events that come before it; but answer and events reach the socket
  through different tasks of the daemon, and an event may overtake an older answer.
\<close>

definition hello_request :: request where
  "hello_request = \<lparr>req_v = 1, req_id = Some ''hello'', req_payload = Status_Request\<rparr>"

text \<open>A pass that answers a status request while the receiver is about to fail: the status is
  taken before the failure, the fault announced after it.\<close>

lemma status_then_fault:
  assumes a: "honest a" "s_rx_running (a_state a)" "s_rx_enabled (a_state a)"
    and rd: "e_read env (a_world a) = (Inl e, w1)"
  shows "ask_pass env Cmd_Status a = (Status_Reply (status_of a), loop_step env (Some Cmd_Status) a) \<and>
     st_state (status_of a) = Receiving \<and>
     events_of (a_out (loop_step env (Some Cmd_Status) a)) = events_of (a_out a) @ [event (Device_State Faulted)] \<and>
     s_published (a_state (loop_step env (Some Cmd_Status) a)) = Some Faulted"
proof -
  have nf: "\<not> s_faulted (a_state a)" "s_published (a_state a) \<noteq> Some Faulted"
    using a(1,2) running_announced [OF honest_imp_mid [OF a(1)] a(2)]
    by (auto simp: honest_def flags_ok_def books_def)
  define b where "b = emit (Status_Reply (status_of a)) a"
  define b1 where "b1 = b\<lparr>a_world := w1\<rparr>"
  have st: "a_state b1 = a_state a" "a_out b1 = a_out a @ [Status_Reply (status_of a)]" by (simp_all add: b1_def b_def)
  have "act (e_read env) b = (Inl e, b1)" using rd by (simp add: act_def b_def b1_def)
  then have "loop_step env (Some Cmd_Status) a = fault env b1"
    using nf a(2,3) by (simp add: loop_step_def loop_body_def handle_command_def b_def receiving_def pump_def receive_def)
  moreover have "a_out (fault env b1) = a_out b1 @ [Event (event (Device_State Faulted))]"
    "s_published (a_state (fault env b1)) = Some Faulted"
    using nf(2) by (simp_all add: fault_def publish_def Let_def device_state_of_def back_off_out announce_def st)
  moreover have "st_state (status_of a) = Receiving"
    using nf(1) a(2) by (simp add: status_of_def Let_def device_state_of_def)
  ultimately show ?thesis by (simp add: ask_pass_def Let_def st replies_def)
qed

lemma next_event:
  assumes "keeps_newest recv" "never_stalls recv"
  shows "recv (evs @ [m]) (length evs) (Received m) (length evs + 1)"
proof -
  have "length evs < length (evs @ [m])" by simp
  then obtain r j where r: "recv (evs @ [m]) (length evs) r j" "length evs < j"
    using assms(2) unfolding never_stalls_def by metis
  note law = assms(1) [unfolded keeps_newest_def, THEN spec, THEN spec, THEN spec, THEN spec, THEN mp, OF r(1)]
  show ?thesis
  proof (cases r)
    case (Received x)
    then show ?thesis using law r(1) by simp
  qed (use law r(2) in \<open>simp_all add: event_queue_def\<close>)
qed

text \<open>C23: A fault can be lost at the handshake. Whenever the receiver is running and its next read
  fails, some execution of a new connection ends, everything sent and read, with the radio
  faulted and the fault announced to the client, and the client, which drops events that come
  before the answer to its first request, showing the radio as receiving, and available.\<close>

theorem fault_lost_at_the_handshake:
  assumes radio: "reachable env c w a" "s_rx_running (a_state a)" "s_rx_enabled (a_state a)"
    and rd: "e_read env (a_world a) = (Inl e, w1)"
    and hello: "parse t0 = Inr hello_request"
    and channel: "keeps_newest recv" "never_stalls recv"
  shows "\<exists>f. feed_run env parse lossy (wire_encode print render) recv (feed_new a) f \<and> caught_up f \<and>
     cn_reader (fd_conn f) = Reading \<and>
     s_published (a_state (cn_world (fd_conn f))) = Some Faulted \<and>
     event (Device_State Faulted) \<in> set (cn_written (fd_conn f)) \<and>
     (\<exists>status. first_status (map (message_fields render) (cn_written (fd_conn f))) = Some status \<and>
        px_state (handshake_done now status p) = Some (JString ''receiving'') \<and> px_available (handshake_done now status p))"
proof -
  let ?run = "feed_run env parse lossy (wire_encode print render) recv (feed_new a)"
  let ?step = "feed_step env parse lossy (wire_encode print render) recv"
  define b where "b = loop_step env (Some Cmd_Status) a"
  define r where "r = reply (Some ''hello'') (Status (status_of a))"
  define m where "m = event (Device_State Faulted)"
  define n where "n = length (events_of (a_out a))"
  note pass = status_then_fault [OF reachable_honest [OF radio(1)] radio(2,3) rd, folded b_def m_def]
  have d: "dispatch (arbiter_link env) parse t0 a = (r, b)"
    using pass by (simp add: dispatch_def hello hello_request_def protocol_version_def status_reply_def arbiter_link_def r_def)
  define c1 where "c1 = (conn_new a)\<lparr>cn_reader := Replying r, cn_world := b, cn_answers := [r]\<rparr>"
  define c2 where "c2 = c1\<lparr>cn_forwarder := Forwarding m, cn_events := [m]\<rparr>"
  define c3 where "c3 = c2\<lparr>cn_forwarder := Subscribed, cn_queue := [m]\<rparr>"
  define c4 where "c4 = c3\<lparr>cn_queue := [], cn_written := [m], cn_sent := [print (message_json render m)]\<rparr>"
  define c5 where "c5 = c4\<lparr>cn_reader := Reading, cn_queue := [r]\<rparr>"
  define c6 where "c6 = c5\<lparr>cn_queue := [], cn_written := [m, r],
      cn_sent := [print (message_json render m), print (message_json render r)]\<rparr>"
  define spot where "spot = (\<lambda>c i. \<lparr>fd_conn = c, fd_next = i, fd_warned = 0\<rparr> :: 'a feed)"
  note defs = c1_def c2_def c3_def c4_def c5_def c6_def conn_new_def spot_def
  have log: "feed_log (spot c1 n) = events_of (a_out a) @ [m]" using pass by (simp add: feed_log_def defs)
  have "reader_step (arbiter_link env) parse lossy (conn_new a) c1"
    using reader_step.answer [where c = "conn_new a" and m = "Text t0" and t = t0 and lk = "arbiter_link env"
        and parse = parse and lossy = lossy and r = r and s = b] d
    by (simp add: defs request_text_def)
  then have 1: "?step (spot (conn_new a) n) (spot c1 n)"
    using feed_step.reader [where f = "spot (conn_new a) n" and c = c1] by (simp add: spot_def)
  have 2: "?step (spot c1 n) (spot c2 (n + 1))"
    using feed_step.received [where f = "spot c1 n" and recv = recv and m = m and j = "n + 1"]
      next_event [OF channel, of "events_of (a_out a)" m] log
    by (simp add: defs n_def)
  have 3: "?step (spot c2 (n + 1)) (spot c3 (n + 1))"
    using feed_step.queue_event [where f = "spot c2 (n + 1)" and m = m] by (simp add: defs client_queue_def)
  have 4: "?step (spot c3 (n + 1)) (spot c4 (n + 1))"
    using feed_step.writer [where f = "spot c3 (n + 1)", OF writer_step.wrote [where m = m and q = "[]"]]
    by (simp add: defs wire_encode_def)
  have 5: "?step (spot c4 (n + 1)) (spot c5 (n + 1))"
    using feed_step.reader [where f = "spot c4 (n + 1)", OF reader_step.queue_reply [where r = r]]
    by (simp add: defs client_queue_def)
  have 6: "?step (spot c5 (n + 1)) (spot c6 (n + 1))"
    using feed_step.writer [where f = "spot c5 (n + 1)", OF writer_step.wrote [where m = r and q = "[]"]]
    by (simp add: defs wire_encode_def)
  have start: "feed_new a = spot (conn_new a) n" by (simp add: feed_new_def spot_def n_def)
  have "?run (spot c6 (n + 1))" unfolding start
    by (rule feed_run.next_step [OF _ 6], rule feed_run.next_step [OF _ 5], rule feed_run.next_step [OF _ 4],
        rule feed_run.next_step [OF _ 3], rule feed_run.next_step [OF _ 2], rule feed_run.next_step [OF _ 1], rule feed_run.start)
  moreover have "caught_up (spot c6 (n + 1))" using pass by (simp add: caught_up_def feed_log_def defs n_def)
  moreover have "is_hello_reply (message_fields render r)" "\<not> is_hello_reply (message_fields render m)"
    by (simp_all add: is_hello_reply_def r_def m_def reply_def event_def)
  then have "first_status (map (message_fields render) [m, r]) = Some (message_fields render r)"
    by (simp add: first_status_def)
  ultimately show ?thesis using pass
    by (intro exI [of _ "spot c6 (n + 1)"] conjI exI [of _ "message_fields render r"])
      (simp_all add: defs m_def [symmetric] px_available_def r_def status_state)
qed

end
