(* ===== verification/Feed_Examples.thy ===== *)
theory Feed_Examples
  imports Handshake Service_Examples
begin

text \<open>
  A connection that hears of a fault: the radio cannot receive, the fault is announced, passes
  through a channel that keeps exactly the newest 1024 events, and reaches the socket and the
  client. And the same connection, not yet read from, while the fault is still in the channel.
\<close>

definition ring_channel :: channel where
  "ring_channel evs i r j \<longleftrightarrow>
     (if i + event_queue < length evs then j = length evs - event_queue \<and> r = Lagged (j - i)
      else i < length evs \<and> j = i + 1 \<and> r = Received (evs ! i))"

lemma ring_keeps_newest: "keeps_newest ring_channel"
  by (auto simp: keeps_newest_def ring_channel_def)

lemma ring_never_stalls: "never_stalls ring_channel"
proof -
  have "\<exists>r j. ring_channel evs i r j \<and> i < j" if "i < length evs" for evs i
    using that by (cases "i + event_queue < length evs") (auto simp: ring_channel_def)
  then show ?thesis by (simp add: never_stalls_def)
qed

abbreviation "plain_encode \<equiv> wire_encode (\<lambda>j. '''') (\<lambda>e. '''')"
abbreviation "deaf_run \<equiv> feed_run deaf_env fake_parse (\<lambda>b. '''') plain_encode ring_channel"
abbreviation "deaf_step \<equiv> feed_step deaf_env fake_parse (\<lambda>b. '''') plain_encode ring_channel"

definition unheard :: "fake arbiter" where "unheard = arbiter_new deaf_env fake_config (0, [])"
definition fault_event :: message where "fault_event = event (Device_State Faulted)"

lemma unheard_out: "a_out unheard = []" "reachable deaf_env fake_config (0, []) unheard" "honest unheard"
  by (simp_all add: unheard_def arbiter_new_honest reachable.start) (simp add: arbiter_new_def split_beta)

lemma deaf_out: "a_out deaf = [Event fault_event]"
  unfolding deaf_def fault_event_def
  by (simp add: loop_step_def loop_body_def receiving_def pump_def fault_def enter_fault_def back_off_out Let_def
      arbiter_new_def state_new_def deaf_env_def fake_env_def fake_config_def config_new_def act_def publish_def
      announce_def device_state_of_def back_off_def)

lemma deaf_published: "s_published (a_state deaf) = Some Faulted"
proof -
  have "honest deaf" unfolding deaf_def using unheard_out(3) by (simp add: unheard_def loop_step_honest)
  then show ?thesis by (simp add: honest_def books_def deaf_out fault_event_def last_announced_def announcements_def List.map_filter_def)
qed

definition announced_feed :: "fake feed" where
  "announced_feed = (feed_new unheard)\<lparr>fd_conn := (conn_new unheard)\<lparr>cn_world := deaf\<rparr>\<rparr>"

definition heard_feed :: "fake feed" where
  "heard_feed = announced_feed\<lparr>fd_conn := (conn_new unheard)\<lparr>cn_world := deaf, cn_events := [fault_event],
     cn_written := [fault_event], cn_sent := ['''']\<rparr>, fd_next := 1\<rparr>"

lemma feed_simps:
  "feed_log announced_feed = [fault_event]" "feed_log heard_feed = [fault_event]" "fd_next announced_feed = 0"
  "events_of (a_out unheard) = []"
  by (simp_all add: feed_log_def announced_feed_def heard_feed_def feed_new_def deaf_out unheard_out)

lemma announced_run: "deaf_run (feed_new unheard) announced_feed"
proof -
  have "deaf_step (feed_new unheard) announced_feed"
    using feed_step.others [of deaf_env fake_parse "\<lambda>b. ''''" plain_encode ring_channel "feed_new unheard" None]
    by (simp add: announced_feed_def feed_new_def deaf_def unheard_def conn_new_def)
  then show ?thesis by (rule feed_run.next_step [OF feed_run.start])
qed

lemma heard_run: "deaf_run (feed_new unheard) heard_feed"
proof -
  define f2 where "f2 = announced_feed\<lparr>fd_conn := (fd_conn announced_feed)\<lparr>cn_forwarder := Forwarding fault_event,
      cn_events := [fault_event]\<rparr>, fd_next := 1\<rparr>"
  define f3 where "f3 = f2\<lparr>fd_conn := (fd_conn f2)\<lparr>cn_forwarder := Subscribed, cn_queue := [fault_event]\<rparr>\<rparr>"
  have "ring_channel (feed_log announced_feed) (fd_next announced_feed) (Received fault_event) 1"
    by (simp add: feed_simps ring_channel_def event_queue_def)
  then have "deaf_step announced_feed f2"
    using feed_step.received [of announced_feed ring_channel fault_event 1 deaf_env fake_parse "\<lambda>b. ''''" plain_encode]
    by (simp add: f2_def announced_feed_def feed_new_def conn_new_def)
  then have "deaf_run (feed_new unheard) f2" by (rule feed_run.next_step [OF announced_run])
  moreover have "deaf_step f2 f3"
    using feed_step.queue_event [of f2 fault_event deaf_env fake_parse "\<lambda>b. ''''" plain_encode ring_channel]
    by (simp add: f3_def f2_def announced_feed_def feed_new_def conn_new_def client_queue_def)
  ultimately have "deaf_run (feed_new unheard) f3" by (rule feed_run.next_step)
  moreover have "deaf_step f3 heard_feed"
    using feed_step.writer [where f = f3 and env = deaf_env and parse = fake_parse and lossy = "\<lambda>b. ''''" and recv = ring_channel,
        OF writer_step.wrote [where m = fault_event and q = "[]" and json = "''''" and encode = plain_encode]]
    by (simp add: f3_def f2_def heard_feed_def announced_feed_def feed_new_def conn_new_def wire_encode_def)
  ultimately show ?thesis by (rule feed_run.next_step)
qed

lemma heard_caught_up: "caught_up heard_feed"
  by (simp add: caught_up_def feed_simps) (simp add: heard_feed_def announced_feed_def feed_new_def conn_new_def)

theorem slow_client_keeps_the_newest_witness:
  "suffix [fault_event] (cn_events (fd_conn heard_feed)) \<and> fd_warned heard_feed = 0"
proof -
  have next_is: "fd_next heard_feed = length (feed_log heard_feed)"
    using heard_caught_up by (simp add: caught_up_def)
  show ?thesis
    using slow_client_keeps_the_newest [OF heard_run ring_keeps_newest unheard_out(3)] next_is
    by (auto simp: feed_simps)
qed

theorem slow_client_can_catch_up_witness:
  "\<exists>g. deaf_run announced_feed g \<and> caught_up g \<and> cn_world (fd_conn g) = cn_world (fd_conn announced_feed)"
  by (rule slow_client_can_catch_up [OF announced_run unheard_out(3) ring_keeps_newest ring_never_stalls])
    (simp_all add: announced_feed_def conn_new_def)

theorem client_that_keeps_up_knows_the_radio_witness:
  "px_state (client_hears (\<lambda>e. '''') 0 [fault_event] proxy_new) = Some (JString ''faulted'') \<and>
   \<not> px_available (client_hears (\<lambda>e. '''') 0 [fault_event] proxy_new)"
proof -
  have w: "cn_written (fd_conn heard_feed) = [] @ [fault_event]" "states_told [fault_event] \<noteq> []"
    by (simp_all add: heard_feed_def fault_event_def event_def)
  have published: "s_published (a_state (cn_world (fd_conn heard_feed))) = Some Faulted"
    by (simp add: heard_feed_def deaf_published)
  show ?thesis
    using client_that_keeps_up_knows_the_radio [where render = "\<lambda>e. ''''" and now = 0 and p = proxy_new,
        OF unheard_out(2) ring_keeps_newest heard_run heard_caught_up w refl] published
    by (auto simp: feed_simps)
qed

section \<open>A fault during the handshake\<close>

text \<open>A radio that delivers the transfers it has and then fails.\<close>

definition leaving_env :: "fake env" where
  "leaving_env = fake_env\<lparr>e_read := (\<lambda>w. case snd w of [] \<Rightarrow> (Inl (Message ''unplugged'' []), w) | b # bs \<Rightarrow> (Inr b, (fst w, bs)))\<rparr>"

definition last_read :: "fake arbiter" where
  "last_read = loop_step leaving_env None (arbiter_new leaving_env fake_config (0, [[]]))"

lemma last_read_simps:
  "s_rx_running (a_state last_read)" "s_rx_enabled (a_state last_read)" "a_world last_read = (0, [])"
  by (simp_all add: last_read_def loop_step_def loop_body_def receiving_def pump_def receive_def det_push_def
      arbiter_new_def state_new_def leaving_env_def fake_env_def fake_config_def config_new_def act_def)

theorem fault_lost_at_the_handshake_witness:
  "\<exists>f. feed_run leaving_env (\<lambda>t. Inr hello_request) (\<lambda>b. '''') plain_encode ring_channel (feed_new last_read) f \<and>
     s_published (a_state (cn_world (fd_conn f))) = Some Faulted \<and>
     (\<exists>status. first_status (map (message_fields (\<lambda>e. '''')) (cn_written (fd_conn f))) = Some status \<and>
        px_available (handshake_done 0 status proxy_new))"
proof -
  have "reachable leaving_env fake_config (0, [[]]) last_read" unfolding last_read_def by (intro reachable.intros)
  moreover have "e_read leaving_env (a_world last_read) = (Inl (Message ''unplugged'' []), (0, []))"
    by (simp add: last_read_simps leaving_env_def)
  ultimately show ?thesis
    using fault_lost_at_the_handshake [OF _ last_read_simps(1,2) _ _ ring_keeps_newest ring_never_stalls,
        of leaving_env fake_config "(0, [[]])" _ _ "\<lambda>t. Inr hello_request" "''''" "\<lambda>b. ''''" "\<lambda>j. ''''" "\<lambda>e. ''''" 0 proxy_new]
    by blast
qed

end
