(* ===== verification/Tool_Chain.thy ===== *)
theory Tool_Chain
  imports Commands Daemon
begin

text \<open>
  The field tools used one after the other: what \<open>hrf demod --out\<close> writes is what \<open>hrf transmit\<close>
  reads and sends.
\<close>

section \<open>Files\<close>

text \<open>A file written, flushed and closed without an error holds what was written; JSON text reads
  back as what was printed, for arrays of \<open>i64\<close>.\<close>

definition files_keep :: "('h, 'e, 'f) surroundings \<Rightarrow> bool" where
  "files_keep su \<longleftrightarrow> (\<forall>path text f f1. write_json (su_create su path) text f = (Inr (), f1) \<longrightarrow> su_read su path f1 = Inr text)"

definition json_reads_back :: "('h, 'e, 'f) surroundings \<Rightarrow> bool" where
  "json_reads_back su \<longleftrightarrow>
     (\<forall>ts. list_all in_i64 ts \<longrightarrow> su_parse su (su_print su (timings_json ts)) = Inr (timings_json ts))"

lemma timings_read_back: "list_all in_i64 ts \<Longrightarrow> read_array read_i64 (timings_json ts) = Some ts"
proof -
  have "list_all in_i64 ts \<Longrightarrow> read_all read_i64 (map JInt ts) = Some ts" by (induction ts) simp_all
  then show "list_all in_i64 ts \<Longrightarrow> read_array read_i64 (timings_json ts) = Some ts" by (simp add: timings_json_def)
qed

lemma and_then_done: "and_then m k w = (Inr b, w2) \<Longrightarrow> \<exists>a w1. m w = (Inr a, w1) \<and> k a w1 = (Inr b, w2)"
  by (auto simp: and_then_def split: prod.splits sum.splits)

text \<open>\<open>--out\<close> is written last, so nothing that \<open>demod\<close> writes comes after it.\<close>

lemma written_timings:
  assumes "files_keep su" "write_bursts (su_create su) (su_print su) fl r f = (Inr (), f1)" "df_out fl = Some path"
  shows "su_read su path f1 = Inr (su_print su (timings_json (dr_selected r)))"
  using and_then_done [OF assms(2) [unfolded write_bursts_def]] assms(1,3) by (auto simp: files_keep_def)

lemma demod_ran:
  assumes "hrf_main su (Demod fl) (h, e, f) = Some (Inr (Did_Demod r), h1, e1, f1)"
  shows "h1 = h \<and> e1 = e \<and> write_bursts (su_create su) (su_print su) fl r f = (Inr (), f1) \<and>
     (\<exists>raw. su_read su (df_in fl) f = Inr raw \<and> demod raw (demod_args_of fl) = Some (Inr r))"
proof -
  obtain raw where raw: "add_context ''open'' (su_read su (df_in fl) f) = Inr raw" using assms by (auto split: sum.splits)
  then have read: "su_read su (df_in fl) f = Inr raw" by (cases "su_read su (df_in fl) f") (simp_all add:)
  obtain r1 where d: "demod raw (demod_args_of fl) = Some (Inr r1)"
    using assms raw by (auto split: option.splits sum.splits)
  obtain x f2 where x: "write_bursts (su_create su) (su_print su) fl r1 f = (x, f2)" by force
  then have "x = Inr ()" "r1 = r" "h1 = h" "e1 = e" "f2 = f1" using assms raw d by (cases x; simp)+
  then show ?thesis using read d x by simp
qed

lemma short_burst_fits: "duration_us ts \<le> i64_max \<Longrightarrow> list_all in_i64 ts"
  using abs_le_sum [of _ ts] by (fastforce simp: list_all_iff duration_us_def in_i64_def i64_min_def i64_max_def abs_le_iff)

text \<open>C31: What one tool records, another sends. If \<open>hrf demod --out\<close> succeeds, the capture's
  selected burst is in the file, the radio has not been touched, and \<open>hrf transmit\<close> of that
  file does to the radio exactly what transmitting that burst is, with the given repetitions,
  rendered and padded; provided the files keep what was written and JSON reads back.\<close>

theorem recorded_burst_is_sent:
  assumes files: "files_keep su" "json_reads_back su"
    and demod: "hrf_main su (Demod fl) (h, e, f) = Some (Inr (Did_Demod r), h1, e1, f1)" "df_out fl = Some path"
    and fits: "duration_us (dr_selected r) \<le> i64_max"
    and tf: "transmit_args tf = Inr (p, n, gap)" "tf_file tf = path"
  shows "h1 = h \<and> (\<exists>raw. su_read su (df_in fl) f = Inr raw \<and> select_burst (dr_bursts r) (da_burst (demod_args_of fl)) = Some (dr_selected r)) \<and>
     hrf_main su (Transmit tf) (h1, e1, f1) =
       (case (if dr_selected r = [] then (Inl (Message ''no timings'' []), h)
              else transmit_once (su_driver su) p
                (pad_to_alignment (render_transmission (dr_selected r) n gap (tp_sample_rate p) 100)) h) of
          (sent, h2) \<Rightarrow> Some (map_sum id (\<lambda>_. Did_Transmit) sent, h2, e, f1))"
proof -
  note ran = demod_ran [OF demod(1)]
  obtain raw where raw: "su_read su (df_in fl) f = Inr raw" "demod raw (demod_args_of fl) = Some (Inr r)" using ran by blast
  have "select_burst (dr_bursts r) (da_burst (demod_args_of fl)) = Some (dr_selected r)"
    using raw(2) by (auto simp: demod_def report_bursts_def Let_def split: if_splits option.splits)
  moreover have "su_read su path f1 = Inr (su_print su (timings_json (dr_selected r)))"
    using written_timings [OF files(1) _ demod(2)] ran by blast
  then have "read_timings (su_read su) (su_parse su) path f1 = Inr (dr_selected r)"
    using files(2) short_burst_fits [OF fits] by (simp add: read_timings_def json_reads_back_def timings_read_back)
  ultimately show ?thesis using ran raw(1) tf
    by (simp add: cli_transmit_def and_then_def pure_io_def ensure_def)
qed

end
