(* ===== verification/Tool_Examples.thy ===== *)
theory Tool_Examples
  imports Tool_Chain Client_Examples Service_Examples
begin

text \<open>
  A flat capture is demodulated into a file and the file transmitted, over a file system that
  is one output file beside the capture, and the settings driver.
\<close>

type_synonym shelf = "string \<Rightarrow> byte list"

definition shelf_file :: "string \<Rightarrow> shelf file_host" where
  "shelf_file path = \<lparr>fl_create = (\<lambda>f. (Inr (), f(path := []))), fl_write_all = (\<lambda>b f. (Inr (), f(path := f path @ b))),
     fl_flush = (\<lambda>f. (Inr (), f)), fl_drop = id\<rparr>"

definition bench :: "(radio_config list, nat, shelf) surroundings" where
  "bench = \<lparr>su_driver = setting_driver, su_host = demo_host, su_create = shelf_file, su_read = (\<lambda>path f. Inr (f path)),
     su_parse = (\<lambda>b. Inr (from_nat (length b))), su_print = (\<lambda>j. replicate (to_nat j) 0), su_polls = []\<rparr>"

definition demo_flags :: demod_flags where
  "demo_flags = \<lparr>df_in = ''in.iq'', df_rate = None, df_threshold = Some (Fin (1/2)), df_min_us = Some 1, df_gap_us = Some 4,
     df_min_edges = Some 1, df_bucket_us = None, df_burst = None, df_stream = False, df_out = Some ''out.json'', df_out_all = None\<rparr>"

definition demo_report :: demod_report where
  "demo_report = \<lparr>dr_bursts = [[50]], dr_agreement = None, dr_selected = [50],
     dr_histogram = foldl (width_step 50) Map.empty [50]\<rparr>"

lemma demo_demod: "demod (demo_quiet 100) (demod_args_of demo_flags) = Some (Inr demo_report)"
proof -
  have args: "demod_args_of demo_flags = demo_args\<lparr>da_bucket_us := 50\<rparr>"
    by (simp add: demod_args_of_def demo_flags_def demo_args_def or_default_def)
  have "offline_demod (demo_quiet 100) (demo_args\<lparr>da_bucket_us := 50\<rparr>) = [[50]]"
    using flat_capture by (simp add: offline_demod_def)
  moreover have "length (demo_quiet 100) = 200" by (simp add: length_quiet)
  ultimately show ?thesis unfolding args
    by (simp add: demod_def demo_args_def report_bursts_def select_burst_def width_histogram_def demo_report_def)
qed

lemma bench_files: "files_keep bench" "json_reads_back bench"
  by (auto simp: files_keep_def json_reads_back_def bench_def write_json_def shelf_file_def and_then_def)

definition demo_tx :: tx_params where
  "demo_tx = \<lparr>tp_frequency_hz = 315000000, tp_sample_rate = 2000000, tp_txvga_db = 40, tp_amp_enable = False\<rparr>"

theorem recorded_burst_is_sent_witness:
  "\<exists>f1. hrf_main bench (Demod demo_flags) ([], 0, \<lambda>p. demo_quiet 100) = Some (Inr (Did_Demod demo_report), [], 0, f1) \<and>
     hrf_main bench (Transmit (bare_transmit ''out.json'')) ([], 0, f1) =
       (case transmit_once setting_driver demo_tx (pad_to_alignment (render_transmission [50] 4 0 2000000 100)) [] of
          (sent, h2) \<Rightarrow> Some (map_sum id (\<lambda>_. Did_Transmit) sent, h2, 0, f1))"
proof -
  have fl: "df_out demo_flags = Some ''out.json''" "df_out_all demo_flags = None" by (simp_all add: demo_flags_def)
  define f1 :: shelf where "f1 = (\<lambda>p. demo_quiet 100)(''out.json'' := su_print bench (timings_json [50]))"
  have d: "hrf_main bench (Demod demo_flags) ([], 0, \<lambda>p. demo_quiet 100) = Some (Inr (Did_Demod demo_report), [], 0, f1)"
    by (simp add: bench_def demo_demod write_bursts_def fl write_json_def shelf_file_def and_then_def pure_io_def f1_def
        demo_report_def)
  have t: "transmit_args (bare_transmit ''out.json'') = Inr (demo_tx, 4, 0)" "tf_file (bare_transmit ''out.json'') = ''out.json''"
    by (simp_all add: transmit_args_def bare_transmit_def freq_default or_default_def demo_tx_def)
  have "duration_us (dr_selected demo_report) \<le> i64_max" by (simp add: demo_report_def duration_us_def i64_max_def)
  from recorded_burst_is_sent [OF bench_files d fl(1) this t] show ?thesis
    using d by (auto simp: demo_report_def demo_tx_def bench_def)
qed

end
