(* ===== verification/Recovery.thy ===== *)
theory Recovery
  imports Arbiter_Properties Radio_Device
begin

text \<open>
  A radio that fails and a radio that comes back, over time: how often the arbiter reopens a
  radio that answers but does not stream, and how soon it receives again once the radio
  works. Time is the clock of the world, which no operation turns back.
\<close>

section \<open>Time\<close>

definition keeps_time :: "'w env \<Rightarrow> ('w \<Rightarrow> nat) \<Rightarrow> bool" where
  "keeps_time env clock \<longleftrightarrow>
     (\<forall>w. clock w \<le> fst (e_now env w) \<and> fst (e_now env w) \<le> clock (snd (e_now env w))) \<and>
     (\<forall>w n. clock w + n \<le> clock (e_sleep env n w)) \<and>
     (\<forall>w. clock w \<le> clock (snd (e_read env w)) \<and> clock w \<le> clock (snd (e_stop env w)) \<and>
        clock w \<le> clock (snd (e_describe env w)) \<and> clock w \<le> clock (snd (e_now_ms env w)) \<and>
        clock w \<le> clock (snd (e_log_open env w))) \<and>
     (\<forall>w f. clock w \<le> clock (snd (e_start_rx env f w))) \<and>
     (\<forall>w f. clock w \<le> clock (snd (e_log_append env f w))) \<and>
     (\<forall>w p s. clock w \<le> clock (snd (e_transmit env p s w)))"

lemma keeps_timeD:
  assumes "keeps_time env clock"
  shows "clock w \<le> fst (e_now env w)" "fst (e_now env w) \<le> clock (snd (e_now env w))" "clock w \<le> clock (snd (e_now env w))"
    "clock w + n \<le> clock (e_sleep env n w)" "clock w \<le> clock (snd (e_read env w))" "clock w \<le> clock (snd (e_stop env w))"
    "clock w \<le> clock (snd (e_describe env w))" "clock w \<le> clock (snd (e_now_ms env w))" "clock w \<le> clock (snd (e_log_open env w))"
    "clock w \<le> clock (snd (e_start_rx env f w))" "clock w \<le> clock (snd (e_log_append env fr w))"
    "clock w \<le> clock (snd (e_transmit env p s w))"
  using assms unfolding keeps_time_def by (auto intro: le_trans)

section \<open>A radio that answers but cannot stream\<close>

text \<open>The interval before the next attempt after \<open>k\<close> faults, and the time \<open>k\<close> faults take.\<close>

definition wait_after :: "nat \<Rightarrow> nat" where
  "wait_after k = min (fault_backoff * 2 ^ k) max_fault_backoff"

definition time_for :: "nat \<Rightarrow> nat" where
  "time_for k = (\<Sum>i<k. wait_after (Suc i))"

lemma time_for_Suc [simp]: "time_for (Suc k) = time_for k + wait_after (Suc k)"
  by (simp add: time_for_def)

lemma time_for_0 [simp]: "time_for 0 = 0"
  by (simp add: time_for_def)

lemma wait_after_Suc: "wait_after k \<le> b \<Longrightarrow> wait_after (Suc k) \<le> min (b * 2) max_fault_backoff"
proof -
  assume b: "wait_after k \<le> b"
  have "fault_backoff * 2 ^ Suc k = fault_backoff * 2 ^ k * 2" by simp
  then show ?thesis using b unfolding wait_after_def min_def by (auto split: if_splits)
qed

definition faults_of :: "'w arbiter \<Rightarrow> nat" where
  "faults_of a = c_device_faults (s_counters (a_state a))"

definition slow :: "('w \<Rightarrow> nat) \<Rightarrow> nat \<Rightarrow> 'w arbiter \<Rightarrow> bool" where
  "slow clock t a \<longleftrightarrow>
     wait_after (faults_of a) \<le> s_backoff (a_state a) \<and>
     (if s_faulted (a_state a) then t + time_for (faults_of a) \<le> s_retry_at (a_state a)
      else t + time_for (faults_of a) \<le> clock (a_world a)) \<and>
     t + time_for (faults_of a - 1) \<le> clock (a_world a)"

text \<open>What the invariant reads of a state.\<close>

lemma slow_cong:
  "slow clock t a \<Longrightarrow> clock (a_world a) \<le> clock (a_world b) \<Longrightarrow> s_backoff (a_state b) = s_backoff (a_state a) \<Longrightarrow>
   s_faulted (a_state b) = s_faulted (a_state a) \<Longrightarrow> s_retry_at (a_state b) = s_retry_at (a_state a) \<Longrightarrow>
   s_counters (a_state b) = s_counters (a_state a) \<Longrightarrow> slow clock t b"
  by (auto simp: slow_def faults_of_def intro: le_trans)

lemma fault_slow:
  assumes k: "keeps_time env clock" and s: "slow clock t a" and f: "\<not> s_faulted (a_state a)"
  shows "slow clock t (fault env a)"
proof -
  let ?n = "faults_of a" and ?now = "fst (e_now env (a_world a))"
  have w: "wait_after ?n \<le> s_backoff (a_state a)" "t + time_for ?n \<le> clock (a_world a)"
    using s f by (simp_all add: slow_def)
  have n: "faults_of (fault env a) = Suc ?n" by (simp add: fault_def faults_of_def enter_fault_def)
  have b: "wait_after (Suc ?n) \<le> min (s_backoff (a_state a) * 2) max_fault_backoff" by (rule wait_after_Suc [OF w(1)])
  have "t + time_for ?n \<le> ?now" "t + time_for ?n \<le> clock (snd (e_now env (a_world a)))"
    using w(2) keeps_timeD(1,3) [OF k, of "a_world a"] by (auto intro: le_trans)
  moreover have "t + time_for (Suc ?n) \<le> ?now + min (s_backoff (a_state a) * 2) max_fault_backoff"
    using add_mono [OF \<open>t + time_for ?n \<le> ?now\<close> b] by (simp add: add.assoc)
  ultimately show ?thesis using b
    by (simp add: slow_def n del: time_for_Suc, simp add: fault_def enter_fault_def del: time_for_Suc)
qed

definition never_streams :: "'w env \<Rightarrow> bool" where
  "never_streams env \<longleftrightarrow> (\<forall>w. \<not> is_ok (fst (e_read env w)))"

lemma receive_slow:
  assumes k: "keeps_time env clock" and "never_streams env" and s: "slow clock t a" and f: "\<not> s_faulted (a_state a)"
  shows "slow clock t (receive env a)"
proof -
  obtain e w where e: "e_read env (a_world a) = (Inl e, w)"
    using assms(2) by (cases "e_read env (a_world a)"; cases "fst (e_read env (a_world a))") (auto simp: never_streams_def dest: spec [of _ "a_world a"])
  let ?a = "a\<lparr>a_world := w\<rparr>"
  have "clock (a_world a) \<le> clock w" using keeps_timeD(5) [OF k, of "a_world a"] e by simp
  then have "slow clock t ?a" using slow_cong [OF s, of ?a] by simp
  then show ?thesis using fault_slow [OF k, of t ?a] f e by (simp add: receive_def act_def)
qed

lemma pump_slow:
  assumes k: "keeps_time env clock" and "never_streams env" and s: "slow clock t a" and f: "\<not> s_faulted (a_state a)"
  shows "slow clock t (pump env a)"
proof (cases "s_rx_running (a_state a)")
  case True
  then show ?thesis using receive_slow [OF assms] by (simp add: pump_def)
next
  case False
  obtain r a1 where r: "act (e_start_rx env (s_rx_frequency (a_state a))) a = (r, a1)" by force
  have same: "a_state a1 = a_state a" "clock (a_world a) \<le> clock (a_world a1)"
    using act_eq [OF r] keeps_timeD(10) [OF k, of "a_world a" "s_rx_frequency (a_state a)"] by auto
  have s1: "slow clock t a1" using slow_cong [OF s, of a1] same by simp
  have "slow clock t (publish (upd (\<lambda>s. s\<lparr>s_rx_running := True\<rparr>) a1))" by (rule slow_cong [OF s1]) simp_all
  then show ?thesis
    using fault_slow [OF k s1] receive_slow [OF k assms(2)] f same(1) False by (auto simp: pump_def r split: sum.split)
qed

lemma retry_slow:
  assumes k: "keeps_time env clock" and s: "slow clock t a" and f: "s_faulted (a_state a)"
  shows "slow clock t (retry env a)"
proof -
  obtain now a1 where now: "act (e_now env) a = (now, a1)" by force
  obtain r1 a2 where stop: "act (e_stop env) a1 = (r1, a2)" by force
  obtain r a3 where desc: "act (e_describe env) a2 = (r, a3)" by force
  note n = act_eq [OF now] and st = act_eq [OF stop] and d = act_eq [OF desc]
  have c1: "clock (a_world a) \<le> clock (a_world a1)" "now \<le> clock (a_world a1)"
    using n keeps_timeD(2,3) [OF k, of "a_world a"] by auto
  have c2: "clock (a_world a1) \<le> clock (a_world a2)" using st keeps_timeD(6) [OF k, of "a_world a1"] by auto
  have c3: "clock (a_world a2) \<le> clock (a_world a3)" using d keeps_timeD(7) [OF k, of "a_world a2"] by auto
  have s1: "slow clock t a1" using slow_cong [OF s, of a1] n c1 by simp
  have s3: "slow clock t a3" using slow_cong [OF s, of a3] n st d c1 c2 c3 by simp
  have same: "a_state a3 = a_state a" using n st d by simp
  show ?thesis
  proof (cases "now < s_retry_at (a_state a1)")
    case True
    have "clock (a_world a1) \<le> clock (e_sleep env fault_poll (a_world a1))"
      using keeps_timeD(4) [OF k, of "a_world a1" fault_poll] by simp
    then have "slow clock t (a1\<lparr>a_world := e_sleep env fault_poll (a_world a1)\<rparr>)" using slow_cong [OF s1] by simp
    then show ?thesis using True by (simp add: retry_def now)
  next
    case False
    let ?b = "min (s_backoff (a_state a) * 2) max_fault_backoff"
    have due: "t + time_for (faults_of a) \<le> clock (a_world a3)"
      using s f False n c1 c2 c3 by (simp add: slow_def)
    have due2: "t + time_for (faults_of a) \<le> fst (e_now env (a_world a3)) + ?b"
      using due keeps_timeD(1) [OF k, of "a_world a3"] by simp
    have w: "wait_after (faults_of a) \<le> ?b"
      using s by (auto simp: slow_def wait_after_def min_def)
    have last: "t + time_for (faults_of a - 1) \<le> clock (a_world a3)" using s3 by (simp add: slow_def faults_of_def same)
    have "slow clock t (publish (upd (\<lambda>s. s\<lparr>s_device := dv, s_faulted := False\<rparr>) a3))" for dv
      using s due last by (simp add: slow_def faults_of_def same)
    moreover have "slow clock t (back_off env a3)"
      using f w due2 last keeps_timeD(3) [OF k, of "a_world a3"] by (simp add: slow_def faults_of_def same)
    ultimately show ?thesis using False by (simp add: retry_def now stop desc split: sum.split)
  qed
qed

text \<open>Passes with nothing to do for clients but to answer how the radio is.\<close>

definition only_asks :: "command option \<Rightarrow> bool" where
  "only_asks p \<longleftrightarrow> p = None \<or> p = Some Cmd_Status"

lemma loop_step_slow:
  assumes k: "keeps_time env clock" and "never_streams env" and s: "slow clock t a" and p: "only_asks p"
  shows "slow clock t (loop_step env p a)"
proof -
  define a1 where "a1 = (case p of None \<Rightarrow> a | Some cmd \<Rightarrow> handle_command env cmd a)"
  have same: "a_state a1 = a_state a" "a_world a1 = a_world a"
    using p by (auto simp: a1_def only_asks_def handle_command_def)
  have s1: "slow clock t a1" using slow_cong [OF s, of a1] same by simp
  have "slow clock t (loop_body env p a)"
    unfolding loop_body_def a1_def [symmetric] Let_def
    using retry_slow [OF k s1] pump_slow [OF k assms(2) s1] s1 by simp
  then show ?thesis using s by (simp add: loop_step_def)
qed

lemma arbiter_new_slow: "keeps_time env clock \<Longrightarrow> slow clock (clock w) (arbiter_new env c w)"
  using keeps_timeD(3) [of env clock w] keeps_timeD(7) [of env clock "snd (e_now env w)"]
  by (simp add: arbiter_new_def state_new_def split_beta slow_def faults_of_def counters_default_def wait_after_def Let_def
      fault_backoff_def max_fault_backoff_def)

text \<open>C15: A radio that answers but cannot stream is left alone. With a radio whose reads all fail,
  whatever else of it works, and as long as clients only ask for the status, the \<open>k\<close>-th
  fault comes no earlier than four, eight, sixteen, thirty-two seconds, and then a minute
  each, after those before it: \<open>k\<close> faults take at least the sum of the first \<open>k - 1\<close> of these.\<close>

theorem broken_radio_is_left_alone:
  assumes "keeps_time env clock" "never_streams env" "list_all only_asks polls"
    and "a = foldl (\<lambda>a p. loop_step env p a) (arbiter_new env c w) polls"
  shows "(\<Sum>i<c_device_faults (s_counters (a_state a)) - 1. min (4 * 10 ^ 9 * 2 ^ i) (60 * 10 ^ 9)) \<le> clock (a_world a) - clock w"
proof -
  have "slow clock (clock w) a" using assms(3) unfolding assms(4)
    by (induction polls rule: rev_induct) (simp_all add: arbiter_new_slow loop_step_slow assms(1,2))
  then have "clock w + time_for (faults_of a - 1) \<le> clock (a_world a)" by (simp add: slow_def)
  moreover have "min (4 * 10 ^ 9 * 2 ^ i) (60 * 10 ^ 9) = wait_after (Suc i)" for i :: nat
    by (simp add: wait_after_def fault_backoff_def max_fault_backoff_def)
  ultimately show ?thesis by (simp add: time_for_def faults_of_def)
qed

section \<open>The next attempt is never more than a minute away\<close>

definition ahead :: "('w \<Rightarrow> nat) \<Rightarrow> 'w arbiter \<Rightarrow> 'w arbiter \<Rightarrow> bool" where
  "ahead clock a b \<longleftrightarrow> clock (a_world a) \<le> clock (a_world b) \<and>
     s_retry_at (a_state b) \<le> max (s_retry_at (a_state a)) (clock (a_world b) + max_fault_backoff)"

lemma ahead_trans: "ahead clock a b \<Longrightarrow> ahead clock b d \<Longrightarrow> ahead clock a d"
  by (auto simp: ahead_def max_def split: if_splits)

lemma ahead_same:
  "clock (a_world a) \<le> clock (a_world b) \<Longrightarrow> s_retry_at (a_state b) = s_retry_at (a_state a) \<Longrightarrow> ahead clock a b"
  by (simp add: ahead_def)

lemma ahead_refl [simp]: "ahead clock a a"
  by (rule ahead_same) simp_all

lemma ahead_publish: "ahead clock a b \<Longrightarrow> ahead clock a (publish b)"
  and ahead_emit: "ahead clock a b \<Longrightarrow> ahead clock a (emit x b)"
  and ahead_announce: "ahead clock a b \<Longrightarrow> ahead clock a (announce d b)"
  and ahead_upd: "ahead clock a b \<Longrightarrow> s_retry_at (f (a_state b)) = s_retry_at (a_state b) \<Longrightarrow> ahead clock a (upd f b)"
  and ahead_detector: "ahead clock a b \<Longrightarrow> ahead clock a (b\<lparr>a_detector := dt\<rparr>)"
  by (simp_all add: ahead_def)

lemma ahead_act:
  assumes "act f b = (r, b1)" "ahead clock a b" "clock (a_world b) \<le> clock (snd (f (a_world b)))"
  shows "ahead clock a b1"
proof -
  have "ahead clock b b1" using act_eq [OF assms(1)] assms(3) by (intro ahead_same) auto
  then show ?thesis by (rule ahead_trans [OF assms(2)])
qed

lemma ahead_act_snd:
  "ahead clock a b \<Longrightarrow> clock (a_world b) \<le> clock (snd (f (a_world b))) \<Longrightarrow> ahead clock a (snd (act f b))"
  by (rule ahead_act [OF prod.collapse [symmetric]])

lemma ahead_back_off:
  assumes k: "keeps_time env clock" and "ahead clock a b"
  shows "ahead clock a (back_off env b)"
proof -
  have "ahead clock b (back_off env b)"
    using keeps_timeD(3) [OF k, of "a_world b"] add_mono [OF keeps_timeD(2) [OF k, of "a_world b"] min.cobounded2]
    by (simp add: ahead_def le_max_iff_disj)
  then show ?thesis by (rule ahead_trans [OF assms(2)])
qed

lemma ahead_fault: "keeps_time env clock \<Longrightarrow> ahead clock a b \<Longrightarrow> ahead clock a (fault env b)"
  unfolding fault_def by (intro ahead_publish ahead_back_off ahead_upd) (simp_all add: enter_fault_def)

lemma ahead_send:
  assumes k: "keeps_time env clock" and "ahead clock a b"
  shows "ahead clock a (snd (send env req b))"
proof -
  have r: "s_retry_at (count_transmission s) = s_retry_at s" for s by (simp add: count_transmission_def)
  show ?thesis using assms(2) keeps_timeD(6,12) [OF k]
    by (auto simp: send_def Let_def split_beta r intro!: ahead_publish ahead_upd ahead_act_snd ahead_announce split: sum.split)
qed

lemma ahead_preempt:
  assumes k: "keeps_time env clock"
  shows "ahead clock a (snd (preempt_transmit env req a))"
proof -
  obtain r a1 where r: "act (e_stop env) a = (r, a1)" by force
  have "ahead clock a a1" using ahead_act [OF r ahead_refl] keeps_timeD(6) [OF k] by simp
  then show ?thesis
    by (auto simp: preempt_transmit_def r intro!: ahead_send [OF k] ahead_upd split: sum.split)
qed

lemma ahead_start_receiver:
  assumes k: "keeps_time env clock" and "ahead clock a b"
  shows "ahead clock a (snd (start_receiver env b))"
proof -
  obtain r b1 where r: "act (e_start_rx env (s_rx_frequency (a_state b))) b = (r, b1)" by force
  have "ahead clock a b1" by (rule ahead_act [OF r assms(2)]) (rule keeps_timeD(10) [OF k])
  then show ?thesis by (auto simp: start_receiver_def r intro!: ahead_fault [OF k] ahead_upd split: sum.split)
qed

lemma ahead_configure:
  assumes k: "keeps_time env clock"
  shows "ahead clock a (configure env f en a)"
proof -
  define a1 where "a1 = upd (\<lambda>s. s\<lparr>s_rx_frequency := (case f of Some f \<Rightarrow> f | None \<Rightarrow> s_rx_frequency s), s_rx_enabled := en\<rparr>) a"
  define a2 where "a2 = (if s_rx_running (a_state a1) then upd (\<lambda>s. s\<lparr>s_rx_running := False\<rparr>) (snd (act (e_stop env) a1)) else a1)"
  define a3 where "a3 = upd (\<lambda>s. s\<lparr>s_faulted := False\<rparr>) (a2\<lparr>a_detector := detector_new (cfg_detector (s_config (a_state a2)))\<rparr>)"
  have "ahead clock a a1" unfolding a1_def by (intro ahead_upd) simp_all
  then have "ahead clock a a2" unfolding a2_def using keeps_timeD(6) [OF k] by (auto intro!: ahead_upd ahead_act_snd)
  then have a3: "ahead clock a a3" unfolding a3_def by (intro ahead_upd ahead_detector) simp_all
  show ?thesis unfolding configure_def Let_def a1_def [symmetric] a2_def [symmetric] a3_def [symmetric]
    using a3 ahead_start_receiver [OF k a3] by (auto simp: split_beta intro!: ahead_emit ahead_publish)
qed

lemma ahead_handle:
  assumes k: "keeps_time env clock"
  shows "ahead clock a (handle_command env cmd a)"
proof (cases cmd)
  case (Cmd_Transmit req)
  then show ?thesis using ahead_preempt [OF k, of a req]
    by (auto simp: handle_command_def split: prod.split sum.split intro!: ahead_emit ahead_fault [OF k])
next
  case Cmd_Device_Arrived
  have "ahead clock a (upd (\<lambda>s. s\<lparr>s_retry_at := fst (act (e_now env) a), s_backoff := fault_backoff\<rparr>) (snd (act (e_now env) a)))"
    using keeps_timeD(2,3) [OF k, of "a_world a"] by (simp add: ahead_def max_def)
  then show ?thesis using Cmd_Device_Arrived by (simp add: handle_command_def split_beta Let_def)
qed (simp_all add: handle_command_def ahead_configure [OF k] ahead_emit)

lemma ahead_deliver:
  assumes k: "keeps_time env clock" and "ahead clock a b"
  shows "ahead clock a (deliver_burst env b bu)"
proof -
  have append: "clock w \<le> clock (snd (recorder_append env fr (r, w)))" for fr r w
    using keeps_timeD(11) [OF k, of w fr] by (auto simp: recorder_append_def split: prod.split sum.split)
  have rec: "clock w \<le> clock (snd (recorder_write env fr (r, w)))" for fr r w
    using append keeps_timeD(9) [OF k, of w]
    by (auto simp: recorder_write_def split: prod.split sum.split intro: le_trans)
  have "s_retry_at (count_rx_frame s) = s_retry_at s" for s by (simp add: count_rx_frame_def)
  then have "ahead clock b (deliver_burst env b bu)"
    using keeps_timeD(8) [OF k, of "a_world b"] rec
    by (intro ahead_same) (auto simp: deliver_burst_def Let_def split_beta split: option.split intro: le_trans)
  then show ?thesis by (rule ahead_trans [OF assms(2)])
qed

lemma ahead_receive:
  assumes k: "keeps_time env clock" and "ahead clock a b"
  shows "ahead clock a (receive env b)"
proof -
  obtain r b1 where r: "act (e_read env) b = (r, b1)" by force
  have b1: "ahead clock a b1" by (rule ahead_act [OF r assms(2)]) (rule keeps_timeD(5) [OF k])
  have deliver: "ahead clock a (foldl (deliver_burst env) x bs)" if "ahead clock a x" for x bs
    using that by (induction bs arbitrary: x) (simp_all add: ahead_deliver [OF k])
  show ?thesis using b1
    by (auto simp: receive_def r Let_def split_beta intro!: ahead_fault [OF k] deliver ahead_detector ahead_upd split: sum.split)
qed

lemma ahead_pump:
  assumes k: "keeps_time env clock" and "ahead clock a b"
  shows "ahead clock a (pump env b)"
proof -
  obtain r b1 where r: "act (e_start_rx env (s_rx_frequency (a_state b))) b = (r, b1)" by force
  have "ahead clock a b1" by (rule ahead_act [OF r assms(2)]) (rule keeps_timeD(10) [OF k])
  then show ?thesis using assms(2)
    by (auto simp: pump_def r intro!: ahead_fault [OF k] ahead_receive [OF k] ahead_publish ahead_upd split: sum.split)
qed

lemma ahead_retry:
  assumes k: "keeps_time env clock" and "ahead clock a b"
  shows "ahead clock a (retry env b)"
proof -
  obtain now b1 where now: "act (e_now env) b = (now, b1)" by force
  obtain r1 b2 where stop: "act (e_stop env) b1 = (r1, b2)" by force
  obtain r b3 where desc: "act (e_describe env) b2 = (r, b3)" by force
  have b1: "ahead clock a b1" by (rule ahead_act [OF now assms(2)]) (rule keeps_timeD(3) [OF k])
  have b2: "ahead clock a b2" by (rule ahead_act [OF stop b1]) (rule keeps_timeD(6) [OF k])
  have b3: "ahead clock a b3" by (rule ahead_act [OF desc b2]) (rule keeps_timeD(7) [OF k])
  have "ahead clock b1 (b1\<lparr>a_world := e_sleep env fault_poll (a_world b1)\<rparr>)"
    using keeps_timeD(4) [OF k, of "a_world b1" fault_poll] by (intro ahead_same) simp_all
  then have "ahead clock a (b1\<lparr>a_world := e_sleep env fault_poll (a_world b1)\<rparr>)" by (rule ahead_trans [OF b1])
  then show ?thesis using b3
    by (auto simp: retry_def now stop desc intro!: ahead_publish ahead_upd ahead_back_off [OF k] split: sum.split)
qed

lemma ahead_step:
  assumes k: "keeps_time env clock"
  shows "ahead clock a (loop_step env p a)"
proof -
  define a1 where "a1 = (case p of None \<Rightarrow> a | Some cmd \<Rightarrow> handle_command env cmd a)"
  have "ahead clock a a1" by (cases p) (simp_all add: a1_def ahead_handle [OF k])
  then have "ahead clock a (loop_body env p a)"
    unfolding loop_body_def a1_def [symmetric] Let_def
    using ahead_retry [OF k] ahead_pump [OF k] by simp
  then show ?thesis by (simp add: loop_step_def)
qed

lemma reachable_retry_near:
  assumes "keeps_time env clock" "reachable env c w a"
  shows "s_retry_at (a_state a) \<le> clock (a_world a) + max_fault_backoff"
  using assms(2)
proof (induction rule: reachable.induct)
  case start
  then show ?case
    using keeps_timeD(2) [OF assms(1), of w] keeps_timeD(7) [OF assms(1), of "snd (e_now env w)"]
    by (simp add: arbiter_new_def state_new_def split_beta)
next
  case (step a p)
  then show ?case using ahead_step [OF assms(1), of a p] by (auto simp: ahead_def max_def split: if_splits)
qed

section \<open>A radio that works again\<close>

text \<open>\<open>good\<close> are the worlds in which the radio answers, and goes on answering.\<close>

definition works :: "'w env \<Rightarrow> ('w \<Rightarrow> bool) \<Rightarrow> bool" where
  "works env good \<longleftrightarrow>
     (\<forall>w. good w \<longrightarrow> is_ok (fst (e_describe env w)) \<and> is_ok (fst (e_read env w)) \<and>
        good (snd (e_describe env w)) \<and> good (snd (e_stop env w)) \<and> good (snd (e_now env w)) \<and>
        (\<forall>n. good (e_sleep env n w)) \<and> (\<forall>f. is_ok (fst (e_start_rx env f w)) \<and> good (snd (e_start_rx env f w))))"

lemma worksD:
  assumes "works env good" "good w"
  shows "is_ok (fst (e_describe env w))" "is_ok (fst (e_read env w))" "good (snd (e_describe env w))"
    "good (snd (e_stop env w))" "good (snd (e_now env w))" "good (e_sleep env n w)"
    "is_ok (fst (e_start_rx env f w))" "good (snd (e_start_rx env f w))"
  using assms unfolding works_def by blast+

lemma act_ok:
  assumes "is_ok (fst (g (a_world b)))"
  obtains x b1 where "act g b = (Inr x, b1)"
  using assms by (cases "g (a_world b)"; cases "fst (g (a_world b))") (auto simp: act_def)

lemma deliver_bursts_keep:
  "s_rx_running (a_state (foldl (deliver_burst env) a bs)) = s_rx_running (a_state a) \<and>
   s_faulted (a_state (foldl (deliver_burst env) a bs)) = s_faulted (a_state a) \<and>
   s_published (a_state (foldl (deliver_burst env) a bs)) = s_published (a_state a) \<and>
   s_backoff (a_state (foldl (deliver_burst env) a bs)) = s_backoff (a_state a)"
  by (induction bs arbitrary: a) (simp_all add: deliver_burst_state)

text \<open>The pass that finds the wait over.\<close>

lemma due_pass:
  assumes "works env good" "good (a_world a)" "s_faulted (a_state a)" "s_rx_enabled (a_state a)"
    and "\<not> fst (e_now env (a_world a)) < s_retry_at (a_state a)"
  shows "\<exists>v w. good w \<and> loop_step env None a = publish (upd (\<lambda>s. s\<lparr>s_device := Some v, s_faulted := False\<rparr>) (a\<lparr>a_world := w\<rparr>))"
proof -
  obtain now a1 where now: "act (e_now env) a = (now, a1)" by force
  obtain r1 a2 where stop: "act (e_stop env) a1 = (r1, a2)" by force
  have g: "good (a_world a1)" "good (a_world a2)"
    using worksD(4,5) [OF assms(1)] assms(2) act_eq [OF now] act_eq [OF stop] by (metis snd_conv)+
  obtain v a3 where desc: "act (e_describe env) a2 = (Inr v, a3)" by (rule act_ok [where g = "e_describe env", OF worksD(1) [OF assms(1) g(2)]])
  have "good (a_world a3)" using worksD(3) [OF assms(1) g(2)] act_eq [OF desc] by (metis snd_conv)
  moreover have "a3 = a\<lparr>a_world := a_world a3\<rparr>" using act_eq [OF now] act_eq [OF stop] act_eq [OF desc] by simp
  moreover have "loop_step env None a = publish (upd (\<lambda>s. s\<lparr>s_device := Some v, s_faulted := False\<rparr>) a3)"
    using assms(3-5) act_eq [OF now] by (simp add: loop_step_def loop_body_def retry_def now stop desc)
  ultimately show ?thesis by metis
qed

text \<open>The pass after that.\<close>

lemma start_pass:
  assumes "works env good" "good (a_world a)" "\<not> s_faulted (a_state a)" "s_rx_enabled (a_state a)" "\<not> s_rx_running (a_state a)" "\<not> s_receiving_proven (a_state a)"
  shows "device_state_of (a_state (loop_step env None a)) = Receiving \<and> s_published (a_state (loop_step env None a)) = Some Receiving \<and>
     s_backoff (a_state (loop_step env None a)) = fault_backoff"
proof -
  obtain u a1 where start: "act (e_start_rx env (s_rx_frequency (a_state a))) a = (Inr u, a1)"
    by (rule act_ok [where g = "e_start_rx env (s_rx_frequency (a_state a))", OF worksD(7) [OF assms(1,2)]])
  have g: "good (a_world a1)" using worksD(8) [OF assms(1,2)] act_eq [OF start] by (metis snd_conv)
  define a2 where "a2 = publish (upd (\<lambda>s. s\<lparr>s_rx_running := True\<rparr>) a1)"
  have "good (a_world a2)" using g by (simp add: a2_def)
  then obtain iq a3 where read: "act (e_read env) a2 = (Inr iq, a3)" by (rule act_ok [where g = "e_read env", OF worksD(2) [OF assms(1)]])
  have same: "a_state a1 = a_state a" "a_state a3 = a_state a2" using act_eq [OF start] act_eq [OF read] by simp_all
  have a2: "s_rx_running (a_state a2)" "\<not> s_faulted (a_state a2)" "s_published (a_state a2) = Some Receiving"
    "\<not> s_receiving_proven (a_state a2)"
    using assms(3,6) by (simp_all add: a2_def same(1) device_state_of_def)
  have "loop_step env None a = receive env a2"
    using assms(3-5) by (simp add: loop_step_def loop_body_def receiving_def pump_def start a2_def)
  then show ?thesis using a2
    by (simp add: receive_def read Let_def split_beta deliver_bursts_keep same(2) device_state_of_def)
qed

text \<open>The passes until the wait is over.\<close>

lemma wait_passes:
  assumes k: "keeps_time env clock" and g: "works env good" and "good (a_world a)" "s_faulted (a_state a)" "s_rx_enabled (a_state a)"
  shows "\<exists>m w. good w \<and> m \<le> (s_retry_at (a_state a) - clock (a_world a)) div fault_poll + 1 \<and>
     (loop_step env None ^^ m) a = a\<lparr>a_world := w\<rparr> \<and> \<not> fst (e_now env w) < s_retry_at (a_state a)"
  using assms(3-5)
proof (induction "s_retry_at (a_state a) - clock (a_world a)" arbitrary: a rule: less_induct)
  case less
  let ?now = "fst (e_now env (a_world a))"
  show ?case
  proof (cases "?now < s_retry_at (a_state a)")
    case True
    let ?w = "e_sleep env fault_poll (snd (e_now env (a_world a)))"
    let ?b = "a\<lparr>a_world := ?w\<rparr>"
    have step: "loop_step env None a = ?b"
      using waiting_leaves_the_radio_alone [OF less.prems(2,3) prod.collapse [symmetric] True] .
    have c: "clock (a_world a) < s_retry_at (a_state a)" "clock (a_world a) + fault_poll \<le> clock ?w"
      using True keeps_timeD(1,3) [OF k, of "a_world a"] keeps_timeD(4) [OF k, of "snd (e_now env (a_world a))" fault_poll] by auto
    have gw: "good ?w" using worksD(5,6) [OF g] less.prems(1) by blast
    have p: "0 < fault_poll" by (simp add: fault_poll_def)
    have "s_retry_at (a_state ?b) - clock (a_world ?b) < s_retry_at (a_state a) - clock (a_world a)" using c p by simp
    from less.hyps [OF this] obtain m w where m: "m \<le> (s_retry_at (a_state a) - clock ?w) div fault_poll + 1"
      "(loop_step env None ^^ m) ?b = a\<lparr>a_world := w\<rparr>" "\<not> fst (e_now env w) < s_retry_at (a_state a)" "good w"
      using less.prems gw by auto
    have "Suc m \<le> (s_retry_at (a_state a) - clock (a_world a)) div fault_poll + 1 \<or> clock ?w \<ge> s_retry_at (a_state a)"
    proof (cases "clock ?w \<ge> s_retry_at (a_state a)")
      case False
      then have "s_retry_at (a_state a) - clock ?w + fault_poll \<le> s_retry_at (a_state a) - clock (a_world a)" using c by simp
      then have "(s_retry_at (a_state a) - clock ?w + fault_poll) div fault_poll \<le> (s_retry_at (a_state a) - clock (a_world a)) div fault_poll"
        by (rule div_le_mono)
      then show ?thesis using m(1) p by simp
    qed simp
    then consider "Suc m \<le> (s_retry_at (a_state a) - clock (a_world a)) div fault_poll + 1" | "clock ?w \<ge> s_retry_at (a_state a)" by blast
    then show ?thesis
    proof cases
      case 1
      then show ?thesis using m(2-4) step by (intro exI [of _ "Suc m"] exI [of _ w]) (simp add: funpow_swap1)
    next
      case 2
      then have "\<not> fst (e_now env ?w) < s_retry_at (a_state a)" using keeps_timeD(1) [OF k, of ?w] by simp
      then show ?thesis using step gw by (intro exI [of _ 1] exI [of _ ?w]) simp
    qed
  next
    case False
    then show ?thesis using less.prems(1) by (intro exI [of _ 0] exI [of _ "a_world a"]) simp
  qed
qed

lemma reachable_passes: "reachable env c w a \<Longrightarrow> reachable env c w ((loop_step env None ^^ n) a)"
  by (induction n) (auto intro: reachable.step)

text \<open>C7: A radio that works again is received from within a minute. From any faulted state of the
  arbiter with the receiver wanted, if the radio answers from then on and no command comes,
  603 passes of the loop are enough, six hundred of them naps of a tenth of a second, for
  it to be receiving, to have announced so, and to have forgotten the backoff.\<close>

theorem working_radio_comes_back:
  assumes k: "keeps_time env clock" and g: "works env good" "good (a_world a)" and reach: "reachable env c w a"
    and f: "s_faulted (a_state a)" "s_rx_enabled (a_state a)"
  shows "\<exists>n \<le> 603. device_state_of (a_state ((loop_step env None ^^ n) a)) = Receiving \<and>
     last_announced (a_out ((loop_step env None ^^ n) a)) = Some Receiving \<and>
     s_backoff (a_state ((loop_step env None ^^ n) a)) = fault_backoff"
proof -
  obtain m w1 where m: "m \<le> (s_retry_at (a_state a) - clock (a_world a)) div fault_poll + 1"
    "(loop_step env None ^^ m) a = a\<lparr>a_world := w1\<rparr>" "\<not> fst (e_now env w1) < s_retry_at (a_state a)" "good w1"
    using wait_passes [OF k g f] by blast
  have "s_retry_at (a_state a) - clock (a_world a) \<le> max_fault_backoff" using reachable_retry_near [OF k reach] by simp
  from div_le_mono [OF this, of fault_poll] have bound: "m \<le> 601" using m(1) by (simp add: max_fault_backoff_def fault_poll_def)
  let ?a = "a\<lparr>a_world := w1\<rparr>"
  obtain v w2 where w2: "good w2" and due: "loop_step env None ?a = publish (upd (\<lambda>s. s\<lparr>s_device := Some v, s_faulted := False\<rparr>) (?a\<lparr>a_world := w2\<rparr>))"
    using due_pass [OF g(1), of ?a] f m(3,4) by auto
  have "\<not> s_rx_running (a_state a)" "\<not> s_receiving_proven (a_state a)"
    using reachable_honest [OF reach] f(1) by (simp_all add: honest_def flags_ok_def)
  then have s: "device_state_of (a_state (loop_step env None (loop_step env None ?a))) = Receiving \<and>
      s_published (a_state (loop_step env None (loop_step env None ?a))) = Some Receiving \<and>
      s_backoff (a_state (loop_step env None (loop_step env None ?a))) = fault_backoff"
    using start_pass [OF g(1), of "loop_step env None ?a"] f(2) due w2 by simp
  have e: "(loop_step env None ^^ Suc (Suc m)) a = loop_step env None (loop_step env None ?a)" using m(2) by simp
  have "last_announced (a_out ((loop_step env None ^^ Suc (Suc m)) a)) = s_published (a_state ((loop_step env None ^^ Suc (Suc m)) a))"
    using reachable_honest [OF reachable_passes [OF reach, of "Suc (Suc m)"]] by (simp only: honest_def books_def)
  then show ?thesis using s e bound by (intro exI [of _ "Suc (Suc m)"]) simp
qed

text \<open>Both hold of the real device when the clocks of its host keep time: USB calls take what
  they take, but no time that the clock goes back.\<close>

definition host_keeps_time :: "'e host \<Rightarrow> ('e \<Rightarrow> nat) \<Rightarrow> bool" where
  "host_keeps_time host clock \<longleftrightarrow>
     (\<forall>e. clock e \<le> fst (h_now host e) \<and> fst (h_now host e) \<le> clock (snd (h_now host e))) \<and>
     (\<forall>e n. clock e + n \<le> clock (h_sleep host n e)) \<and>
     (\<forall>e. clock e \<le> clock (snd (h_now_ms host e)) \<and> clock e \<le> clock (snd (h_log_open host e))) \<and>
     (\<forall>e f. clock e \<le> clock (snd (h_log_append host f e)))"

lemma device_keeps_time:
  assumes "host_keeps_time host clock"
  shows "keeps_time (device_env drv host) (\<lambda>w. clock (snd w))"
  using assms
  by (simp add: keeps_time_def host_keeps_time_def device_env_def on_device_def on_host_def split_beta Let_def)

end
