(* ===== verification/Engine_Tests.thy ===== *)
theory Engine_Tests
  imports Recovery
begin

text \<open>
  The scenarios of \<open>engine.rs\<close>'s unit tests: its fake radio, its configuration and its frame,
  and what the tests expect, proved of the model. Where a test sleeps a while, the theorem
  holds after any number of passes.
\<close>

section \<open>The fake radio\<close>

datatype action = Start_Rx nat | Read | Stop | Transmit_Action tx_params nat

text \<open>\<open>Shared\<close>, the clock that runs while the tests do (in nanoseconds) and the recording file.\<close>

record shared =
  sh_actions :: "action list"
  sh_rx_data :: "byte list list"
  sh_fail_reads :: nat
  sh_fail_start_rx :: nat
  sh_clock :: nat
  sh_log :: "rx_frame list"

definition shared_default :: shared where
  "shared_default = \<lparr>sh_actions = [], sh_rx_data = [], sh_fail_reads = 0, sh_fail_start_rx = 0, sh_clock = 0, sh_log = []\<rparr>"

definition did :: "action \<Rightarrow> shared \<Rightarrow> shared" where
  "did x s = s\<lparr>sh_actions := sh_actions s @ [x]\<rparr>"

definition fake_start_rx :: "nat \<Rightarrow> (shared, unit) io" where
  "fake_start_rx frequency_hz s =
     (let s1 = did (Start_Rx frequency_hz) s
      in if 0 < sh_fail_start_rx s1
         then (Inl (Message ''radio is not there'' []), s1\<lparr>sh_fail_start_rx := sh_fail_start_rx s1 - 1\<rparr>)
         else (Inr (), s1))"

definition fake_read :: "(shared, byte list) io" where
  "fake_read s =
     (let s1 = did Read s
      in if 0 < sh_fail_reads s1
         then (Inl (Message ''USB went away'' []), s1\<lparr>sh_fail_reads := sh_fail_reads s1 - 1\<rparr>)
         else case sh_rx_data s1 of
                [] \<Rightarrow> (Inr (replicate 4096 0), s1)
              | transfer # rest \<Rightarrow> (Inr transfer, s1\<lparr>sh_rx_data := rest\<rparr>))"

definition fake_radio :: "shared env" where
  "fake_radio =
     \<lparr>e_start_rx = fake_start_rx, e_read = fake_read, e_stop = (\<lambda>s. (Inr (), did Stop s)),
      e_transmit = (\<lambda>params samples s. (Inr (), did (Transmit_Action params (length samples)) s)),
      e_describe = (\<lambda>s. (Inr ''fake HackRF'', s)),
      e_now = (\<lambda>s. (sh_clock s, s)), e_now_ms = (\<lambda>s. (sh_clock s div 10 ^ 6, s)),
      e_sleep = (\<lambda>n s. s\<lparr>sh_clock := sh_clock s + n\<rparr>), e_log_open = (\<lambda>s. (Inr (), s)), 
      e_log_append = (\<lambda>f s. (Inr (), s\<lparr>sh_log := sh_log s @ [f]\<rparr>))\<rparr>"

definition test_config :: config where
  "test_config =
     (config_new 2000000 315000000)
       \<lparr>cfg_detector := (detector_config_new 2000000)\<lparr>dc_window_samples := 20000, dc_min_edges := 3\<rparr>\<rparr>"

definition a_frame :: transmit where
  "a_frame = \<lparr>tx_frequency = 315000000, tx_timings = [500, -500, 500], tx_repeat = 1, tx_gap_us = 4150,
     tx_txvga_db = None, tx_amp = False\<rparr>"

text \<open>The thread started on \<open>s\<close>, after \<open>n\<close> passes without a command.\<close>

definition after :: "config \<Rightarrow> shared \<Rightarrow> nat \<Rightarrow> shared arbiter" where
  "after c s n = (loop_step fake_radio None ^^ n) (arbiter_new fake_radio c s)"

lemma radio_simps [simp]:
  "e_start_rx fake_radio = fake_start_rx" "e_read fake_radio = fake_read" "e_stop fake_radio s = (Inr (), did Stop s)"
  "e_transmit fake_radio p b s = (Inr (), did (Transmit_Action p (length b)) s)" "e_describe fake_radio s = (Inr ''fake HackRF'', s)"
  "e_now fake_radio s = (sh_clock s, s)" "e_now_ms fake_radio s = (sh_clock s div 10 ^ 6, s)"
  "e_sleep fake_radio n s = s\<lparr>sh_clock := sh_clock s + n\<rparr>" "e_log_open fake_radio s = (Inr (), s)"
  "e_log_append fake_radio f s = (Inr (), s\<lparr>sh_log := sh_log s @ [f]\<rparr>)"
  by (simp_all add: fake_radio_def)

lemma did_simps [simp]:
  "sh_actions (did x s) = sh_actions s @ [x]" "sh_rx_data (did x s) = sh_rx_data s" "sh_fail_reads (did x s) = sh_fail_reads s"
  "sh_fail_start_rx (did x s) = sh_fail_start_rx s" "sh_clock (did x s) = sh_clock s" "sh_log (did x s) = sh_log s"
  by (simp_all add: did_def)

section \<open>Receiving\<close>

text \<open>What the tests look at: the radio, the flags, the announcements and the replies.\<close>

record view =
  v_radio :: shared
  v_running :: bool
  v_enabled :: bool
  v_faulted :: bool
  v_frequency :: nat
  v_published :: "device_state option"
  v_states :: "device_state list"
  v_replies :: "outgoing list"
  v_faults :: nat
  v_config :: config
  v_recording :: bool

definition view_of :: "shared arbiter \<Rightarrow> view" where
  "view_of a =
     \<lparr>v_radio = a_world a, v_running = s_rx_running (a_state a), v_enabled = s_rx_enabled (a_state a),
      v_faulted = s_faulted (a_state a), v_frequency = s_rx_frequency (a_state a), v_published = s_published (a_state a),
      v_states = announcements (a_out a), v_replies = replies (a_out a), v_faults = faults_of a,
      v_config = s_config (a_state a), v_recording = (a_recorder a \<noteq> None)\<rparr>"

lemma view_deliver:
  assumes "a_recorder a = None"
  shows "view_of (deliver_burst fake_radio a b) = view_of a \<and> a_recorder (deliver_burst fake_radio a b) = None"
  using assms
  by (simp add: deliver_burst_def Let_def act_def view_of_def count_rx_frame_def faults_of_def replies_def)

lemma view_delivers:
  "a_recorder a = None \<Longrightarrow> view_of (foldl (deliver_burst fake_radio) a bs) = view_of a"
  using view_deliver by (induction bs arbitrary: a) simp_all

text \<open>A read that succeeds shows only at the radio.\<close>

lemma view_receive:
  assumes "a_recorder a = None" "sh_fail_reads (a_world a) = 0"
  shows "view_of (receive fake_radio a) = (view_of a)\<lparr>v_radio := (did Read (a_world a))\<lparr>sh_rx_data := tl (sh_rx_data (a_world a))\<rparr>\<rparr>"
proof -
  obtain iq where r: "fake_read (a_world a) = (Inr iq, (did Read (a_world a))\<lparr>sh_rx_data := tl (sh_rx_data (a_world a))\<rparr>)"
    using assms(2) by (cases "sh_rx_data (a_world a)") (auto simp: fake_read_def Let_def did_def)
  let ?a = "a\<lparr>a_world := (did Read (a_world a))\<lparr>sh_rx_data := tl (sh_rx_data (a_world a))\<rparr>\<rparr>"
  define b where "b = (if \<not> s_receiving_proven (a_state a)
      then upd (\<lambda>s. s\<lparr>s_receiving_proven := True, s_backoff := fault_backoff\<rparr>) ?a else ?a)"
  have "view_of (receive fake_radio a) = view_of (b\<lparr>a_detector := fst (det_push (a_detector b) iq)\<rparr>)"
    using assms(1) by (simp add: receive_def act_def r Let_def split_beta view_delivers b_def)
  then show ?thesis by (simp add: b_def view_of_def faults_of_def)
qed

text \<open>A pass of a receiver that runs, and one that starts it.\<close>

lemma view_steady:
  assumes "v = view_of a" "v_running v" "v_enabled v" "\<not> v_faulted v" "\<not> v_recording v" "sh_fail_reads (v_radio v) = 0"
  shows "view_of (loop_step fake_radio None a) = v\<lparr>v_radio := (did Read (v_radio v))\<lparr>sh_rx_data := tl (sh_rx_data (v_radio v))\<rparr>\<rparr>"
  using assms view_receive [of a]
  by (simp add: view_of_def loop_step_def loop_body_def receiving_def pump_def)

lemma view_start:
  assumes v: "v = view_of a" "\<not> v_running v" "v_enabled v" "\<not> v_faulted v" "\<not> v_recording v"
    and radio: "sh_fail_reads (v_radio v) = 0" "sh_fail_start_rx (v_radio v) = 0" "sh_rx_data (v_radio v) = []"
  shows "view_of (loop_step fake_radio None a) =
     v\<lparr>v_radio := did Read (did (Start_Rx (v_frequency v)) (v_radio v)), v_running := True, v_published := Some Receiving,
       v_states := v_states v @ (if v_published v = Some Receiving then [] else [Receiving])\<rparr>"
proof -
  let ?w = "did (Start_Rx (s_rx_frequency (a_state a))) (a_world a)"
  let ?a = "publish (upd (\<lambda>s. s\<lparr>s_rx_running := True\<rparr>) (a\<lparr>a_world := ?w\<rparr>))"
  have s: "fake_start_rx (s_rx_frequency (a_state a)) (a_world a) = (Inr (), ?w)"
    using radio v(1) by (simp add: fake_start_rx_def Let_def view_of_def)
  have "loop_step fake_radio None a = receive fake_radio ?a"
    using v by (simp add: view_of_def loop_step_def loop_body_def receiving_def pump_def act_def s)
  moreover have "view_of (receive fake_radio ?a) = (view_of ?a)\<lparr>v_radio := (did Read ?w)\<lparr>sh_rx_data := tl (sh_rx_data ?w)\<rparr>\<rparr>"
    using view_receive [of ?a] v radio by (simp add: view_of_def)
  moreover have "(did Read ?w)\<lparr>sh_rx_data := tl (sh_rx_data ?w)\<rparr> = did Read ?w"
    using radio v(1) by (simp add: view_of_def did_def)
  moreover have "view_of ?a = v\<lparr>v_radio := ?w, v_running := True, v_published := Some Receiving,
       v_states := v_states v @ (if v_published v = Some Receiving then [] else [Receiving])\<rparr>"
    using v by (simp add: view_of_def publish_def Let_def device_state_of_def faults_of_def replies_def)
  ultimately show ?thesis using v(1) by (simp add: view_of_def)
qed

definition started :: "config \<Rightarrow> view" where
  "started c =
     \<lparr>v_radio = shared_default, v_running = False, v_enabled = cfg_rx_enabled c, v_faulted = False,
      v_frequency = cfg_rx_frequency c, v_published = None, v_states = [], v_replies = [], v_faults = 0, v_config = c,
      v_recording = cfg_record c\<rparr>"

lemma view_new: "view_of (arbiter_new fake_radio c s) = (started c)\<lparr>v_radio := s\<rparr>"
  by (simp add: arbiter_new_def state_new_def view_of_def started_def faults_of_def counters_default_def announcements_def
      replies_def List.map_filter_def)

text \<open>The receiver with a default radio: nothing but reads after the start.\<close>

definition heard :: "nat \<Rightarrow> shared \<Rightarrow> shared" where
  "heard n s = s\<lparr>sh_actions := sh_actions s @ replicate n Read\<rparr>"

lemma heard_simps [simp]:
  "sh_rx_data (heard n s) = sh_rx_data s" "sh_fail_reads (heard n s) = sh_fail_reads s"
  "sh_fail_start_rx (heard n s) = sh_fail_start_rx s" "sh_clock (heard n s) = sh_clock s"
  "sh_actions (heard n s) = sh_actions s @ replicate n Read"
  by (simp_all add: heard_def)

lemma did_heard: "did Read (heard n s) = heard (Suc n) s"
  by (simp add: did_def heard_def replicate_append_same)

lemma view_passes:
  assumes "v = view_of a" "v_running v" "v_enabled v" "\<not> v_faulted v" "\<not> v_recording v"
    and "sh_fail_reads (v_radio v) = 0" "sh_rx_data (v_radio v) = []"
  shows "view_of ((loop_step fake_radio None ^^ n) a) = v\<lparr>v_radio := heard n (v_radio v)\<rparr>"
proof (induction n)
  case 0
  then show ?case using assms(1) by (simp add: heard_def)
next
  case (Suc n)
  have nil: "(did Read (heard n (v_radio v)))\<lparr>sh_rx_data := []\<rparr> = heard (Suc n) (v_radio v)"
    using assms(7) by (simp add: did_def heard_def replicate_append_same)
  show ?case using view_steady [OF Suc.IH [symmetric]] assms nil by simp
qed

definition receiving_view :: "nat \<Rightarrow> view" where
  "receiving_view n =
     (started test_config)\<lparr>v_radio := shared_default\<lparr>sh_actions := Start_Rx 315000000 # replicate n Read\<rparr>,
        v_running := True, v_published := Some Receiving, v_states := [Receiving]\<rparr>"

lemma test_config_simps [simp]:
  "cfg_rx_frequency test_config = 315000000" "cfg_sample_rate test_config = 2000000" "cfg_rx_enabled test_config"
  "\<not> cfg_record test_config" "cfg_txvga_db test_config = 30" "cfg_tx_amplitude test_config = 100"
  by (simp_all add: test_config_def config_new_def)

lemma started_simps [simp]:
  "\<not> v_running (started c)" "v_enabled (started c) = cfg_rx_enabled c" "\<not> v_faulted (started c)" "v_frequency (started c) = cfg_rx_frequency c"
  "v_published (started c) = None" "v_states (started c) = []" "v_replies (started c) = []" "v_faults (started c) = 0"
  "v_config (started c) = c" "v_recording (started c) = cfg_record c" "v_radio (started c) = shared_default"
  by (simp_all add: started_def)

lemma shared_default_simps [simp]:
  "sh_actions shared_default = []" "sh_rx_data shared_default = []" "sh_fail_reads shared_default = 0"
  "sh_fail_start_rx shared_default = 0" "sh_clock shared_default = 0" "sh_log shared_default = []"
  by (simp_all add: shared_default_def)

lemma view_after: "view_of (after test_config shared_default (Suc n)) = receiving_view (Suc n)"
proof -
  let ?a = "arbiter_new fake_radio test_config shared_default"
  have v: "(started test_config)\<lparr>v_radio := shared_default\<rparr> = view_of ?a" by (simp add: view_new)
  have "view_of (loop_step fake_radio None ?a) = receiving_view 1"
    using view_start [OF v] by (simp add: receiving_view_def did_def)
  then show ?thesis using view_passes [of "receiving_view 1" "loop_step fake_radio None ?a" n]
    by (simp add: after_def funpow_Suc_right del: funpow.simps) (simp add: receiving_view_def heard_def)
qed

text \<open>\<open>it_receives_by_default\<close>\<close>

definition it_receives_by_default :: "nat \<Rightarrow> bool" where
  "it_receives_by_default n \<longleftrightarrow>
     sh_actions (a_world (after test_config shared_default (Suc n))) = Start_Rx 315000000 # replicate (Suc n) Read"

lemma it_receives_by_default_passes: "it_receives_by_default n"
  unfolding it_receives_by_default_def
  using arg_cong [OF view_after [of n], of "\<lambda>v. sh_actions (v_radio v)"] by (simp add: view_of_def receiving_view_def)

text \<open>\<open>state_changes_are_announced_but_not_repeated\<close>\<close>

definition state_changes_are_announced_but_not_repeated :: "nat \<Rightarrow> bool" where
  "state_changes_are_announced_but_not_repeated n \<longleftrightarrow>
     announcements (a_out (after test_config shared_default (Suc n))) = [Receiving]"

lemma state_changes_are_announced_but_not_repeated_passes: "state_changes_are_announced_but_not_repeated n"
  unfolding state_changes_are_announced_but_not_repeated_def
  using arg_cong [OF view_after [of n], of v_states] by (simp add: view_of_def receiving_view_def)

section \<open>Transmitting\<close>

lemma step_after_command:
  "s_rx_enabled (a_state (handle_command env cmd a)) \<Longrightarrow>
   loop_step env (Some cmd) a = loop_step env None (handle_command env cmd a)"
  by (simp add: loop_step_def loop_body_def)

lemma two_events [simp]:
  "announcements (out @ [x, y]) = announcements out @ announcements [x, y]"
  "replies (out @ [x, y]) = replies out @ replies [x, y]"
  by (simp_all add: announcements_def replies_def List.map_filter_def)

lemma announcements_two [simp]:
  "announcements [Event (event (Device_State d)), Event (event (Device_State e))] = [d, e]"
  "replies [Event m1, Event m2] = []"
  by (simp_all add: announcements_def replies_def List.map_filter_def)

lemma view_transmit:
  assumes v: "v = view_of a" "\<not> v_faulted v"
  shows "view_of (handle_command fake_radio (Cmd_Transmit req) a) =
     v\<lparr>v_radio := did Stop (did (Transmit_Action (tx_params_of (v_config v) req) (length (tx_samples (v_config v) req)))
         (if v_running v then did Stop (v_radio v) else v_radio v)),
       v_running := False, v_published := Some (if v_enabled v then Transmitting else Idle),
       v_states := v_states v @ (if v_enabled v then [Transmitting] else [Transmitting, Idle]),
       v_replies := v_replies v @ [Transmit_Reply (Inr (air_time_us req))]\<rparr>"
  using v
  by (simp add: view_of_def handle_command_def preempt_transmit_def send_def act_def Let_def publish_def device_state_of_def
      count_transmission_def faults_of_def)

definition sent_frame :: action where
  "sent_frame = Transmit_Action (tx_params_of test_config a_frame) (length (tx_samples test_config a_frame))"

text \<open>The transmission between two spells of receiving.\<close>

lemma view_transmitted:
  "view_of (loop_step fake_radio (Some (Cmd_Transmit a_frame)) (after test_config shared_default (Suc n))) =
     (receiving_view (Suc n))
       \<lparr>v_radio := shared_default\<lparr>sh_actions := Start_Rx 315000000 # replicate (Suc n) Read @ [Stop, sent_frame, Stop, Start_Rx 315000000, Read]\<rparr>,
        v_states := [Receiving, Transmitting, Receiving], v_replies := [Transmit_Reply (Inr (air_time_us a_frame))]\<rparr>"
proof -
  let ?a = "after test_config shared_default (Suc n)"
  let ?v = "receiving_view (Suc n)"
  have r: "\<not> v_faulted ?v" "v_running ?v" "v_enabled ?v" "v_config ?v = test_config" "v_states ?v = [Receiving]" "v_replies ?v = []"
    "v_frequency ?v = 315000000" "\<not> v_recording ?v" "v_published ?v = Some Receiving"
    "v_radio ?v = shared_default\<lparr>sh_actions := Start_Rx 315000000 # replicate (Suc n) Read\<rparr>"
    by (simp_all add: receiving_view_def)
  let ?b = "handle_command fake_radio (Cmd_Transmit a_frame) ?a"
  note b = view_transmit [OF view_after [symmetric] r(1), of a_frame]
  have "s_rx_enabled (a_state ?b)" using arg_cong [OF b, of v_enabled] r(3) by (simp add: view_of_def)
  then show ?thesis
    using view_start [OF b [symmetric]] r step_after_command [of fake_radio "Cmd_Transmit a_frame" ?a]
    by (simp add: did_def sent_frame_def)
qed

definition a_transmission_preempts_the_receiver_and_hands_it_back :: "nat \<Rightarrow> bool" where
  "a_transmission_preempts_the_receiver_and_hands_it_back n \<longleftrightarrow>
     (replies (a_out (loop_step fake_radio (Some (Cmd_Transmit a_frame)) (after test_config shared_default (Suc n)))) =
     [Transmit_Reply (Inr (1500 * 2 + 4150))]) \<and>
     (sh_actions (a_world (loop_step fake_radio (Some (Cmd_Transmit a_frame)) (after test_config shared_default (Suc n)))) =
     Start_Rx 315000000 # replicate (Suc n) Read @ [Stop, sent_frame, Stop, Start_Rx 315000000, Read])"

lemma a_transmission_preempts_the_receiver_and_hands_it_back_passes: "a_transmission_preempts_the_receiver_and_hands_it_back n"
  unfolding a_transmission_preempts_the_receiver_and_hands_it_back_def
proof (intro conjI)
  have "air_time_us a_frame = 1500 * 2 + 4150"
    by (simp add: air_time_us_def a_frame_def Let_def sat_add_def sat_abs_def sat_mul_def wrap_i64_def saturate_i64_def i64_min_def i64_max_def)
  then show "replies (a_out (loop_step fake_radio (Some (Cmd_Transmit a_frame)) (after test_config shared_default (Suc n)))) =
     [Transmit_Reply (Inr (1500 * 2 + 4150))]"
    using arg_cong [OF view_transmitted [of n], of v_replies] by (simp add: view_of_def)
qed (use arg_cong [OF view_transmitted [of n], of "\<lambda>v. sh_actions (v_radio v)"] in \<open>simp add: view_of_def\<close>)

definition a_transmission_does_not_flap_availability_through_idle :: "nat \<Rightarrow> bool" where
  "a_transmission_does_not_flap_availability_through_idle n \<longleftrightarrow>
     announcements (a_out (loop_step fake_radio (Some (Cmd_Transmit a_frame)) (after test_config shared_default (Suc n)))) =
     [Receiving, Transmitting, Receiving]"

lemma a_transmission_does_not_flap_availability_through_idle_passes: "a_transmission_does_not_flap_availability_through_idle n"
  unfolding a_transmission_does_not_flap_availability_through_idle_def
  using arg_cong [OF view_transmitted [of n], of v_states] by (simp add: view_of_def)

definition sent_params :: "action list \<Rightarrow> tx_params list" where
  "sent_params actions = List.map_filter (\<lambda>x. case x of Transmit_Action params samples \<Rightarrow> Some params | _ \<Rightarrow> None) actions"

definition transmit_parameters_come_from_the_request_then_the_config :: "nat \<Rightarrow> bool" where
  "transmit_parameters_come_from_the_request_then_the_config n \<longleftrightarrow>
     (let config = test_config\<lparr>cfg_txvga_db := 22\<rparr>;
          a = loop_step fake_radio (Some (Cmd_Transmit a_frame)) (arbiter_new fake_radio config shared_default);
          b = loop_step fake_radio (Some (Cmd_Transmit (a_frame\<lparr>tx_txvga_db := Some 40, tx_amp := True\<rparr>)))
                ((loop_step fake_radio None ^^ n) a);
          sent = sent_params (sh_actions (a_world b))
      in length sent = 2 \<and> tp_txvga_db (sent ! 0) = 22 \<and> \<not> tp_amp_enable (sent ! 0) \<and>
         tp_txvga_db (sent ! 1) = 40 \<and> tp_amp_enable (sent ! 1))"

lemma sent_params_simps [simp]:
  "sent_params [] = []" "sent_params (xs @ ys) = sent_params xs @ sent_params ys" "sent_params (replicate n Read) = []"
  "sent_params (Start_Rx f # xs) = sent_params xs" "sent_params (Read # xs) = sent_params xs" "sent_params (Stop # xs) = sent_params xs"
  "sent_params (Transmit_Action p k # xs) = p # sent_params xs"
  by (simp_all add: sent_params_def List.map_filter_def)

text \<open>A transmission from a view, and the receiver back on: what the radio did.\<close>

lemma view_transmit_and_resume:
  fixes req :: transmit and a :: "shared arbiter"
  assumes v: "v = view_of a" "\<not> v_faulted v" "v_enabled v" "\<not> v_recording v"
    and radio: "sh_fail_reads (v_radio v) = 0" "sh_fail_start_rx (v_radio v) = 0" "sh_rx_data (v_radio v) = []"
  defines "w \<equiv> view_of (loop_step fake_radio (Some (Cmd_Transmit req)) a)"
  shows "v_running w" "\<not> v_faulted w" "v_enabled w" "\<not> v_recording w" "v_config w = v_config v"
    "sh_fail_reads (v_radio w) = 0" "sh_fail_start_rx (v_radio w) = 0" "sh_rx_data (v_radio w) = []"
    "sent_params (sh_actions (v_radio w)) = sent_params (sh_actions (v_radio v)) @ [tx_params_of (v_config v) req]"
proof -
  let ?b = "handle_command fake_radio (Cmd_Transmit req) a"
  note b = view_transmit [OF v(1,2), of req]
  have "s_rx_enabled (a_state ?b)" using arg_cong [OF b, of v_enabled] v(3) by (simp add: view_of_def)
  then have w: "w = view_of (loop_step fake_radio None ?b)" by (simp add: w_def step_after_command)
  note c = view_start [OF b [symmetric]]
  show "v_running w" "\<not> v_faulted w" "v_enabled w" "\<not> v_recording w" "v_config w = v_config v"
    "sh_fail_reads (v_radio w) = 0" "sh_fail_start_rx (v_radio w) = 0" "sh_rx_data (v_radio w) = []"
    "sent_params (sh_actions (v_radio w)) = sent_params (sh_actions (v_radio v)) @ [tx_params_of (v_config v) req]"
    unfolding w using c v radio by simp_all
qed

lemma transmit_parameters_come_from_the_request_then_the_config_passes:
  "transmit_parameters_come_from_the_request_then_the_config n"
proof -
  let ?c = "test_config\<lparr>cfg_txvga_db := 22\<rparr>"
  define a where "a = loop_step fake_radio (Some (Cmd_Transmit a_frame)) (arbiter_new fake_radio ?c shared_default)"
  have v: "(started ?c)\<lparr>v_radio := shared_default\<rparr> = view_of (arbiter_new fake_radio ?c shared_default)" by (simp add: view_new)
  have s: "\<not> v_faulted ((started ?c)\<lparr>v_radio := shared_default\<rparr>)" "v_enabled ((started ?c)\<lparr>v_radio := shared_default\<rparr>)"
    "\<not> v_recording ((started ?c)\<lparr>v_radio := shared_default\<rparr>)" "sh_fail_reads (v_radio ((started ?c)\<lparr>v_radio := shared_default\<rparr>)) = 0"
    "sh_fail_start_rx (v_radio ((started ?c)\<lparr>v_radio := shared_default\<rparr>)) = 0" "sh_rx_data (v_radio ((started ?c)\<lparr>v_radio := shared_default\<rparr>)) = []"
    by simp_all
  note one = view_transmit_and_resume [OF v s, of a_frame, folded a_def]
  define b where "b = (loop_step fake_radio None ^^ n) a"
  have b: "(view_of a)\<lparr>v_radio := heard n (v_radio (view_of a))\<rparr> = view_of b"
    unfolding b_def by (rule view_passes [OF refl one(1,3,2,4,6,8), symmetric])
  have t: "\<not> v_faulted ((view_of a)\<lparr>v_radio := heard n (v_radio (view_of a))\<rparr>)"
    "v_enabled ((view_of a)\<lparr>v_radio := heard n (v_radio (view_of a))\<rparr>)"
    "\<not> v_recording ((view_of a)\<lparr>v_radio := heard n (v_radio (view_of a))\<rparr>)"
    "sh_fail_reads (v_radio ((view_of a)\<lparr>v_radio := heard n (v_radio (view_of a))\<rparr>)) = 0"
    "sh_fail_start_rx (v_radio ((view_of a)\<lparr>v_radio := heard n (v_radio (view_of a))\<rparr>)) = 0"
    "sh_rx_data (v_radio ((view_of a)\<lparr>v_radio := heard n (v_radio (view_of a))\<rparr>)) = []"
    using one by simp_all
  note two = view_transmit_and_resume(9) [OF b t, of "a_frame\<lparr>tx_txvga_db := Some 40, tx_amp := True\<rparr>"]
  have "sh_actions (a_world x) = sh_actions (v_radio (view_of x))" for x by (simp add: view_of_def)
  then show ?thesis
    unfolding transmit_parameters_come_from_the_request_then_the_config_def Let_def a_def [symmetric] b_def [symmetric]
    using one(5,9) two by (simp add: tx_params_of_def a_frame_def)
qed

section \<open>Configuring the receiver\<close>

lemma view_disable:
  assumes v: "v = view_of a"
  shows "view_of (handle_command fake_radio (Cmd_Configure_Rx None False) a) =
     v\<lparr>v_radio := (if v_running v then did Stop (v_radio v) else v_radio v), v_running := False, v_enabled := False, v_faulted := False,
       v_published := Some Idle, v_states := v_states v @ (if v_published v = Some Idle then [] else [Idle]),
       v_replies := v_replies v @ [Configure_Reply (Inr ())]\<rparr>"
  using v by (simp add: view_of_def handle_command_def configure_def act_def Let_def publish_def device_state_of_def faults_of_def)

text \<open>A disabled receiver leaves the radio alone, however often the inbox is looked at, and still
  transmits.\<close>

definition disabling_the_receiver_stops_it_and_parks_the_thread :: "nat \<Rightarrow> nat \<Rightarrow> bool" where
  "disabling_the_receiver_stops_it_and_parks_the_thread n m \<longleftrightarrow>
     (let a = loop_step fake_radio (Some (Cmd_Configure_Rx None False)) (after test_config shared_default (Suc n))
      in (loop_step fake_radio None ^^ m) a = a \<and>
         \<not> rs_enabled (st_rx (status_of a)) \<and>
         replies (a_out (loop_step fake_radio (Some (Cmd_Transmit a_frame)) a)) = [Configure_Reply (Inr ()), Transmit_Reply (Inr (air_time_us a_frame))])"

lemma disabling_the_receiver_stops_it_and_parks_the_thread_passes: "disabling_the_receiver_stops_it_and_parks_the_thread n m"
proof -
  define a where "a = loop_step fake_radio (Some (Cmd_Configure_Rx None False)) (after test_config shared_default (Suc n))"
  let ?b = "handle_command fake_radio (Cmd_Configure_Rx None False) (after test_config shared_default (Suc n))"
  note b = view_disable [OF view_after [symmetric], of n]
  have off: "\<not> s_rx_enabled (a_state ?b)" "\<not> s_faulted (a_state ?b)"
    using arg_cong [OF b, of v_enabled] arg_cong [OF b, of v_faulted] by (simp_all add: view_of_def)
  then have a: "a = ?b" by (simp add: a_def loop_step_def loop_body_def receiving_def)
  have "loop_step fake_radio None a = a" using off a by (simp add: loop_step_def)
  then have one: "(loop_step fake_radio None ^^ m) a = a" by (induction m) simp_all
  have two: "\<not> rs_enabled (st_rx (status_of a))" using off a by (simp add: status_of_def Let_def)
  have nf: "\<not> v_faulted (view_of a)" using off a by (simp add: view_of_def)
  note t = view_transmit [OF refl nf, of a_frame]
  have "\<not> s_rx_enabled (a_state (handle_command fake_radio (Cmd_Transmit a_frame) a))" "\<not> s_faulted (a_state (handle_command fake_radio (Cmd_Transmit a_frame) a))"
    using arg_cong [OF t, of v_enabled] arg_cong [OF t, of v_faulted] off a by (simp_all add: view_of_def)
  then have "loop_step fake_radio (Some (Cmd_Transmit a_frame)) a = handle_command fake_radio (Cmd_Transmit a_frame) a"
    by (simp add: loop_step_def loop_body_def receiving_def)
  moreover have "v_replies (view_of a) = [Configure_Reply (Inr ())]" unfolding a b by (simp add: receiving_view_def)
  ultimately have three: "replies (a_out (loop_step fake_radio (Some (Cmd_Transmit a_frame)) a)) =
      [Configure_Reply (Inr ()), Transmit_Reply (Inr (air_time_us a_frame))]"
    using arg_cong [OF t, of v_replies] by (simp add: view_of_def)
  show ?thesis unfolding disabling_the_receiver_stops_it_and_parks_the_thread_def Let_def a_def [symmetric] using one two three by blast
qed

definition retuning_restarts_the_receiver_on_the_new_frequency :: "nat \<Rightarrow> bool" where
  "retuning_restarts_the_receiver_on_the_new_frequency n \<longleftrightarrow>
     (let a = handle_command fake_radio (Cmd_Configure_Rx (Some 433920000) True) (after test_config shared_default (Suc n))
      in sh_actions (a_world a) = Start_Rx 315000000 # replicate (Suc n) Read @ [Stop, Start_Rx 433920000] \<and>
         rs_frequency (st_rx (status_of a)) = 433920000 \<and>
         st_state (status_of a) = Receiving)"

lemma retuning_restarts_the_receiver_on_the_new_frequency_passes: "retuning_restarts_the_receiver_on_the_new_frequency n"
proof -
  define a where "a = handle_command fake_radio (Cmd_Configure_Rx (Some 433920000) True) (after test_config shared_default (Suc n))"
  let ?b = "after test_config shared_default (Suc n)"
  have v: "a_world ?b = shared_default\<lparr>sh_actions := Start_Rx 315000000 # replicate (Suc n) Read\<rparr>" "s_rx_running (a_state ?b)"
    using arg_cong [OF view_after [of n], of v_radio] arg_cong [OF view_after [of n], of v_running]
    by (simp_all add: view_of_def receiving_view_def)
  have s: "fake_start_rx 433920000 (did Stop (a_world ?b)) = (Inr (), did (Start_Rx 433920000) (did Stop (a_world ?b)))"
    using v(1) by (simp add: fake_start_rx_def Let_def)
  have one: "sh_actions (a_world a) = Start_Rx 315000000 # replicate (Suc n) Read @ [Stop, Start_Rx 433920000]"
    and two: "rs_frequency (st_rx (status_of a)) = 433920000" and three: "st_state (status_of a) = Receiving"
    using v s by (simp_all add: a_def handle_command_def configure_def start_receiver_def act_def Let_def status_of_def device_state_of_def)
  show ?thesis unfolding retuning_restarts_the_receiver_on_the_new_frequency_def Let_def a_def [symmetric] using one two three by blast
qed

definition enabling_a_receiver_that_cannot_start_reports_the_failure :: "bool" where
  "enabling_a_receiver_that_cannot_start_reports_the_failure \<longleftrightarrow>
     replies (a_out (handle_command fake_radio (Cmd_Configure_Rx None True)
     (arbiter_new fake_radio (test_config\<lparr>cfg_rx_enabled := False\<rparr>) (shared_default\<lparr>sh_fail_start_rx := 1\<rparr>)))) =
   [Configure_Reply (Inl (Message ''radio is not there'' []))]"

lemma enabling_a_receiver_that_cannot_start_reports_the_failure_passes: "enabling_a_receiver_that_cannot_start_reports_the_failure"
  unfolding enabling_a_receiver_that_cannot_start_reports_the_failure_def
  by (simp add: handle_command_def configure_def start_receiver_def act_def Let_def arbiter_new_def state_new_def
      fake_start_rx_def fault_def publish_def device_state_of_def enter_fault_def replies_def)

section \<open>Failing and recovering\<close>

text \<open>A read that fails: \<open>a_failing_radio_faults_and_recovers\<close>, its first half. The second is that
  of \<open>working_radio_comes_back\<close> on this state.\<close>

definition failed_once :: "shared arbiter" where
  "failed_once = after test_config (shared_default\<lparr>sh_fail_reads := 1\<rparr>) 1"

lemma failed_once_is:
  "announcements (a_out failed_once) = [Receiving, Faulted]" "c_device_faults (s_counters (a_state failed_once)) = 1"
  "s_faulted (a_state failed_once)" "s_rx_enabled (a_state failed_once)" "s_rx_frequency (a_state failed_once) = 315000000"
  "sh_fail_reads (a_world failed_once) = 0" "sh_fail_start_rx (a_world failed_once) = 0" "sh_rx_data (a_world failed_once) = []"
  "c_rx_frames (s_counters (a_state failed_once)) = 0" "\<not> s_rx_running (a_state failed_once)" "a_recorder failed_once = None"
  "s_published (a_state failed_once) = Some Faulted"
  by (simp_all add: failed_once_def after_def arbiter_new_def state_new_def loop_step_def loop_body_def receiving_def pump_def
      receive_def act_def fake_start_rx_def fake_read_def Let_def fault_def publish_def device_state_of_def enter_fault_def
      counters_default_def announcements_def List.map_filter_def)

text \<open>A hotplug notice, taken while faulted, and the pass after it.\<close>

lemma view_arrival:
  assumes v: "v = view_of a" "v_faulted v" "v_enabled v" "\<not> v_running v"
  shows "view_of (loop_step fake_radio (Some Cmd_Device_Arrived) a) =
     v\<lparr>v_radio := did Stop (v_radio v), v_faulted := False, v_published := Some Idle,
       v_states := v_states v @ (if v_published v = Some Idle then [] else [Idle])\<rparr>"
  using v
  by (simp add: view_of_def loop_step_def loop_body_def handle_command_def act_def retry_def Let_def publish_def
      device_state_of_def faults_of_def replies_def)

text \<open>The receiver that is wanted on a radio with nothing on the air, whether it faults or not.\<close>

definition wanted :: "shared arbiter \<Rightarrow> bool" where
  "wanted a \<longleftrightarrow> s_rx_enabled (a_state a) \<and> a_recorder a = None \<and> sh_fail_start_rx (a_world a) = 0 \<and> sh_rx_data (a_world a) = [] \<and>
     (s_faulted (a_state a) \<longrightarrow> \<not> s_rx_running (a_state a))"

lemma wanted_fault: "wanted a \<Longrightarrow> wanted (fault fake_radio a)"
  by (simp add: wanted_def fault_def publish_def device_state_of_def enter_fault_def back_off_def Let_def act_def)

lemma wanted_receive:
  assumes "wanted a" "\<not> s_faulted (a_state a)"
  shows "wanted (receive fake_radio a)"
proof (cases "sh_fail_reads (a_world a) = 0")
  case True
  have w: "wanted x \<longleftrightarrow> v_enabled (view_of x) \<and> \<not> v_recording (view_of x) \<and> sh_fail_start_rx (v_radio (view_of x)) = 0 \<and>
      sh_rx_data (v_radio (view_of x)) = [] \<and> (v_faulted (view_of x) \<longrightarrow> \<not> v_running (view_of x))" for x
    by (simp add: wanted_def view_of_def)
  have "a_recorder a = None" using assms(1) by (simp add: wanted_def)
  from view_receive [OF this True] show ?thesis using assms unfolding w by (simp add: view_of_def)
next
  case False
  let ?w = "(did Read (a_world a))\<lparr>sh_fail_reads := sh_fail_reads (a_world a) - 1\<rparr>"
  have "receive fake_radio a = fault fake_radio (a\<lparr>a_world := ?w\<rparr>)"
    using False by (simp add: receive_def act_def fake_read_def Let_def)
  moreover have "wanted (a\<lparr>a_world := ?w\<rparr>)" using assms by (simp add: wanted_def)
  ultimately show ?thesis using wanted_fault by simp
qed

lemma wanted_pass: "wanted a \<Longrightarrow> wanted (loop_step fake_radio None a)"
proof -
  assume a: "wanted a"
  show ?thesis
  proof (cases "s_faulted (a_state a)")
    case True
    then show ?thesis using a
      by (simp add: wanted_def loop_step_def loop_body_def retry_def Let_def act_def publish_def device_state_of_def)
  next
    case False
    let ?b = "publish (upd (\<lambda>s. s\<lparr>s_rx_running := True\<rparr>) (a\<lparr>a_world := did (Start_Rx (s_rx_frequency (a_state a))) (a_world a)\<rparr>))"
    have "wanted ?b" "\<not> s_faulted (a_state ?b)"
      using a False by (simp_all add: wanted_def publish_def Let_def device_state_of_def)
    from wanted_receive [OF this] wanted_receive [OF a False] show ?thesis
      using a False by (simp add: wanted_def loop_step_def loop_body_def receiving_def pump_def act_def fake_start_rx_def Let_def)
  qed
qed

definition a_hotplug_arrival_cuts_short_the_backoff :: "nat \<Rightarrow> bool" where
  "a_hotplug_arrival_cuts_short_the_backoff n \<longleftrightarrow>
     (let a = after test_config (shared_default\<lparr>sh_fail_reads := 2 ^ 64 - 1\<rparr>) n;
          b = a\<lparr>a_world := (a_world a)\<lparr>sh_fail_reads := 0\<rparr>\<rparr>;
          c = loop_step fake_radio None (loop_step fake_radio (Some Cmd_Device_Arrived) b)
      in st_state (status_of a) = Faulted \<longrightarrow>
           last_announced (a_out c) = Some Receiving \<and> sh_clock (a_world c) = sh_clock (a_world a))"

lemma a_hotplug_arrival_cuts_short_the_backoff_passes: "a_hotplug_arrival_cuts_short_the_backoff n"
proof -
  define a where "a = after test_config (shared_default\<lparr>sh_fail_reads := 2 ^ 64 - 1\<rparr>) n"
  define b where "b = a\<lparr>a_world := (a_world a)\<lparr>sh_fail_reads := 0\<rparr>\<rparr>"
  have "wanted (arbiter_new fake_radio test_config (shared_default\<lparr>sh_fail_reads := k\<rparr>))" for k
    by (simp add: wanted_def arbiter_new_def state_new_def)
  then have w: "wanted a" unfolding a_def after_def by (induction n) (auto intro: wanted_pass)
  have "last_announced (a_out c) = Some Receiving" "sh_clock (a_world c) = sh_clock (a_world a)"
    if f: "s_faulted (a_state a)" and c: "c = loop_step fake_radio None (loop_step fake_radio (Some Cmd_Device_Arrived) b)" for c
  proof -
    let ?v = "view_of b"
    have v: "v_faulted ?v" "v_enabled ?v" "\<not> v_running ?v" "\<not> v_recording ?v"
      "sh_fail_reads (v_radio ?v) = 0" "sh_fail_start_rx (v_radio ?v) = 0" "sh_rx_data (v_radio ?v) = []"
      "sh_clock (v_radio ?v) = sh_clock (a_world a)"
      using w f by (simp_all add: b_def view_of_def wanted_def)
    note r = view_start [OF view_arrival [OF refl v(1-3), symmetric]]
    show "last_announced (a_out c) = Some Receiving"
      using arg_cong [OF r, of v_states] v unfolding c by (simp add: view_of_def last_announced_def)
    show "sh_clock (a_world c) = sh_clock (a_world a)"
      using arg_cong [OF r, of "\<lambda>v. sh_clock (v_radio v)"] v unfolding c by (simp add: view_of_def)
  qed
  moreover have "st_state (status_of a) = Faulted \<longrightarrow> s_faulted (a_state a)"
    by (simp add: status_of_def Let_def device_state_of_def)
  ultimately show ?thesis
    unfolding a_hotplug_arrival_cuts_short_the_backoff_def Let_def a_def [symmetric] b_def [symmetric] by blast
qed

section \<open>The clock\<close>

lemma fake_keeps_time: "keeps_time fake_radio sh_clock"
  by (auto simp: keeps_time_def fake_start_rx_def fake_read_def Let_def fake_radio_def split: list.split)

lemma fake_works: "works fake_radio (\<lambda>s. sh_fail_reads s = 0 \<and> sh_fail_start_rx s = 0)"
  by (auto simp: works_def fake_start_rx_def fake_read_def Let_def split: list.split)

text \<open>A radio that comes back by itself.\<close>

theorem working_radio_comes_back_witness:
  "\<exists>n \<le> 603. announcements (a_out failed_once) = [Receiving, Faulted] \<and>
     last_announced (a_out ((loop_step fake_radio None ^^ n) failed_once)) = Some Receiving"
proof -
  have "reachable fake_radio test_config (shared_default\<lparr>sh_fail_reads := 1\<rparr>) failed_once"
    unfolding failed_once_def after_def by (intro reachable_passes reachable.start)
  from working_radio_comes_back [OF fake_keeps_time fake_works _ this failed_once_is(3,4)] show ?thesis
    using failed_once_is(1,6,7) by blast
qed

text \<open>\<open>a_radio_that_answers_but_cannot_stream_is_backed_off_rather_than_hammered\<close>: the fake radio
  with every read failing.\<close>

definition deaf_radio :: "shared env" where
  "deaf_radio = fake_radio\<lparr>e_read := (\<lambda>s. (Inl (Message ''USB went away'' []), did Read s))\<rparr>"

lemma deaf_keeps_time: "keeps_time deaf_radio sh_clock"
  using fake_keeps_time by (simp add: keeps_time_def deaf_radio_def)

definition a_radio_that_answers_but_cannot_stream_is_backed_off_rather_than_hammered :: "nat \<Rightarrow> bool" where
  "a_radio_that_answers_but_cannot_stream_is_backed_off_rather_than_hammered n \<longleftrightarrow>
     (let a = (loop_step deaf_radio None ^^ Suc n) (arbiter_new deaf_radio test_config shared_default);
          faults = c_device_faults (st_counters (status_of a))
      in sh_clock (a_world a) \<le> 3 * 10 ^ 9 \<longrightarrow> 1 \<le> faults \<and> faults \<le> 3 \<and> st_state (status_of a) = Faulted)"

lemma a_radio_that_answers_but_cannot_stream_is_backed_off_rather_than_hammered_passes:
  "a_radio_that_answers_but_cannot_stream_is_backed_off_rather_than_hammered n"
proof -
  let ?a = "arbiter_new deaf_radio test_config shared_default"
  let ?waits = "\<lambda>a. s_faulted (a_state a) \<and> s_rx_enabled (a_state a) \<and> c_device_faults (s_counters (a_state a)) = 1 \<and>
      s_retry_at (a_state a) = 4 * 10 ^ 9"
  have e: "e_read deaf_radio s = (Inl (Message ''USB went away'' []), did Read s)" "e_start_rx deaf_radio = fake_start_rx"
    "e_now deaf_radio s = (sh_clock s, s)" "e_sleep deaf_radio k s = s\<lparr>sh_clock := sh_clock s + k\<rparr>" "e_describe deaf_radio s = (Inr ''fake HackRF'', s)" for s k
    by (simp_all add: deaf_radio_def)
  have first: "?waits (loop_step deaf_radio None ?a)"
    by (simp add: arbiter_new_def state_new_def e loop_step_def loop_body_def receiving_def pump_def receive_def act_def fake_start_rx_def
        Let_def fault_def publish_def device_state_of_def enter_fault_def back_off_def counters_default_def fault_backoff_def max_fault_backoff_def)
  have "4 * 10 ^ 9 \<le> sh_clock (a_world ((loop_step deaf_radio None ^^ Suc n) ?a)) \<or> ?waits ((loop_step deaf_radio None ^^ Suc n) ?a)"
  proof (induction n)
    case 0
    then show ?case using first by simp
  next
    case (Suc n)
    let ?b = "(loop_step deaf_radio None ^^ Suc n) ?a"
    have mono: "sh_clock (a_world ?b) \<le> sh_clock (a_world (loop_step deaf_radio None ?b))"
      using ahead_step [OF deaf_keeps_time, of ?b None] by (simp add: ahead_def)
    have "?waits (loop_step deaf_radio None ?b)" if "?waits ?b" "sh_clock (a_world ?b) < 4 * 10 ^ 9"
      using that by (simp add: loop_step_def loop_body_def retry_def act_def e Let_def)
    then show ?case using Suc mono by (simp only: funpow.simps o_def) linarith
  qed
  then show ?thesis
    by (auto simp: a_radio_that_answers_but_cannot_stream_is_backed_off_rather_than_hammered_def status_of_def device_state_of_def Let_def)
qed

theorem broken_radio_is_left_alone_witness:
  "\<exists>a. a = foldl (\<lambda>a p. loop_step deaf_radio p a) (arbiter_new deaf_radio test_config shared_default) [None, Some Cmd_Status, None] \<and>
     sh_clock (a_world a) - 0 \<ge> (\<Sum>i<c_device_faults (s_counters (a_state a)) - 1. min (4 * 10 ^ 9 * 2 ^ i) (60 * 10 ^ 9))"
proof -
  have k: "keeps_time deaf_radio sh_clock" using fake_keeps_time by (simp add: keeps_time_def deaf_radio_def)
  have n: "never_streams deaf_radio" by (simp add: never_streams_def deaf_radio_def)
  have "list_all only_asks [None, Some Cmd_Status, None]" by (simp add: only_asks_def)
  from broken_radio_is_left_alone [OF k n this refl, of test_config shared_default] show ?thesis by simp
qed

end
