(* ===== verification/Ook_Tests.thy ===== *)
theory Ook_Tests
  imports Ook_Properties
begin

text \<open>
  The unit tests of \<open>ook.rs\<close> about levels and timings; those that synthesize a signal are in
  Signal_Tests, Detector_Tests and Noise_Test.
\<close>

definition a_capture_that_is_mostly_carrier_collapses_the_levels :: bool where
  "a_capture_that_is_mostly_carrier_collapses_the_levels \<longleftrightarrow>
     (let l = levels_of (replicate 2000 4 @ replicate 8000 40) (Fin (1/2))
      in noise_floor l = signal l \<and> signal l - noise_floor l < 10)"

lemma levels_at:
  assumes "sorted mag" "\<And>m. m \<in> set mag \<Longrightarrow> m \<le> 257" "mag \<noteq> []" "length mag < 2 ^ 50"
  shows "noise_floor (levels_of mag fr) = mag ! (quantile_rank (length mag) p_median - 1)"
    and "signal (levels_of mag fr) = mag ! (quantile_rank (length mag) p_signal - 1)"
proof -
  have "map clamp_mag mag = mag" using assms(2) by (intro map_idI) (simp add: clamp_mag_def mag_levels_def)
  then have s: "sort (map clamp_mag mag) = mag" using assms(1) by (simp add: sorted_sort_id)
  have n: "1 \<le> length mag" using assms(3) by (cases mag) auto
  note a = quantile_rank_in_range [OF _ _ n assms(4), of "1/2", folded p_median_def, simplified]
    and b = quantile_rank_in_range [OF _ _ n assms(4), of "999/1000", folded p_signal_def, simplified]
  show "noise_floor (levels_of mag fr) = mag ! (quantile_rank (length mag) p_median - 1)"
    "signal (levels_of mag fr) = mag ! (quantile_rank (length mag) p_signal - 1)"
    using hist_percentile_sorted [OF hist_ok_of [of mag], of p_median] hist_percentile_sorted [OF hist_ok_of [of mag], of p_signal] a b
    by (simp_all add: levels_of_hist hist_levels_def Let_def s)
qed

lemma rank_near:
  assumes "1/4 \<le> q" "q \<le> 1" "1 \<le> n" "n < 2 ^ 50"
  shows "of_nat n * q - 1/2 \<le> of_nat (quantile_rank n (to_f64 q))" "of_nat (quantile_rank n (to_f64 q)) \<le> of_nat n * q + 3/2"
proof -
  obtain y where y: "quantile_rank n (to_f64 q) = nat \<lceil>y\<rceil>" "\<bar>y - of_nat n * q\<bar> \<le> of_nat n * q / 2 ^ 51"
    using quantile_rank_bounds [OF assms] by blast
  have n: "(of_nat n :: rat) < 2 ^ 50" "1 \<le> (of_nat n :: rat)" using assms(3,4) by (simp_all add: of_nat_less_numeral_power_cancel_iff)
  have "of_nat n * q \<le> 2 ^ 50 * 1" using n assms by (intro mult_mono) simp_all
  then have "\<bar>y - of_nat n * q\<bar> \<le> 1/2" using y(2) by (simp add: abs_le_iff)
  then have e: "y - of_nat n * q \<le> 1/2" "of_nat n * q - y \<le> 1/2" by (simp_all only: abs_le_iff) simp_all
  have "1 * (1/4) \<le> of_nat n * q" using n assms by (intro mult_mono) simp_all
  then have "- 1 < y" using e by linarith
  then have "0 \<le> \<lceil>y\<rceil>" by (simp add: le_ceiling_iff)
  then have r: "(of_nat (quantile_rank n (to_f64 q)) :: rat) = of_int \<lceil>y\<rceil>" by (simp add: y(1))
  have "y \<le> of_int \<lceil>y\<rceil>" "of_int \<lceil>y\<rceil> < y + 1" by (simp, linarith)
  then show "of_nat n * q - 1/2 \<le> of_nat (quantile_rank n (to_f64 q))" "of_nat (quantile_rank n (to_f64 q)) \<le> of_nat n * q + 3/2"
    using e unfolding r by linarith+
qed

lemma a_capture_that_is_mostly_carrier_collapses_the_levels_passes:
  "a_capture_that_is_mostly_carrier_collapses_the_levels"
proof -
  let ?mag = "replicate 2000 (4::nat) @ replicate 8000 40"
  have s: "sorted ?mag" "\<And>m. m \<in> set ?mag \<Longrightarrow> m \<le> 257" "?mag \<noteq> []" "length ?mag = 10000" "length ?mag < 2 ^ 50"
    by (auto simp: sorted_append)
  have "(4999::rat) \<le> of_nat (quantile_rank 10000 p_median)" "of_nat (quantile_rank 10000 p_median) \<le> (5002::rat)"
    "(9989::rat) \<le> of_nat (quantile_rank 10000 p_signal)" "of_nat (quantile_rank 10000 p_signal) \<le> (9992::rat)"
    using rank_near [of "1/2" 10000] rank_near [of "999/1000" 10000] by (simp_all add: p_median_def p_signal_def)
  then have r: "4999 \<le> quantile_rank 10000 p_median" "quantile_rank 10000 p_median \<le> 5002"
    "9989 \<le> quantile_rank 10000 p_signal" "quantile_rank 10000 p_signal \<le> 9992" by simp_all
  have "?mag ! i = 40" if "2000 \<le> i" "i < 10000" for i using that by (simp add: nth_append)
  moreover have "noise_floor (levels_of ?mag (Fin (1/2))) = ?mag ! (quantile_rank 10000 p_median - 1)"
    "signal (levels_of ?mag (Fin (1/2))) = ?mag ! (quantile_rank 10000 p_signal - 1)"
    using levels_at [OF s(1-3,5), of "Fin (1/2)"] by (simp_all only: s(4))
  ultimately have "noise_floor (levels_of ?mag (Fin (1/2))) = 40" "signal (levels_of ?mag (Fin (1/2))) = 40"
    using r by simp_all
  then show ?thesis unfolding a_capture_that_is_mostly_carrier_collapses_the_levels_def Let_def by simp
qed

definition a_lone_spike_does_not_capture_the_threshold :: bool where
  "a_lone_spike_does_not_capture_the_threshold \<longleftrightarrow>
     (let l = levels_of (replicate 9500 4 @ replicate 500 40 @ [250]) (Fin (1/2))
      in noise_floor l = 4 \<and> signal l = 40 \<and> 4 \<le> threshold l \<and> threshold l < 40)"

lemma a_lone_spike_does_not_capture_the_threshold_passes: "a_lone_spike_does_not_capture_the_threshold"
proof -
  let ?mag = "replicate 9500 (4::nat) @ replicate 500 40 @ [250]"
  have s: "sorted ?mag" "\<And>m. m \<in> set ?mag \<Longrightarrow> m \<le> 257" "?mag \<noteq> []" "length ?mag = 10001" "length ?mag < 2 ^ 50"
    by (auto simp: sorted_append)
  have "(4999::rat) \<le> of_nat (quantile_rank 10001 p_median)" "of_nat (quantile_rank 10001 p_median) \<le> (5003::rat)"
    "(9990::rat) \<le> of_nat (quantile_rank 10001 p_signal)" "of_nat (quantile_rank 10001 p_signal) < (9993::rat)"
    using rank_near [of "1/2" 10001] rank_near [of "999/1000" 10001] by (simp_all add: p_median_def p_signal_def)
  then have r: "4999 \<le> quantile_rank 10001 p_median" "quantile_rank 10001 p_median \<le> 5003"
    "9990 \<le> quantile_rank 10001 p_signal" "quantile_rank 10001 p_signal < 9993" by simp_all
  have "?mag ! i = 4" if "i < 9500" for i using that by (simp add: nth_append)
  moreover have "?mag ! i = 40" if "9500 \<le> i" "i < 10000" for i using that by (simp add: nth_append)
  moreover have "noise_floor (levels_of ?mag (Fin (1/2))) = ?mag ! (quantile_rank 10001 p_median - 1)"
    "signal (levels_of ?mag (Fin (1/2))) = ?mag ! (quantile_rank 10001 p_signal - 1)"
    using levels_at [OF s(1-3,5), of "Fin (1/2)"] by (simp_all only: s(4))
  ultimately have f: "noise_floor (levels_of ?mag (Fin (1/2))) = 4" "signal (levels_of ?mag (Fin (1/2))) = 40"
    using r by simp_all
  have t: "threshold (levels_of ?mag (Fin (1/2))) =
      u16_sat_add (noise_floor (levels_of ?mag (Fin (1/2)))) (f_as_u16 (f_round (f_mul
        (f64_of_nat (signal (levels_of ?mag (Fin (1/2))) - noise_floor (levels_of ?mag (Fin (1/2))))) (Fin (1/2)))))"
    by (simp add: levels_of_def hist_levels_def Let_def)
  have "f_mul (f64_of_nat 36) (Fin (1/2)) = Fin 18" using to_f64_of_int [of 18] by (simp add: f64_of_nat_small)
  moreover have "f_as_u16 (f_round (Fin 18)) = 18" using round_away_of_int [of 18] f_trunc_of_int [of 18] by (simp add: f_as_u16_def u16_max_def)
  ultimately have "threshold (levels_of ?mag (Fin (1/2))) = 22" unfolding t f by (simp add: u16_sat_add_def u16_max_def)
  then show ?thesis using f unfolding a_lone_spike_does_not_capture_the_threshold_def Let_def by simp
qed

definition identical_repeats_report_zero_deviation :: bool where
  "identical_repeats_report_zero_deviation \<longleftrightarrow>
     compare_bursts [[500, -500, 500], [500, -500, 500]] = Some \<lparr>same_edge_count = True, max_deviation_us = 0\<rparr>"

lemma identical_repeats_report_zero_deviation_passes: "identical_repeats_report_zero_deviation"
  unfolding identical_repeats_report_zero_deviation_def by (simp add: compare_bursts_def agreement_step_def)

definition differing_repeats_are_reported :: bool where
  "differing_repeats_are_reported \<longleftrightarrow>
     compare_bursts [[500, -500, 500], [500, -500, 620]] = Some \<lparr>same_edge_count = True, max_deviation_us = 120\<rparr>"

lemma differing_repeats_are_reported_passes: "differing_repeats_are_reported"
  unfolding differing_repeats_are_reported_def by (simp add: compare_bursts_def agreement_step_def)

definition negative_widths_bucket_downwards :: bool where
  "negative_widths_bucket_downwards \<longleftrightarrow>
     (case width_histogram [-510, -500, 500, 510] 50 of
        None \<Rightarrow> False
      | Some hist \<Rightarrow> hist (-550) = Some 1 \<and> hist (-500) = Some 1 \<and> hist 500 = Some 2)"

lemma negative_widths_bucket_downwards_passes: "negative_widths_bucket_downwards"
  unfolding negative_widths_bucket_downwards_def by (simp add: width_histogram_def width_step_def div_euclid_def Let_def)

end
