(* ===== verification/Signal_Tests.thy ===== *)
theory Signal_Tests
  imports Ook_Tests Ook_Examples
begin

text \<open>
  The unit tests of \<open>ook.rs\<close> that synthesize a signal and slice it again, offline.
\<close>

definition RATE :: nat where "RATE = 2000000"

definition tests_demod :: "byte list \<Rightarrow> nat \<Rightarrow> int list" where
  "tests_demod iq min_us =
     (let mag = envelope iq;
          levels = levels_of mag (Fin (1/2));
          rs = runs mag (threshold levels) RATE min_us
      in map (\<lambda>r. if run_on r then run_us r else - run_us r) rs)"

definition timings_survive_a_synthesize_demodulate_round_trip :: bool where
  "timings_survive_a_synthesize_demodulate_round_trip \<longleftrightarrow>
     (let original = [500, -500, 250, -750, 1000, -500, 250];
          iq = synthesize original RATE 100
      in tests_demod iq 40 = original)"

definition glitches_are_folded_without_breaking_alternation :: bool where
  "glitches_are_folded_without_breaking_alternation \<longleftrightarrow>
     (let iq = synthesize [500, -20, 500, -500, 500] RATE 100;
          timings = tests_demod iq 40
      in timings = [1020, -500, 500] \<and>
         list_all (\<lambda>(a, b). sgn a \<noteq> sgn b) (zip timings (tl timings)))"

definition bursts_split_on_long_gaps_and_drop_the_gap_itself :: bool where
  "bursts_split_on_long_gaps_and_drop_the_gap_itself \<longleftrightarrow>
     (let frame = [500, -500, 500];
          timings = frame @ [-50000] @ frame;
          iq = synthesize timings RATE 100;
          mag = envelope iq;
          levels = levels_of mag (Fin (1/2));
          bursts = split_bursts (runs mag (threshold levels) RATE 40) 10000 2
      in bursts = [frame, frame])"

definition a_trailing_space_is_unobservable_so_bursts_end_on_a_mark :: bool where
  "a_trailing_space_is_unobservable_so_bursts_end_on_a_mark \<longleftrightarrow>
     (let frame = [500, -500, 500, -500];
          timings = frame @ [-50000] @ frame;
          iq = synthesize timings RATE 100;
          mag = envelope iq;
          levels = levels_of mag (Fin (1/2));
          bursts = split_bursts (runs mag (threshold levels) RATE 40) 10000 2
      in length bursts = 2 \<and> bursts ! 0 = [500, -500, 500] \<and> last (bursts ! 0) = 500)"

section \<open>The threshold of a keyed carrier\<close>

text \<open>Whatever is keyed at amplitude 100, for more than a thousandth of the time, is sliced
  above the silence and not above the carrier.\<close>

lemma two_level_percentile:
  assumes mag: "set mag \<subseteq> {0, 100}" "length mag < 2 ^ 50"
    and marks: "length mag < 1000 * (count_list mag 100) - 500"
  shows "hist_percentile (hist_of mag) p_signal = 100"
    and "hist_percentile (hist_of mag) p_median \<in> {0, 100}"
proof -
  let ?xs = "map clamp_mag mag" and ?n = "length mag"
  have xs: "?xs = mag" using mag(1) by (intro map_idI) (auto simp: clamp_mag_def mag_levels_def)
  have ne: "1 \<le> ?n" using marks by (cases mag) auto
  note r = quantile_rank_in_range [OF _ _ ne mag(2), of "999/1000", folded p_signal_def, simplified]
    and m = quantile_rank_in_range [OF _ _ ne mag(2), of "1/2", folded p_median_def, simplified]
  have p: "hist_percentile (hist_of mag) p_signal = sort mag ! (quantile_rank ?n p_signal - 1)"
    "hist_percentile (hist_of mag) p_median = sort mag ! (quantile_rank ?n p_median - 1)"
    using hist_percentile_sorted [OF hist_ok_of [of mag], of p_median] hist_percentile_sorted [OF hist_ok_of [of mag], of p_signal] r m
    by (simp_all add: xs)
  have in_set: "sort mag ! i \<in> {0, 100}" if "i < ?n" for i
    using nth_mem [of i "sort mag"] that mag(1) by auto
  then show "hist_percentile (hist_of mag) p_median \<in> {0, 100}" using m unfolding p by simp
  have z: "length (filter (\<lambda>x. x < 100) mag) + count_list mag 100 = ?n"
    using mag(1) by (induction mag) auto
  have "of_nat ?n * (999/1000) - 1/2 \<le> (of_nat (quantile_rank ?n p_signal) :: rat)"
    using rank_near(1) [of "999/1000" ?n] ne mag(2) by (simp add: p_signal_def)
  moreover have "(of_nat ?n :: rat) < 1000 * of_nat (count_list mag 100) - 500"
  proof -
    have "?n + 500 < 1000 * count_list mag 100" using marks by linarith
    then have "(of_nat (?n + 500) :: rat) < of_nat (1000 * count_list mag 100)" by (simp only: of_nat_less_iff)
    then show ?thesis by simp
  qed
  moreover have "(of_nat (length (filter (\<lambda>x. x < 100) mag)) :: rat) = of_nat ?n - of_nat (count_list mag 100)"
    using z by (metis add_diff_cancel_right' of_nat_add)
  ultimately have "(of_nat (length (filter (\<lambda>x. x < 100) mag)) :: rat) < of_nat (quantile_rank ?n p_signal)" by simp
  then have "length (filter (\<lambda>x. x < 100) (sort mag)) \<le> quantile_rank ?n p_signal - 1"
    by (simp add: length_filter_sort)
  then have "\<not> sort mag ! (quantile_rank ?n p_signal - 1) < 100"
    using sorted_nth_less_iff [OF sorted_sort [of mag], of "quantile_rank ?n p_signal - 1" 100] r by simp
  then show "hist_percentile (hist_of mag) p_signal = 100" using in_set [of "quantile_rank ?n p_signal - 1"] r unfolding p by auto
qed

lemma half_of_carrier: "u16_sat_add 0 (f_as_u16 (f_round (f_mul (f64_of_nat 100) (Fin (1/2))))) = 50"
proof -
  have "f_mul (f64_of_nat 100) (Fin (1/2)) = Fin 50" using to_f64_of_int [of 50] by (simp add: f64_of_nat_small)
  moreover have "f_as_u16 (f_round (Fin 50)) = 50"
    using round_away_of_int [of 50] f_trunc_of_int [of 50] by (simp add: f_as_u16_def u16_max_def)
  ultimately show ?thesis by (simp add: u16_sat_add_def u16_max_def)
qed

lemma keyed_threshold:
  assumes mag: "set mag \<subseteq> {0, 100}" "length mag < 2 ^ 50"
    and marks: "length mag < 1000 * (count_list mag 100) - 500"
  shows "0 < threshold (levels_of mag (Fin (1/2)))" "threshold (levels_of mag (Fin (1/2))) \<le> 100"
proof -
  have ne: "1 \<le> length mag" using marks by (cases mag) auto
  let ?l = "levels_of mag (Fin (1/2))"
  have f: "signal ?l = 100" "noise_floor ?l \<in> {0, 100}"
    using two_level_percentile [OF assms] by (simp_all add: levels_of_hist hist_levels_def Let_def)
  have t: "noise_floor ?l \<le> threshold ?l" "threshold ?l \<le> signal ?l"
    by (rule levels_threshold_between [OF ne mag(2)]; simp)+
  then show "threshold ?l \<le> 100" using f by simp
  have "threshold ?l = 50" if "noise_floor ?l = 0"
    using that f(1) half_of_carrier by (simp add: levels_of_hist hist_levels_def Let_def)
  then show "0 < threshold ?l" using f(2) t by auto
qed

section \<open>A synthesized signal\<close>

lemma amp_100: "amp_level 100 = 100"
  by (simp add: amp_level_def)

lemma rate_ok_RATE: "rate_ok RATE"
  by (simp add: rate_ok_def RATE_def)

lemma keyed_envelope:
  assumes "\<forall>t \<in> set ts. nat \<bar>t\<bar> < 2 ^ 40"
  shows "set (envelope (synthesize ts RATE 100)) \<subseteq> {0, 100}"
    and "length (envelope (synthesize ts RATE 100)) = 2 * sum_list (map (\<lambda>t. nat \<bar>t\<bar>) ts)"
    and "count_list (envelope (synthesize ts RATE 100)) 100 = 2 * sum_list (map (\<lambda>t. if 0 < t then nat \<bar>t\<bar> else 0) ts)"
proof -
  have c: "count_list (replicate n x) y = (if x = y then n else 0)" for n and x y :: nat
    by (induction n) auto
  have "set (envelope (synthesize ts RATE 100)) \<subseteq> {0, 100} \<and>
    length (envelope (synthesize ts RATE 100)) = 2 * sum_list (map (\<lambda>t. nat \<bar>t\<bar>) ts) \<and>
    count_list (envelope (synthesize ts RATE 100)) 100 = 2 * sum_list (map (\<lambda>t. if 0 < t then nat \<bar>t\<bar> else 0) ts)"
    using assms
  proof (induction ts)
    case Nil
    then show ?case by (simp add: synthesize_def envelope_def)
  next
    case (Cons t ts)
    then show ?case by (simp add: envelope_synthesize_Cons amp_100 RATE_def sample_count_2M c set_replicate_conv_if)
  qed
  then show "set (envelope (synthesize ts RATE 100)) \<subseteq> {0, 100}"
    "length (envelope (synthesize ts RATE 100)) = 2 * sum_list (map (\<lambda>t. nat \<bar>t\<bar>) ts)"
    "count_list (envelope (synthesize ts RATE 100)) 100 = 2 * sum_list (map (\<lambda>t. if 0 < t then nat \<bar>t\<bar> else 0) ts)"
    by blast+
qed

lemma synthesized_threshold:
  assumes ts: "\<forall>t \<in> set ts. nat \<bar>t\<bar> < 2 ^ 40"
    and len: "2 * sum_list (map (\<lambda>t. nat \<bar>t\<bar>) ts) < 2 ^ 50"
    and marks: "2 * sum_list (map (\<lambda>t. nat \<bar>t\<bar>) ts) < 2000 * sum_list (map (\<lambda>t. if 0 < t then nat \<bar>t\<bar> else 0) ts) - 500"
  shows "0 < threshold (levels_of (envelope (synthesize ts RATE 100)) (Fin (1/2)))"
    "threshold (levels_of (envelope (synthesize ts RATE 100)) (Fin (1/2))) \<le> 100"
proof -
  let ?mag = "envelope (synthesize ts RATE 100)"
  note k = keyed_envelope [OF ts]
  have "length ?mag < 2 ^ 50" "length ?mag < 1000 * count_list ?mag 100 - 500"
    using len marks unfolding k(2,3) by simp_all
  from keyed_threshold [OF k(1) this]
  show "0 < threshold (levels_of ?mag (Fin (1/2)))" "threshold (levels_of ?mag (Fin (1/2))) \<le> 100" .
qed

lemma offline_runs:
  assumes "resolvable 40 ts"
    and "2 * sum_list (map (\<lambda>t. nat \<bar>t\<bar>) ts) < 2 ^ 50"
    and "2 * sum_list (map (\<lambda>t. nat \<bar>t\<bar>) ts) < 2000 * sum_list (map (\<lambda>t. if 0 < t then nat \<bar>t\<bar> else 0) ts) - 500"
  shows "runs (envelope (synthesize ts RATE 100)) (threshold (levels_of (envelope (synthesize ts RATE 100)) (Fin (1/2)))) RATE 40
    = map timing_run ts"
proof -
  have "\<forall>t \<in> set ts. nat \<bar>t\<bar> < 2 ^ 40" using assms(1) by (auto simp: resolvable_def)
  note t = synthesized_threshold [OF this assms(2,3)]
  show ?thesis by (rule runs_synthesize [OF rate_ok_RATE t(1) _ assms(1)]) (use t(2) in \<open>simp add: amp_100\<close>)
qed

lemma timings_survive_a_synthesize_demodulate_round_trip_passes: "timings_survive_a_synthesize_demodulate_round_trip"
proof -
  have "resolvable 40 [500, -500, 250, -750, 1000, -500, 250]" by code_simp
  from offline_runs [OF this]
  show ?thesis unfolding timings_survive_a_synthesize_demodulate_round_trip_def tests_demod_def Let_def
    by (simp add: timing_run_def)
qed

lemma bursts_split_on_long_gaps_and_drop_the_gap_itself_passes: "bursts_split_on_long_gaps_and_drop_the_gap_itself"
proof -
  have "resolvable 40 [500, -500, 500, -50000, 500, -500, 500]" by code_simp
  note r = offline_runs [OF this, simplified]
  have s: "split_bursts (map timing_run [500, -500, 500, -50000, 500, -500, 500]) 10000 2 = [[500, -500, 500], [500, -500, 500]]"
    by code_simp
  then show ?thesis unfolding bursts_split_on_long_gaps_and_drop_the_gap_itself_def Let_def
    by (simp add: r)
qed
lemma a_trailing_space_is_unobservable_so_bursts_end_on_a_mark_passes:
  "a_trailing_space_is_unobservable_so_bursts_end_on_a_mark"
proof -
  have m: "envelope (synthesize (-500 # -50000 # ts) RATE 100) = envelope (synthesize (-50500 # ts) RATE 100)" for ts
    by (simp add: envelope_synthesize_Cons RATE_def sample_count_2M replicate_add [symmetric] append_assoc [symmetric] del: append_assoc)
  have e: "envelope (synthesize [500, -500, 500, -500, -50000, 500, -500, 500, -500] RATE 100) =
      envelope (synthesize [500, -500, 500, -50500, 500, -500, 500, -500] RATE 100)"
    by (simp add: envelope_synthesize_Cons [of 500] envelope_synthesize_Cons [of "-500" "[500, -500, -50000, 500, -500, 500, -500]"]
        envelope_synthesize_Cons [of "-500" "[500, -50500, 500, -500, 500, -500]"] m)
  have "resolvable 40 [500, -500, 500, -50500, 500, -500, 500, -500]" by code_simp
  note r = offline_runs [OF this, simplified]
  have s: "split_bursts (map timing_run [500, -500, 500, -50500, 500, -500, 500, -500]) 10000 2 = [[500, -500, 500], [500, -500, 500]]"
    by code_simp
  then show ?thesis unfolding a_trailing_space_is_unobservable_so_bursts_end_on_a_mark_def Let_def
    by (simp add: e r)
qed

lemma glitch_runs:
  assumes "0 < thr" "thr \<le> 100"
  shows "runs (envelope (synthesize [500, -20, 500, -500, 500] RATE 100)) thr RATE 40 =
    map timing_run [1020, -500, 500]"
proof -
  have d: "run_duration 1000 (us_per_sample RATE) = 500" "run_duration 40 (us_per_sample RATE) = 20"
    using run_duration_2M [of 1000] run_duration_2M [of 40] round_away_of_int [of 500] round_away_of_int [of 20]
    by (simp_all add: RATE_def)
  have m: "us_to_samples (f64_of_nat 40) (us_per_sample RATE) = 80"
    using us_to_samples_2M [of 40] by (simp add: RATE_def)
  have "raw_segments thr (envelope (synthesize [500, -20, 500, -500, 500] RATE 100)) =
      map (\<lambda>u. (0 < u, sample_count u RATE)) [500, -20, 500, -500, 500]"
    using assms by (intro raw_segments_synthesize) (simp_all add: amp_100 RATE_def sample_count_2M mark_of_def)
  also have "\<dots> = [(True, 1000), (False, 40), (True, 1000), (False, 1000), (True, 1000)]"
    by (simp add: RATE_def sample_count_2M)
  finally show ?thesis by (simp add: runs_fold push_run_def Let_def m d timing_run_def)
qed

lemma glitches_are_folded_without_breaking_alternation_passes: "glitches_are_folded_without_breaking_alternation"
proof -
  have "0 < threshold (levels_of (envelope (synthesize [500, -20, 500, -500, 500] RATE 100)) (Fin (1/2)))"
    "threshold (levels_of (envelope (synthesize [500, -20, 500, -500, 500] RATE 100)) (Fin (1/2))) \<le> 100"
    by (rule synthesized_threshold; simp)+
  from glitch_runs [OF this]
  show ?thesis unfolding glitches_are_folded_without_breaking_alternation_def tests_demod_def Let_def
    by (simp add: timing_run_def)
qed

end
