(* ===== verification/Detector_Segments.thy ===== *)
theory Detector_Segments
  imports Signal_Tests
begin

text \<open>
  The live detector on a keyed signal, one segment of equal samples at a time. Between edges it only
  counts, so a segment of a thousand samples is one step of a proof: \<open>det_at\<close> is the detector's
  state inside a window, \<open>edge\<close> what a change of level does. For the tests of \<open>ook.rs\<close> and
  \<open>engine.rs\<close>, which all stream the same frame.
\<close>

definition FRAME :: "int list" where "FRAME = [500, -500, 500, -500, 500]"

section \<open>Segments of equal samples\<close>

text \<open>The configuration of the tests, over a window of \<open>win\<close> samples.\<close>

definition short_window :: "nat \<Rightarrow> detector_config" where
  "short_window win = (detector_config_new RATE)\<lparr>dc_window_samples := win, dc_gap_us := 3000, dc_min_edges := 3\<rparr>"

definition det_at :: "nat \<Rightarrow> detector \<Rightarrow> nat \<Rightarrow> bool \<Rightarrow> nat \<Rightarrow> run option \<Rightarrow> int list \<Rightarrow> nat \<Rightarrow> nat \<Rightarrow> bool" where
  "det_at win d thr on k pend cur peak seen \<longleftrightarrow>
     dc_sample_rate (det_config d) = RATE \<and> dc_window_samples (det_config d) = win \<and> det_threshold d = Some thr \<and> 1 \<le> thr \<and> thr \<le> 100 \<and>
     det_min_samples d = 80 \<and> det_gap_samples d = 6000 \<and> det_on d = on \<and> det_run_samples d = k \<and>
     det_pending d = pend \<and> det_accumulator d = (acc_new 3000 3)\<lparr>acc_current := cur\<rparr> \<and>
     det_burst_peak d = peak \<and> det_window_seen d = seen"

abbreviation level_at :: "bool \<Rightarrow> nat" where "level_at on \<equiv> if on then 100 else 0"

definition edge :: "bool \<Rightarrow> nat \<Rightarrow> int \<Rightarrow> run option \<Rightarrow> int list \<Rightarrow> (run option \<times> int list) option" where
  "edge on k us pend cur =
     (let r = \<lparr>run_on = on, run_us = us\<rparr> in
      case pend of
        None \<Rightarrow> Some (Some r, cur)
      | Some p \<Rightarrow>
          if k < 80 \<or> run_on p = on then Some (Some (p\<lparr>run_us := run_us p + us\<rparr>), cur)
          else if \<not> run_on p \<and> (3000 \<le> run_us p \<or> cur = [])
            then if cur = [] then Some (Some r, []) else None
          else if length cur < 4096 then Some (Some r, cur @ [run_signed p]) else None)"

lemma det_at_same:
  assumes "det_at win d thr on k pend cur peak seen" "seen + n < win" "\<not> on \<Longrightarrow> 6000 \<le> k \<or> k + n < 6000"
  shows "det_at win (fst (foldl det_step (d, bs) (replicate n (level_at on)))) thr on (k + n) pend cur
      (if on \<and> n \<noteq> 0 then max peak 100 else peak) (seen + n) \<and>
    snd (foldl det_step (d, bs) (replicate n (level_at on))) = bs"
  using assms
proof (induction n arbitrary: d k peak seen)
  case (Suc n)
  define e where "e = fst (det_step (d, bs) (level_at on))"
  have "det_at win e thr on (k + 1) pend cur (if on then max peak 100 else peak) (seen + 1) \<and>
      snd (det_step (d, bs) (level_at on)) = bs"
    using Suc.prems unfolding e_def by (cases on) (auto simp: det_step_def push_sample_def det_at_def Let_def)
  then have s: "det_at win e thr on (k + 1) pend cur (if on then max peak 100 else peak) (seen + 1)"
    "det_step (d, bs) (level_at on) = (e, bs)" by (auto simp: prod_eq_iff e_def)
  have "seen + 1 + n < win" "\<not> on \<Longrightarrow> 6000 \<le> k + 1 \<or> k + 1 + n < 6000" using Suc.prems(2,3) by auto
  from Suc.IH [OF s(1) this]
  show ?case unfolding replicate_Suc foldl_Cons s(2) by (cases on; simp split: if_splits)
qed simp

lemma det_at_edge:
  assumes "det_at win d thr on k pend cur peak seen" "seen + 1 < win"
    and "run_duration k (us_per_sample RATE) = us" "edge on k us pend cur = Some (pend', cur')"
  shows "det_at win (fst (det_step (d, bs) (level_at (\<not> on)))) thr (\<not> on) 1 pend' cur'
      (if on then peak else max peak 100) (seen + 1) \<and>
    snd (det_step (d, bs) (level_at (\<not> on))) = bs"
proof -
  have a: "acc_gap_us (acc_new 3000 3) = 3000" "acc_min_edges (acc_new 3000 3) = 3" "acc_max_edges (acc_new 3000 3) = 4096"
    "strip_spaces [] = []" by (simp_all add: acc_new_def max_burst_edges_def strip_spaces_def)
  show ?thesis
  proof (cases pend)
    case None
    then show ?thesis using assms
      by (cases on) (auto simp: det_step_def push_sample_def emit_run_def finished_run_def det_at_def Let_def
          edge_def)
  next
    case (Some p)
    then show ?thesis using assms
      by (cases on) (auto simp: det_step_def push_sample_def emit_run_def finished_run_def det_at_def Let_def
          a edge_def accumulate_def acc_push_def acc_finish_def deliver_def split: if_splits)
  qed
qed

text \<open>One segment: the change of level, then \<open>n - 1\<close> samples of the same.\<close>

lemma det_at_segment:
  assumes d: "det_at win d thr on k pend cur peak seen"
    and us: "run_duration k (us_per_sample RATE) = us" "edge on k us pend cur = Some (pend', cur')"
    and n: "1 \<le> n" "seen + n < win" "on \<Longrightarrow> n < 6000"
  shows "det_at win (fst (foldl det_step (d, bs) (replicate n (level_at (\<not> on))))) thr (\<not> on) n pend' cur'
      (if on then peak else max peak 100) (seen + n) \<and>
    snd (foldl det_step (d, bs) (replicate n (level_at (\<not> on)))) = bs"
proof -
  obtain m where m: "n = Suc m" using n(1) by (cases n) auto
  define e where "e = fst (det_step (d, bs) (level_at (\<not> on)))"
  have e: "det_at win e thr (\<not> on) 1 pend' cur' (if on then peak else max peak 100) (seen + 1)"
    "det_step (d, bs) (level_at (\<not> on)) = (e, bs)"
    using det_at_edge [OF d _ us, of bs] n(2) m by (auto simp: e_def prod_eq_iff)
  have "seen + 1 + m < win" "\<not> \<not> on \<Longrightarrow> 6000 \<le> 1 \<or> 1 + m < 6000" using n m by auto
  from det_at_same [OF e(1) this, of bs]
  show ?thesis unfolding m replicate_Suc foldl_Cons e(2) by (cases on; simp split: if_splits)
qed

text \<open>The sample at which a silence reaches the gap delivers the burst.\<close>

lemma det_at_gap:
  assumes d: "det_at win d thr False 5999 (Some \<lparr>run_on = True, run_us = us\<rparr>) cur peak seen" "seen + 1 < win"
    and c: "2 \<le> length cur" "length cur < 4096" "0 < us"
  shows "det_idle (fst (det_step (d, bs) 0)) \<and>
    snd (det_step (d, bs) 0) = bs @ [\<lparr>burst_timings = cur @ [us], burst_peak = peak\<rparr>]"
proof -
  have a: "acc_gap_us (acc_new 3000 3) = 3000" "acc_min_edges (acc_new 3000 3) = 3" "acc_max_edges (acc_new 3000 3) = 4096"
    by (simp_all add: acc_new_def max_burst_edges_def)
  have s: "strip_spaces (cur @ [us]) = cur @ [us]" using c(3) by (simp add: strip_spaces_def)
  show ?thesis using d c
    by (auto simp: det_step_def push_sample_def flush_gap_def det_at_def Let_def a s run_signed_def
        accumulate_def acc_push_def acc_finish_def deliver_def take_burst_def det_idle_def)
qed

lemma idle_zeros: "det_idle d \<Longrightarrow> det_idle (fst (foldl det_step (d, bs) (replicate n 0))) \<and>
    snd (foldl det_step (d, bs) (replicate n 0)) = bs"
proof (induction n arbitrary: d)
  case (Suc n)
  define e where "e = fst (det_step (d, bs) 0)"
  have e: "det_idle e" "det_step (d, bs) 0 = (e, bs)"
    using det_idle_step [OF Suc.prems, of bs] by (auto simp: e_def prod_eq_iff)
  show ?case unfolding replicate_Suc foldl_Cons e(2) by (rule Suc.IH [OF e(1)])
qed simp

lemma det_at_silence:
  assumes d: "det_at win d thr True k pend cur peak seen"
    and us: "run_duration k (us_per_sample RATE) = us" "edge True k us pend cur = Some (Some \<lparr>run_on = True, run_us = w\<rparr>, cur')"
    and n: "6000 \<le> n" "seen + 6000 < win" and c: "2 \<le> length cur'" "length cur' < 4096" "0 < w"
  shows "det_idle (fst (foldl det_step (d, bs) (replicate n 0))) \<and>
    snd (foldl det_step (d, bs) (replicate n 0)) = bs @ [\<lparr>burst_timings = cur' @ [w], burst_peak = peak\<rparr>]"
proof -
  define e where "e = fst (foldl det_step (d, bs) (replicate 5999 0))"
  have e: "det_at win e thr False 5999 (Some \<lparr>run_on = True, run_us = w\<rparr>) cur' peak (seen + 5999)"
    "foldl det_step (d, bs) (replicate 5999 0) = (e, bs)"
    using det_at_segment [OF d us, of 5999 bs] n(2) by (auto simp: e_def prod_eq_iff)
  define b where "b = bs @ [\<lparr>burst_timings = cur' @ [w], burst_peak = peak\<rparr>]"
  define g where "g = fst (det_step (e, bs) 0)"
  have g: "det_idle g" "det_step (e, bs) 0 = (g, b)"
    using det_at_gap [OF e(1) _ c, of bs] n(2) by (auto simp: g_def b_def prod_eq_iff)
  have "replicate n (0::nat) = replicate 5999 0 @ 0 # replicate (n - 6000) 0"
    using n(1) by (simp add: replicate_add [symmetric] replicate_Suc [symmetric] del: replicate_Suc)
  then have "foldl det_step (d, bs) (replicate n 0) = foldl det_step (g, b) (replicate (n - 6000) 0)"
    by (simp only: foldl_append foldl_Cons e(2) g(2))
  then show ?thesis using idle_zeros [OF g(1), of b "n - 6000"] by (simp add: b_def)
qed

section \<open>The frame\<close>

lemma segment_step:
  assumes "det_at win d thr on k pend cur peak seen" "run_duration k (us_per_sample RATE) = us"
    and "edge on k us pend cur = Some (pend', cur')" "1 \<le> n" "seen + n < win" "on \<Longrightarrow> n < 6000"
  shows "\<exists>e. foldl det_step (d, bs) (replicate n (level_at (\<not> on))) = (e, bs) \<and>
    det_at win e thr (\<not> on) n pend' cur' (if on then peak else max peak 100) (seen + n)"
  using det_at_segment [OF assms, of bs] by (metis prod.collapse)

lemma half_ms: "run_duration 1000 (us_per_sample RATE) = 500"
  using run_duration_2M [of 1000] round_away_of_int [of 500] by (simp add: RATE_def)

lemma FRAME_envelope: "envelope (synthesize FRAME RATE 100) =
    replicate 1000 100 @ replicate 1000 0 @ replicate 1000 100 @ replicate 1000 0 @ replicate 1000 100 @ []"
proof -
  have "envelope (synthesize [] RATE 100) = []" by (simp add: synthesize_def envelope_def)
  then show ?thesis
    unfolding FRAME_def envelope_synthesize_Cons by (simp add: amp_100 RATE_def sample_count_2M)
qed

lemma frame_heard:
  assumes d: "det_at win d 1 False k None [] 0 0" "run_duration k (us_per_sample RATE) = us" and win: "20000 \<le> win"
  obtains e where "foldl det_step (d, []) (envelope (synthesize FRAME RATE 100)) = (e, [])"
    and "det_at win e 1 True 1000 (Some \<lparr>run_on = False, run_us = 500\<rparr>) [500, -500, 500] 100 5000"
proof -
  have r: "5000 < win" "run_signed \<lparr>run_on = True, run_us = 500\<rparr> = 500" "run_signed \<lparr>run_on = False, run_us = 500\<rparr> = -500"
    using win by (simp_all add: run_signed_def)
  obtain d1 where d1: "foldl det_step (d, []) (replicate 1000 100) = (d1, [])"
    "det_at win d1 1 True 1000 (Some \<lparr>run_on = False, run_us = us\<rparr>) [] 100 1000"
    using win segment_step [OF d(1,2), of _ _ 1000 "[]"] by (auto simp: edge_def r)
  obtain d2 where d2: "foldl det_step (d1, []) (replicate 1000 0) = (d2, [])"
    "det_at win d2 1 False 1000 (Some \<lparr>run_on = True, run_us = 500\<rparr>) [] 100 2000"
    using win segment_step [OF d1(2) half_ms, of _ _ 1000 "[]"] by (auto simp: edge_def r)
  obtain d3 where d3: "foldl det_step (d2, []) (replicate 1000 100) = (d3, [])"
    "det_at win d3 1 True 1000 (Some \<lparr>run_on = False, run_us = 500\<rparr>) [500] 100 3000"
    using win segment_step [OF d2(2) half_ms, of _ _ 1000 "[]"] by (auto simp: edge_def r)
  obtain d4 where d4: "foldl det_step (d3, []) (replicate 1000 0) = (d4, [])"
    "det_at win d4 1 False 1000 (Some \<lparr>run_on = True, run_us = 500\<rparr>) [500, -500] 100 4000"
    using win segment_step [OF d3(2) half_ms, of _ _ 1000 "[]"] by (auto simp: edge_def r)
  obtain d5 where d5: "foldl det_step (d4, []) (replicate 1000 100) = (d5, [])"
    "det_at win d5 1 True 1000 (Some \<lparr>run_on = False, run_us = 500\<rparr>) [500, -500, 500] 100 5000"
    using win segment_step [OF d4(2) half_ms, of _ _ 1000 "[]"] by (auto simp: edge_def r)
  show ?thesis
    by (rule that [OF _ d5(2)])
      (simp only: FRAME_envelope foldl_append d1(1) d2(1) d3(1) d4(1) d5(1) foldl_Nil)
qed

lemma frame_then_silence:
  assumes d: "det_at win d 1 False k None [] 0 0" "run_duration k (us_per_sample RATE) = us" and n: "6000 \<le> n" and win: "20000 \<le> win"
  shows "det_idle (fst (foldl det_step (d, []) (envelope (synthesize FRAME RATE 100) @ replicate n 0)))"
    and "snd (foldl det_step (d, []) (envelope (synthesize FRAME RATE 100) @ replicate n 0)) =
      [\<lparr>burst_timings = FRAME, burst_peak = 100\<rparr>]"
proof -
  obtain e where e: "foldl det_step (d, []) (envelope (synthesize FRAME RATE 100)) = (e, [])"
    "det_at win e 1 True 1000 (Some \<lparr>run_on = False, run_us = 500\<rparr>) [500, -500, 500] 100 5000"
    by (rule frame_heard [OF d win])
  have g: "edge True 1000 500 (Some \<lparr>run_on = False, run_us = 500\<rparr>) [500, -500, 500] =
      Some (Some \<lparr>run_on = True, run_us = 500\<rparr>, [500, -500, 500, -500])"
    by (simp add: edge_def run_signed_def)
  show "det_idle (fst (foldl det_step (d, []) (envelope (synthesize FRAME RATE 100) @ replicate n 0)))"
    "snd (foldl det_step (d, []) (envelope (synthesize FRAME RATE 100) @ replicate n 0)) =
      [\<lparr>burst_timings = FRAME, burst_peak = 100\<rparr>]"
    unfolding foldl_append e(1) using det_at_silence [OF e(2) half_ms g n, of "[]"] win by (simp_all add: FRAME_def)
qed

section \<open>Learning from silence\<close>

lemma silent_threshold:
  assumes "1 \<le> n" "n < 2 ^ 50"
  shows "retuned_threshold (short_window win) (hist_of (replicate n 0)) = 1"
proof -
  have "dc_noise_sigmas (short_window win) = Fin 8" "dc_threshold_fraction (short_window win) = Fin (1/2)"
    using to_f64_of_int [of 8] to_f64_half [of 1] by (simp_all add: short_window_def detector_config_new_def)
  then show ?thesis using assms by (intro retuned_silence [where s = 8 and f = "1/2"]) simp_all
qed

lemma first_silent_window:
  assumes "envelope iq = replicate win 0" "1 \<le> win" "win < 2 ^ 50"
  shows "det_push (detector_new (short_window win)) iq = (armed (short_window win) 1, [])"
  using det_first_window [of iq "short_window win"] silent_threshold [OF assms(2,3)] assms
  by (simp add: add_iq_envelope hist_of_def short_window_def del: replicate_Suc)

lemma armed_at:
  assumes "1 \<le> win"
  shows "det_at win (armed (short_window win) 1) 1 False 0 None [] 0 0"
proof -
  have s: "det_min_samples (detector_new (short_window win)) = 80" "det_gap_samples (detector_new (short_window win)) = 6000"
    using us_to_samples_2M [of 40] us_to_samples_2M [of 3000]
    by (simp_all add: detector_new_def short_window_def detector_config_new_def Let_def RATE_def f64_of_int_def f64_of_nat_def)
  have f: "dc_gap_us (short_window win) = 3000" "dc_min_edges (short_window win) = 3"
    "dc_sample_rate (short_window win) = RATE" "dc_window_samples (short_window win) = win"
    by (simp_all add: short_window_def detector_config_new_def)
  have a: "(acc_new 3000 3)\<lparr>acc_current := []\<rparr> = acc_new 3000 3" by (simp add: acc_new_def)
  show ?thesis using s unfolding det_at_def armed_def a
    by (simp add: detector_new_def Let_def f)
qed

lemma silent_start: "run_duration 0 (us_per_sample RATE) = 0"
  by (rule run_duration_0 [OF rate_ok_RATE])

end
