(* ===== verification/Reception_Tests.thy ===== *)
theory Reception_Tests
  imports Engine_Tests Detector_Segments
begin

text \<open>
  The unit tests of \<open>engine.rs\<close> in which a signal is on the air: the fake radio hands the thread a
  window of silence, a frame and a silence that ends it, and the frame is published and recorded.
\<close>

definition on_the_air :: shared where
  "on_the_air = shared_default\<lparr>sh_rx_data :=
     [replicate (20000 * 2) 0, synthesize [500, -500, 500, -500, 500] 2000000 100, synthesize [-20000] 2000000 100]\<rparr>"

definition recording :: "bool \<Rightarrow> config" where
  "recording record_it = test_config\<lparr>cfg_record := record_it\<rparr>"

definition a_received_burst_is_published_as_an_event :: "nat \<Rightarrow> bool" where
  "a_received_burst_is_published_as_an_event n \<longleftrightarrow>
     (let a = after test_config on_the_air (3 + n)
      in case frames (a_out a) of
           [frame] \<Rightarrow> fr_timings frame = [500, -500, 500, -500, 500] \<and> fr_frequency frame = 315000000 \<and> fr_rssi frame = 100
         | _ \<Rightarrow> False) \<and>
     c_rx_frames (st_counters (status_of (after test_config on_the_air (3 + n)))) = 1"

definition recorded_frames_reach_disk_as_they_arrive :: "nat \<Rightarrow> bool" where
  "recorded_frames_reach_disk_as_they_arrive n \<longleftrightarrow>
     (case sh_log (a_world (after (recording True) on_the_air (3 + n))) of
        [frame] \<Rightarrow> fr_timings frame = [500, -500, 500, -500, 500] \<and> fr_frequency frame = 315000000 \<and> fr_rssi frame = 100
      | _ \<Rightarrow> False)"

section \<open>What the detector makes of it\<close>

lemma test_detector_config: "cfg_detector (recording b) = short_window 20000"
  by (simp add: recording_def test_config_def short_window_def detector_config_new_def RATE_def)

lemma zeros: "envelope (replicate (n * 2) 0) = replicate n 0"
proof -
  have r: "replicate (2 * n) (0::byte) = concat (replicate n [0, 0])" for n by (induction n) simp_all
  have "replicate (n * 2) (0::byte) = demo_quiet n" using r [of n] by (simp add: demo_quiet_def mult.commute)
  then show ?thesis by (simp only: envelope_quiet)
qed

lemma transfers:
  obtains e g where "det_push (detector_new (short_window 20000)) (replicate (20000 * 2) 0) = (armed (short_window 20000) 1, [])"
    and "det_push (armed (short_window 20000) 1) (synthesize [500, -500, 500, -500, 500] 2000000 100) = (e, [])"
    and "det_push e (synthesize [-20000] 2000000 100) = (g, [\<lparr>burst_timings = [500, -500, 500, -500, 500], burst_peak = 100\<rparr>])"
    and "det_idle g"
proof -
  have one: "det_push (detector_new (short_window 20000)) (replicate (20000 * 2) 0) = (armed (short_window 20000) 1, [])"
    by (rule first_silent_window [OF zeros]) simp_all
  have at: "det_at 20000 (armed (short_window 20000) 1) 1 False 0 None [] 0 0" by (rule armed_at) simp
  obtain e where e: "foldl det_step (armed (short_window 20000) 1, []) (envelope (synthesize FRAME RATE 100)) = (e, [])"
    by (rule frame_heard [OF at silent_start]) (simp, blast)
  have z: "envelope (synthesize [-20000] RATE 100) = replicate 40000 0"
    by (simp add: envelope_synthesize_Cons RATE_def sample_count_2M) (simp add: synthesize_def envelope_def)
  define g where "g = fst (det_push e (synthesize [-20000] RATE 100))"
  have n: "6000 \<le> (40000::nat)" "20000 \<le> (20000::nat)" by simp_all
  have g: "det_push e (synthesize [-20000] RATE 100) = (g, [\<lparr>burst_timings = FRAME, burst_peak = 100\<rparr>])" "det_idle g"
    using frame_then_silence [OF at silent_start n] unfolding foldl_append e g_def det_push_envelope z
    by (simp_all add: prod_eq_iff)
  show ?thesis
    by (rule that [OF one _ _ g(2)])
      (use e g(1) in \<open>simp_all add: det_push_envelope [of _ "synthesize [500, -500, 500, -500, 500] 2000000 100"] FRAME_def RATE_def\<close>)
qed

lemma idle_transfer: "det_idle d \<Longrightarrow> det_idle (fst (det_push d (replicate 4096 0))) \<and> snd (det_push d (replicate 4096 0)) = []"
  using idle_zeros [of d "[]" 2048] zeros [of 2048] by (simp add: det_push_envelope)

section \<open>The passes\<close>

text \<open>A pass with nothing more on the air.\<close>

definition nothing_on_air :: "shared arbiter \<Rightarrow> bool" where
  "nothing_on_air a \<longleftrightarrow> s_rx_running (a_state a) \<and> s_rx_enabled (a_state a) \<and> \<not> s_faulted (a_state a) \<and>
     sh_fail_reads (a_world a) = 0 \<and> sh_rx_data (a_world a) = [] \<and> det_idle (a_detector a)"

lemma silent_pass:
  assumes "nothing_on_air a"
  shows "nothing_on_air (loop_step fake_radio None a) \<and> a_out (loop_step fake_radio None a) = a_out a \<and>
    s_counters (a_state (loop_step fake_radio None a)) = s_counters (a_state a) \<and>
    sh_log (a_world (loop_step fake_radio None a)) = sh_log (a_world a)"
proof -
  have r: "fake_read (a_world a) = (Inr (replicate 4096 0), did Read (a_world a))"
    using assms by (simp add: fake_read_def nothing_on_air_def Let_def)
  show ?thesis using assms idle_transfer [of "a_detector a"]
    by (simp add: nothing_on_air_def loop_step_def loop_body_def receiving_def pump_def receive_def act_def r Let_def split_beta
       )
qed

lemma silent_passes:
  "nothing_on_air a \<Longrightarrow> nothing_on_air ((loop_step fake_radio None ^^ n) a) \<and> a_out ((loop_step fake_radio None ^^ n) a) = a_out a \<and>
    s_counters (a_state ((loop_step fake_radio None ^^ n) a)) = s_counters (a_state a) \<and>
    sh_log (a_world ((loop_step fake_radio None ^^ n) a)) = sh_log (a_world a)"
  by (induction n) (simp_all add: silent_pass)

lemma received:
  defines "f \<equiv> \<lparr>fr_frequency = 315000000, fr_timings = [500, -500, 500, -500, 500], fr_rssi = 100, fr_timestamp_ms = 0\<rparr>"
  shows "nothing_on_air (after (recording b) on_the_air 3)"
    and "frames (a_out (after (recording b) on_the_air 3)) = [f]"
    and "c_rx_frames (s_counters (a_state (after (recording b) on_the_air 3))) = 1"
    and "sh_log (a_world (after (recording b) on_the_air 3)) = (if b then [f] else [])"
proof -
  obtain e g where d: "det_push (detector_new (short_window 20000)) (replicate (20000 * 2) 0) = (armed (short_window 20000) 1, [])"
    "det_push (armed (short_window 20000) 1) (synthesize [500, -500, 500, -500, 500] 2000000 100) = (e, [])"
    "det_push e (synthesize [-20000] 2000000 100) = (g, [\<lparr>burst_timings = [500, -500, 500, -500, 500], burst_peak = 100\<rparr>])"
    "det_idle g"
    by (rule transfers)
  define x where "x = replicate (20000 * 2) (0::byte)"
  define y where "y = synthesize [500, -500, 500, -500, 500] 2000000 100"
  define z where "z = synthesize [-20000] 2000000 100"
  note d = d [folded x_def y_def z_def]
  have w: "on_the_air = shared_default\<lparr>sh_rx_data := [x, y, z]\<rparr>" by (simp only: on_the_air_def x_def y_def z_def)
  have c: "cfg_rx_frequency (recording b) = 315000000" "cfg_rx_enabled (recording b)" "cfg_record (recording b) = b"
    by (simp_all add: recording_def)
  define a where "a = after (recording b) on_the_air 1"
  have a: "a_detector a = armed (short_window 20000) 1" "s_rx_running (a_state a)" "s_rx_enabled (a_state a)" "\<not> s_faulted (a_state a)"
    "sh_fail_reads (a_world a) = 0" "sh_rx_data (a_world a) = [y, z]" "frames (a_out a) = []" "s_counters (a_state a) = counters_default"
    "sh_log (a_world a) = []" "sh_clock (a_world a) = 0" "s_rx_frequency (a_state a) = 315000000"
    "a_recorder a = (if b then Some \<lparr>rec_file = False\<rparr> else None)"
    by (simp_all add: a_def after_def w arbiter_new_def state_new_def c loop_step_def loop_body_def receiving_def pump_def
        fake_start_rx_def act_def Let_def receive_def fake_read_def publish_def device_state_of_def test_detector_config d(1)
        frames_def List.map_filter_def frame_of_def event_def)
  define a2 where "a2 = loop_step fake_radio None a"
  have a2: "a_detector a2 = e" "s_rx_running (a_state a2)" "s_rx_enabled (a_state a2)" "\<not> s_faulted (a_state a2)"
    "sh_fail_reads (a_world a2) = 0" "sh_rx_data (a_world a2) = [z]" "frames (a_out a2) = []" "s_counters (a_state a2) = counters_default"
    "sh_log (a_world a2) = []" "sh_clock (a_world a2) = 0" "s_rx_frequency (a_state a2) = 315000000"
    "a_recorder a2 = (if b then Some \<lparr>rec_file = False\<rparr> else None)"
    using a by (simp_all add: a2_def loop_step_def loop_body_def receiving_def pump_def act_def Let_def receive_def fake_read_def d(2) [unfolded One_nat_def])
  define a3 where "a3 = loop_step fake_radio None a2"
  have fs: "frames (xs @ [Event (event (Rx_Frame q))]) = frames xs @ [q]" for xs q
    by (simp add: frames_def List.map_filter_def frame_of_def event_def)
  have a3: "nothing_on_air a3" "frames (a_out a3) = [f]" "c_rx_frames (s_counters (a_state a3)) = 1"
    "sh_log (a_world a3) = (if b then [f] else [])"
    using a2 d(4)
    by (simp_all add: a3_def nothing_on_air_def loop_step_def loop_body_def receiving_def pump_def act_def Let_def receive_def fake_read_def
        d(3) deliver_burst_def count_rx_frame_def recorder_write_def recorder_append_def fs f_def counters_default_def)
  have "after (recording b) on_the_air 3 = a3"
    by (simp add: a3_def a2_def a_def after_def numeral_3_eq_3)
  then show "nothing_on_air (after (recording b) on_the_air 3)" "frames (a_out (after (recording b) on_the_air 3)) = [f]"
    "c_rx_frames (s_counters (a_state (after (recording b) on_the_air 3))) = 1"
    "sh_log (a_world (after (recording b) on_the_air 3)) = (if b then [f] else [])"
    using a3 by simp_all
qed

lemma after_more: "after c s (3 + n) = (loop_step fake_radio None ^^ n) (after c s 3)"
  by (simp only: after_def add.commute [of 3 n] funpow_add o_def)

lemma a_received_burst_is_published_as_an_event_passes: "a_received_burst_is_published_as_an_event n"
proof -
  have "recording False = test_config" by (simp add: recording_def test_config_def config_new_def)
  then show ?thesis
    using received [of False] silent_passes [OF received(1) [of False], of n]
    by (simp add: a_received_burst_is_published_as_an_event_def after_more Let_def status_of_def)
qed

lemma recorded_frames_reach_disk_as_they_arrive_passes: "recorded_frames_reach_disk_as_they_arrive n"
  using received(4) [of True] silent_passes [OF received(1) [of True], of n]
  by (simp add: recorded_frames_reach_disk_as_they_arrive_def after_more)

end
