(* ===== verification/Detector_Tests.thy ===== *)
theory Detector_Tests
  imports Detector_Segments Radio
begin

text \<open>
  The unit tests of \<open>ook.rs\<close> that stream a synthesized signal through the live detector.
\<close>

definition test_detector :: detector where
  "test_detector =
     detector_new ((detector_config_new RATE)\<lparr>dc_window_samples := 100000, dc_gap_us := 3000, dc_min_edges := 3\<rparr>)"

definition quiet :: "nat \<Rightarrow> byte list" where
  "quiet windows = replicate (100000 * windows * 2) 0"

section \<open>Silence\<close>

lemma test_detector_eq: "test_detector = detector_new (short_window 100000)"
  by (simp add: test_detector_def short_window_def)

lemma length_quiet_test: "envelope (quiet w) = replicate (100000 * w) 0" and even_quiet: "even (length (quiet w))"
proof -
  have r: "replicate (2 * n) (0::byte) = concat (replicate n [0, 0])" for n by (induction n) simp_all
  have "quiet w = demo_quiet (100000 * w)" using r [of "100000 * w"] by (simp add: quiet_def demo_quiet_def mult.commute)
  then show "envelope (quiet w) = replicate (100000 * w) 0" by (simp only: envelope_quiet)
  show "even (length (quiet w))" by (simp add: quiet_def)
qed

lemma first_quiet_window: "det_push test_detector (quiet 1) = (armed (short_window 100000) 1, [])"
  using first_silent_window [of "quiet 1" 100000] by (simp add: test_detector_eq length_quiet_test del: replicate_Suc)

lemma armed_100000: "det_at 100000 (armed (short_window 100000) 1) 1 False 0 None [] 0 0"
  by (rule armed_at) simp

text \<open>Further windows of silence change nothing but the length of the silence.\<close>

lemma idle_window:
  assumes "det_at 100000 d thr False k None [] 0 seen" "seen + n < 100000"
  shows "foldl det_step (d, bs) (replicate n 0) =
    (d\<lparr>det_histogram := foldl add_magnitude (det_histogram d) (replicate n 0), det_window_seen := seen + n,
       det_run_samples := k + n\<rparr>, bs)"
  using assms
proof (induction n arbitrary: d k seen)
  case 0
  then show ?case by (simp add: det_at_def)
next
  case (Suc n)
  define e where "e = d\<lparr>det_histogram := add_magnitude (det_histogram d) 0, det_window_seen := seen + 1, det_run_samples := k + 1\<rparr>"
  have a: "(acc_new 3000 3)\<lparr>acc_current := []\<rparr> = acc_new 3000 3" "acc_min_edges (acc_new 3000 3) = 3"
    "acc_current (acc_new 3000 3) = []" "strip_spaces [] = []"
    by (simp_all add: acc_new_def strip_spaces_def)
  have u: "d\<lparr>det_accumulator := acc_new 3000 3\<rparr> = d"
    using Suc.prems(1) by (simp add: det_at_def a)
  have s: "det_step (d, bs) 0 = (e, bs)"
    using Suc.prems by (auto simp: det_step_def push_sample_def flush_gap_def acc_finish_def deliver_def det_at_def
        Let_def a e_def)
  have "det_at 100000 e thr False (k + 1) None [] 0 (seen + 1)" using Suc.prems(1) by (simp add: det_at_def e_def)
  from Suc.IH [OF this] show ?case using Suc.prems(2) unfolding replicate_Suc foldl_Cons s by (simp add: e_def)
qed

lemma quiet_window:
  assumes d: "det_at 100000 d 1 False k None [] 0 0" "det_histogram d = hist_new" "det_config d = short_window 100000"
  shows "\<exists>e. det_push d (quiet 1) = (e, []) \<and> det_at 100000 e 1 False (k + 100000) None [] 0 0 \<and> det_histogram e = hist_new \<and> det_config e = short_window 100000"
proof -
  define e where "e = d\<lparr>det_histogram := foldl add_magnitude hist_new (replicate 99999 0), det_window_seen := 99999, det_run_samples := k + 99999\<rparr>"
  have s: "foldl det_step (d, []) (replicate 99999 0) = (e, [])"
    using idle_window [OF d(1), of 99999 "[]"] d(2) by (simp add: e_def)
  have e: "det_at 100000 e 1 False (k + 99999) None [] 0 99999" "det_config e = short_window 100000" using d by (simp_all add: det_at_def e_def)
  have "replicate (Suc 99999) (0::nat) = replicate 99999 0 @ [0]" by (simp only: replicate_Suc replicate_append_same)
  moreover have "Suc 99999 = 100000" by simp
  ultimately have r: "replicate 100000 (0::nat) = replicate 99999 0 @ [0]" by (simp only:)
  have h: "add_magnitude (foldl add_magnitude hist_new (replicate 99999 0)) 0 = hist_of (replicate 100000 0)"
    unfolding hist_of_def r by simp
  have a: "(acc_new 3000 3)\<lparr>acc_current := []\<rparr> = acc_new 3000 3" "acc_min_edges (acc_new 3000 3) = 3"
    "acc_current (acc_new 3000 3) = []" "strip_spaces [] = []"
    by (simp_all add: acc_new_def strip_spaces_def)
  let ?g = "e\<lparr>det_histogram := hist_new, det_window_seen := 0, det_run_samples := k + 100000\<rparr>"
  have g: "det_step (e, []) 0 = (?g, [])"
    using e h by (auto simp: det_step_def push_sample_def flush_gap_def acc_finish_def deliver_def det_at_def
        Let_def a e_def retune_def silent_threshold [of 100000 100000])
  have "det_push d (quiet 1) = (?g, [])"
    unfolding det_push_envelope length_quiet_test by (simp only: mult_1_right r foldl_append s foldl_Cons foldl_Nil g)
  then show ?thesis using e by (intro exI [of _ ?g]) (simp add: det_at_def)
qed

section \<open>The tests\<close>

definition a_burst_is_detected_once_the_first_window_has_been_measured :: bool where
  "a_burst_is_detected_once_the_first_window_has_been_measured \<longleftrightarrow>
     (let (d1, b1) = det_push test_detector (quiet 1)
      in b1 = [] \<and> det_threshold d1 \<noteq> None \<and>
         (let (d2, b2) = det_push d1 (synthesize FRAME RATE 100);
              (d3, b3) = det_push d2 (quiet 1);
              bursts = b2 @ b3
          in length bursts = 1 \<and> burst_timings (bursts ! 0) = FRAME \<and> burst_peak (bursts ! 0) = 100))"

definition the_first_burst_after_a_quiet_band_is_not_missed :: bool where
  "the_first_burst_after_a_quiet_band_is_not_missed \<longleftrightarrow>
     (let (d, _) = det_push test_detector (quiet 4);
          iq = synthesize FRAME RATE 100 @ quiet 1
      in length (snd (det_push d iq)) = 1)"

definition a_burst_is_emitted_on_the_gap_without_waiting_for_the_next_one :: bool where
  "a_burst_is_emitted_on_the_gap_without_waiting_for_the_next_one \<longleftrightarrow>
     (let (d1, _) = det_push test_detector (quiet 1);
          (d2, _) = det_push d1 (synthesize FRAME RATE 100);
          (d3, bursts) = det_push d2 (synthesize [-4000] RATE 100)
      in length bursts = 1 \<and> burst_timings (bursts ! 0) = FRAME)"

text \<open>\<open>for chunk in \<dots> { pieces.extend(piecewise.push(chunk)); }\<close>\<close>

definition push_chunks :: "detector \<Rightarrow> byte list list \<Rightarrow> detector \<times> burst list" where
  "push_chunks d cs = foldl (\<lambda>(d, pieces) c. let (d', bs) = det_push d c in (d', pieces @ bs)) (d, []) cs"

definition chunking_does_not_change_the_result :: bool where
  "chunking_does_not_change_the_result \<longleftrightarrow>
     (let sig = quiet 1 @ synthesize FRAME RATE 100 @ quiet 1;
          whole = snd (det_push test_detector sig);
          pieces = snd (push_chunks test_detector (chunks (777 * 2) sig))
      in length whole = 1 \<and> whole = pieces)"

definition streaming_folds_glitches_exactly_as_the_offline_path_does :: bool where
  "streaming_folds_glitches_exactly_as_the_offline_path_does \<longleftrightarrow>
     (let timings = [500, -20, 500, -500, 500];
          sig = quiet 1 @ synthesize timings RATE 100 @ quiet 1;
          streamed = snd (det_push test_detector sig);
          magnitude = envelope sig;
          levels = levels_of magnitude (Fin (1/2));
          offline = split_bursts (runs magnitude (threshold levels) RATE 40) 3000 3
      in length streamed = 1 \<and> burst_timings (streamed ! 0) = [1020, -500, 500] \<and>
         burst_timings (streamed ! 0) = offline ! 0)"

lemma det_push_snd_append: "even (length xs) \<Longrightarrow>
    snd (det_push d xs) @ snd (det_push (fst (det_push d xs)) ys) = snd (det_push d (xs @ ys))"
  by (simp add: det_push_append split_beta)

lemma frame_then_quiet:
  assumes "det_at 100000 d 1 False k None [] 0 0" "run_duration k (us_per_sample RATE) = us"
  shows "snd (det_push d (synthesize FRAME RATE 100 @ quiet 1)) = [\<lparr>burst_timings = FRAME, burst_peak = 100\<rparr>]"
  using frame_then_silence(2) [OF assms, of 100000]
  by (simp add: det_push_envelope envelope_append [OF even_length_synthesize] length_quiet_test del: replicate_Suc)

lemma a_burst_is_detected_once_the_first_window_has_been_measured_passes:
  "a_burst_is_detected_once_the_first_window_has_been_measured"
proof -
  have "snd (det_push (armed (short_window 100000) 1) (synthesize FRAME RATE 100)) @
      snd (det_push (fst (det_push (armed (short_window 100000) 1) (synthesize FRAME RATE 100))) (quiet 1)) =
    [\<lparr>burst_timings = FRAME, burst_peak = 100\<rparr>]"
    unfolding det_push_snd_append [OF even_length_synthesize] by (rule frame_then_quiet [OF armed_100000 silent_start])
  then have b: "snd (det_push (armed (short_window 100000) 1) (synthesize FRAME RATE 100)) @
      snd (det_push (fst (det_push (armed (short_window 100000) 1) (synthesize FRAME RATE 100))) (quiet 1)) =
    [\<lparr>burst_timings = FRAME, burst_peak = 100\<rparr>]" .
  have "det_threshold (armed (short_window 100000) 1) \<noteq> None" by (simp add: armed_def)
  then show ?thesis
    unfolding a_burst_is_detected_once_the_first_window_has_been_measured_def first_quiet_window split_beta Let_def
      fst_conv snd_conv b by simp
qed

lemma quiet_Suc: "quiet (Suc n) = quiet 1 @ quiet n"
  by (simp add: quiet_def replicate_add [symmetric] del: replicate_Suc)

lemma quiet_windows:
  assumes "det_at 100000 d 1 False k None [] 0 0" "det_histogram d = hist_new" "det_config d = short_window 100000"
  shows "\<exists>e. det_push d (quiet n) = (e, []) \<and> det_at 100000 e 1 False (k + 100000 * n) None [] 0 0 \<and> det_histogram e = hist_new \<and> det_config e = short_window 100000"
  using assms
proof (induction n arbitrary: d k)
  case 0
  then show ?case by (simp add: quiet_def det_push_def)
next
  case (Suc n)
  obtain e where e: "det_push d (quiet 1) = (e, [])" "det_at 100000 e 1 False (k + 100000) None [] 0 0" "det_histogram e = hist_new" "det_config e = short_window 100000"
    using quiet_window [OF Suc.prems] by blast
  obtain g where g: "det_push e (quiet n) = (g, [])" "det_at 100000 g 1 False (k + 100000 + 100000 * n) None [] 0 0" "det_histogram g = hist_new" "det_config g = short_window 100000"
    using Suc.IH [OF e(2-4)] by blast
  have "det_push d (quiet (Suc n)) = (g, [])"
    unfolding quiet_Suc det_push_append [OF even_quiet] by (simp add: e(1) g(1) del: One_nat_def)
  then show ?case using g by (simp add: add.assoc)
qed

lemma the_first_burst_after_a_quiet_band_is_not_missed_passes: "the_first_burst_after_a_quiet_band_is_not_missed"
proof -
  have "det_histogram (armed (short_window 100000) 1) = hist_new" "det_config (armed (short_window 100000) 1) = short_window 100000"
    by (simp_all add: armed_def detector_new_def Let_def)
  then obtain e where e: "det_push (armed (short_window 100000) 1) (quiet 3) = (e, [])" "det_at 100000 e 1 False 300000 None [] 0 0"
    using quiet_windows [OF armed_100000, of 3] by auto
  have "det_push test_detector (quiet 4) = (e, [])"
    using quiet_Suc [of 3] by (simp add: det_push_append [OF even_quiet] first_quiet_window e(1) del: One_nat_def)
  then show ?thesis using frame_then_quiet [OF e(2) refl]
    by (simp add: the_first_burst_after_a_quiet_band_is_not_missed_def Let_def del: One_nat_def)
qed

lemma a_burst_is_emitted_on_the_gap_without_waiting_for_the_next_one_passes:
  "a_burst_is_emitted_on_the_gap_without_waiting_for_the_next_one"
proof -
  obtain e where e: "foldl det_step (armed (short_window 100000) 1, []) (envelope (synthesize FRAME RATE 100)) = (e, [])"
    by (rule frame_heard [OF armed_100000 silent_start]) (simp, blast)
  have z: "envelope (synthesize [-4000] RATE 100) = replicate 8000 0"
    by (simp add: envelope_synthesize_Cons RATE_def sample_count_2M) (simp add: synthesize_def envelope_def)
  have "snd (foldl det_step (e, []) (replicate 8000 0)) = [\<lparr>burst_timings = FRAME, burst_peak = 100\<rparr>]"
    using frame_then_silence(2) [OF armed_100000 silent_start, of 8000] unfolding foldl_append e by simp
  then have "snd (det_push e (synthesize [-4000] RATE 100)) = [\<lparr>burst_timings = FRAME, burst_peak = 100\<rparr>]"
    unfolding det_push_envelope z .
  moreover have "det_push (armed (short_window 100000) 1) (synthesize FRAME RATE 100) = (e, [])"
    unfolding det_push_envelope by (rule e)
  ultimately show ?thesis
    by (simp add: a_burst_is_emitted_on_the_gap_without_waiting_for_the_next_one_def first_quiet_window split_beta Let_def
        del: One_nat_def)
qed

subsection \<open>Chunks\<close>

lemma push_chunks_Cons: "push_chunks d (c # cs) =
    (let (d1, b1) = det_push d c; (d2, b2) = push_chunks d1 cs in (d2, b1 @ b2))"
proof -
  let ?f = "\<lambda>(d, pieces) c. let (d', bs) = det_push d c in (d', pieces @ bs)"
  have "foldl ?f (d, bs) cs = (fst (foldl ?f (d, []) cs), bs @ snd (foldl ?f (d, []) cs))" for d bs cs
  proof (induction cs arbitrary: d bs)
    case (Cons c cs)
    show ?case
      using Cons.IH [of "fst (det_push d c)" "bs @ snd (det_push d c)"] Cons.IH [of "fst (det_push d c)" "snd (det_push d c)"]
      by (simp add: split_beta Let_def)
  qed simp
  from this [of "fst (det_push d c)" "snd (det_push d c)" cs] show ?thesis
    by (simp add: push_chunks_def split_beta Let_def)
qed

lemma push_chunks_whole: "n \<noteq> 0 \<Longrightarrow> even n \<Longrightarrow> push_chunks d (chunks n xs) = det_push d xs"
proof (induction n xs arbitrary: d rule: chunks.induct)
  case (1 n xs)
  show ?case
  proof (cases "xs = [] \<or> length xs \<le> n")
    case True
    then show ?thesis using 1(2) by (cases "xs = []") (simp_all add: chunks_step push_chunks_def det_push_def split_beta Let_def)
  next
    case False
    then have ih: "push_chunks e (chunks n (drop n xs)) = det_push e (drop n xs)" for e using 1 by blast
    have "even (length (take n xs))" using False 1(3) by simp
    from det_push_append [OF this, of d "drop n xs"]
    have "det_push d xs = (let (d1, b1) = det_push d (take n xs); (d2, b2) = det_push d1 (drop n xs) in (d2, b1 @ b2))"
      by simp
    moreover have "chunks n xs = take n xs # chunks n (drop n xs)" using False 1(2) by (simp add: chunks_step)
    ultimately show ?thesis by (simp only: push_chunks_Cons ih)
  qed
qed

lemma chunking_does_not_change_the_result_passes: "chunking_does_not_change_the_result"
proof -
  have "snd (det_push test_detector (quiet 1 @ synthesize FRAME RATE 100 @ quiet 1)) = [\<lparr>burst_timings = FRAME, burst_peak = 100\<rparr>]"
    using frame_then_quiet [OF armed_100000 silent_start]
    by (simp add: det_push_append [OF even_quiet] first_quiet_window split_beta del: One_nat_def)
  then show ?thesis
    using push_chunks_whole [of "777 * 2" test_detector "quiet 1 @ synthesize FRAME RATE 100 @ quiet 1"]
    by (simp add: chunking_does_not_change_the_result_def Let_def del: One_nat_def)
qed

subsection \<open>A glitch\<close>

lemma glitch_heard:
  assumes n: "6000 \<le> n"
  shows "snd (foldl det_step (armed (short_window 100000) 1, []) (envelope (synthesize [500, -20, 500, -500, 500] RATE 100) @ replicate n 0)) =
      [\<lparr>burst_timings = [1020, -500, 500], burst_peak = 100\<rparr>]"
proof -
  have r: "run_signed \<lparr>run_on = True, run_us = 1020\<rparr> = 1020" "run_signed \<lparr>run_on = False, run_us = 500\<rparr> = -500"
    by (simp_all add: run_signed_def)
  have g: "run_duration 40 (us_per_sample RATE) = 20"
    using run_duration_2M [of 40] round_away_of_int [of 20] by (simp add: RATE_def)
  have env: "envelope (synthesize [500, -20, 500, -500, 500] RATE 100) =
      replicate 1000 100 @ replicate 40 0 @ replicate 1000 100 @ replicate 1000 0 @ replicate 1000 100 @ []"
    unfolding envelope_synthesize_Cons by (simp add: amp_100 RATE_def sample_count_2M) (simp add: synthesize_def envelope_def)
  obtain d1 where d1: "foldl det_step (armed (short_window 100000) 1, []) (replicate 1000 100) = (d1, [])"
    "det_at 100000 d1 1 True 1000 (Some \<lparr>run_on = False, run_us = 0\<rparr>) [] 100 1000"
    using segment_step [OF armed_100000 silent_start, of _ _ 1000 "[]"] by (auto simp: edge_def)
  obtain d2 where d2: "foldl det_step (d1, []) (replicate 40 0) = (d2, [])"
    "det_at 100000 d2 1 False 40 (Some \<lparr>run_on = True, run_us = 500\<rparr>) [] 100 1040"
    using segment_step [OF d1(2) half_ms, of _ _ 40 "[]"] by (auto simp: edge_def)
  obtain d3 where d3: "foldl det_step (d2, []) (replicate 1000 100) = (d3, [])"
    "det_at 100000 d3 1 True 1000 (Some \<lparr>run_on = True, run_us = 520\<rparr>) [] 100 2040"
    using segment_step [OF d2(2) g, of _ _ 1000 "[]"] by (auto simp: edge_def)
  obtain d4 where d4: "foldl det_step (d3, []) (replicate 1000 0) = (d4, [])"
    "det_at 100000 d4 1 False 1000 (Some \<lparr>run_on = True, run_us = 1020\<rparr>) [] 100 3040"
    using segment_step [OF d3(2) half_ms, of _ _ 1000 "[]"] by (auto simp: edge_def)
  obtain d5 where d5: "foldl det_step (d4, []) (replicate 1000 100) = (d5, [])"
    "det_at 100000 d5 1 True 1000 (Some \<lparr>run_on = False, run_us = 500\<rparr>) [1020] 100 4040"
    using segment_step [OF d4(2) half_ms, of _ _ 1000 "[]"] by (auto simp: edge_def r)
  have e: "edge True 1000 500 (Some \<lparr>run_on = False, run_us = 500\<rparr>) [1020] =
      Some (Some \<lparr>run_on = True, run_us = 500\<rparr>, [1020, -500])"
    by (simp add: edge_def run_signed_def)
  show ?thesis
    using det_at_silence [OF d5(2) half_ms e n, of "[]"]
    by (simp only: env foldl_append d1(1) d2(1) d3(1) d4(1) d5(1) foldl_Nil) simp
qed

lemma streaming_folds_glitches_exactly_as_the_offline_path_does_passes:
  "streaming_folds_glitches_exactly_as_the_offline_path_does"
proof -
  let ?ts = "[500, -20, 500, -500, 500] :: int list"
  let ?sig = "quiet 1 @ synthesize ?ts RATE 100 @ quiet 1" and ?us = "[-50000, 500, -20, 500, -500, 500, -50000] :: int list"
  have s: "snd (det_push test_detector ?sig) = [\<lparr>burst_timings = [1020, -500, 500], burst_peak = 100\<rparr>]"
    using glitch_heard [of 100000]
    by (simp add: det_push_append [OF even_quiet] first_quiet_window split_beta det_push_envelope [of "armed (short_window 100000) 1"]
        envelope_append [OF even_length_synthesize] length_quiet_test del: One_nat_def replicate_Suc)
  have env: "envelope ?sig = envelope (synthesize ?us RATE 100)"
    by (simp add: envelope_append [OF even_quiet] envelope_append [OF even_length_synthesize] length_quiet_test
        envelope_synthesize_Cons amp_100 RATE_def sample_count_2M del: replicate_Suc)
      (simp add: synthesize_def envelope_def)
  define thr where "thr = threshold (levels_of (envelope ?sig) (Fin (1/2)))"
  have thr: "0 < thr" "thr \<le> 100"
    unfolding thr_def env by (rule synthesized_threshold; simp)+
  have d: "run_duration 1000 (us_per_sample RATE) = 500" "run_duration 40 (us_per_sample RATE) = 20"
      "run_duration 100000 (us_per_sample RATE) = 50000" "us_to_samples (f64_of_nat 40) (us_per_sample RATE) = 80"
    using run_duration_2M [of 1000] run_duration_2M [of 40] run_duration_2M [of 100000] us_to_samples_2M [of 40]
      round_away_of_int [of 500] round_away_of_int [of 20] round_away_of_int [of 50000]
    by (simp_all add: RATE_def)
  have "raw_segments thr (envelope (synthesize ?us RATE 100)) = map (\<lambda>u. (0 < u, sample_count u RATE)) ?us"
    using thr by (intro raw_segments_synthesize) (simp_all add: amp_100 RATE_def sample_count_2M mark_of_def)
  also have "\<dots> = [(False, 100000), (True, 1000), (False, 40), (True, 1000), (False, 1000), (True, 1000), (False, 100000)]"
    by (simp add: RATE_def sample_count_2M)
  finally have "runs (envelope ?sig) thr RATE 40 = map timing_run [-50000, 1020, -500, 500, -50000]"
    unfolding env by (simp add: runs_fold push_run_def Let_def d timing_run_def)
  moreover have "split_bursts (map timing_run [-50000, 1020, -500, 500, -50000]) 3000 3 = [[1020, -500, 500]]"
    by code_simp
  ultimately show ?thesis using s
    by (simp add: streaming_folds_glitches_exactly_as_the_offline_path_does_def Let_def thr_def del: One_nat_def)
qed

end
