(* ===== verification/Noise_Test.thy ===== *)
theory Noise_Test
  imports Detector_Tests
begin

text \<open>
  The unit test of \<open>ook.rs\<close> that the live detector slices no frame out of noise: 400,000 samples
  that repeat after eleven. Every window of them is measured alike, so the threshold parks far above
  the noise from the first window on.
\<close>

definition noise :: "byte list" where
  "noise = map (\<lambda>i. of_nat ((i * 7919) mod 11)) [0..<400000 * 2]"

definition pure_noise_produces_no_bursts :: bool where
  "pure_noise_produces_no_bursts \<longleftrightarrow> snd (det_push test_detector noise) = []"

section \<open>The samples repeat\<close>

lemma iq_samples_map_upt: "iq_samples (map f [0..<n * 2]) = map (\<lambda>j. (f (j * 2), f (j * 2 + 1))) [0..<n]"
proof (induction n)
  case (Suc n)
  have "[0..<Suc n * 2] = [0..<n * 2] @ [n * 2, n * 2 + 1]" by simp
  then have "map f [0..<Suc n * 2] = map f [0..<n * 2] @ [f (n * 2), f (n * 2 + 1)]" by simp
  then show ?case using Suc iq_samples_append [of "map f [0..<n * 2]" "[f (n * 2), f (n * 2 + 1)]"] by simp
qed simp

definition noise_at :: "nat \<Rightarrow> nat" where
  "noise_at j = (j * 2 * 7919) mod 11 + ((j * 2 + 1) * 7919) mod 11"

lemma noise_at_mod: "noise_at (j mod 11) = noise_at j"
proof -
  have e: "noise_at k = (k * 15838) mod 11 + (k * 15838 + 7919) mod 11" for k
  proof -
    have "k * 2 * 7919 = k * 15838" "(k * 2 + 1) * 7919 = k * 15838 + 7919" by presburger+
    then show ?thesis by (simp only: noise_at_def)
  qed
  have m: "(j mod 11 * 15838) mod 11 = (j * 15838) mod 11" by (rule mod_mult_left_eq)
  then have "(j mod 11 * 15838 + 7919) mod 11 = (j * 15838 + 7919) mod 11" by (metis mod_add_left_eq)
  then show ?thesis unfolding e m by (rule arg_cong)
qed

lemma window_100000: "dc_window_samples (short_window 100000) = 100000"
  by (simp add: short_window_def)

lemma envelope_noise: "envelope noise = map noise_at [0..<400000]"
proof -
  have s: "sint (of_nat (k mod 11) :: byte) = int (k mod 11)" for k :: nat
  proof -
    have b: "sint (of_nat n :: byte) = int n" if "n < 11" for n
      using that by transfer (simp add: signed_take_bit_int_eq_self)
    show ?thesis by (rule b) simp
  qed
  show ?thesis unfolding envelope_def noise_def iq_samples_map_upt
    by (simp add: sample_magnitude_eq s noise_at_def)
qed

text \<open>In a window of consecutive samples every residue occurs equally often, up to one.\<close>

definition hits :: "(nat \<Rightarrow> bool) \<Rightarrow> nat \<Rightarrow> nat \<Rightarrow> nat" where
  "hits P s n = length (filter (\<lambda>j. P (noise_at j)) [s..<s + n])"

lemma hits_Suc: "hits P s (Suc n) = hits P s n + (if P (noise_at (s + n)) then 1 else 0)"
  by (simp add: hits_def)

lemma hits_front: "hits P s (Suc n) = (if P (noise_at s) then 1 else 0) + hits P (Suc s) n"
proof -
  have "[s..<s + Suc n] = s # [Suc s..<Suc s + n]" by (subst upt_conv_Cons) simp_all
  then show ?thesis by (simp only: hits_def filter.simps) simp
qed

lemma hits_add: "hits P s (m + n) = hits P s m + hits P (s + m) n"
  by (induction n) (simp_all add: hits_Suc hits_def add.assoc)

lemma hits_period: "hits P s 11 = hits P 0 11"
proof (induction s)
  case (Suc s)
  have "noise_at (s + 11) = noise_at s" using noise_at_mod [of "s + 11"] noise_at_mod [of s] by simp
  then have "hits P (Suc s) 11 = hits P s 11"
    using hits_Suc [of P s 11] hits_front [of P s 11] by simp
  then show ?case using Suc by simp
qed simp

lemma hits_periods: "hits P s (k * 11) = k * hits P 0 11"
proof (induction k)
  case (Suc k)
  have k: "Suc k * 11 = k * 11 + 11" by simp
  show ?case using hits_add [of P s "k * 11" 11] hits_period [of P "s + k * 11"] Suc unfolding k by simp
qed (simp add: hits_def)

lemma hits_window: "9090 * hits P 0 11 \<le> hits P s 100000" "hits P s 100000 \<le> 9091 * hits P 0 11"
proof -
  have "hits P s 100000 = hits P s (9090 * 11) + hits P (s + 9090 * 11) 10" using hits_add [of P s "9090 * 11" 10] by simp
  then show "9090 * hits P 0 11 \<le> hits P s 100000" by (simp only: hits_periods)
  have "hits P s (9091 * 11) = hits P s 100000 + hits P (s + 100000) 1" using hits_add [of P s 100000 1] by simp
  then show "hits P s 100000 \<le> 9091 * hits P 0 11" by (simp only: hits_periods)
qed

lemma eleven: "[0..<11] = [0, 1, 2, 3, 4, 5, 6, 7, 8, 9, 10 :: nat]"
  by (simp add: upt_rec)

lemma noise_le: "noise_at j \<le> 20"
proof -
  have "(j * 2 * 7919) mod 11 < 11" "((j * 2 + 1) * 7919) mod 11 < 11" by simp_all
  then show ?thesis unfolding noise_at_def by linarith
qed

section \<open>The threshold learnt from it\<close>

definition noise_window :: "nat \<Rightarrow> nat list" where
  "noise_window s = map noise_at [s..<s + 100000]"

lemma noise_percentile:
  assumes q: "1/4 \<le> q" "q \<le> 9999/10000"
    and low: "9091 * hits (\<lambda>m. m < v) 0 11 + 2 \<le> nat \<lfloor>100000 * q\<rfloor>"
    and high: "nat \<lceil>100000 * q\<rceil> + 2 \<le> 9090 * hits (\<lambda>m. m \<le> v) 0 11"
  shows "hist_percentile (hist_of (noise_window s)) (to_f64 q) = v"
proof -
  let ?ms = "noise_window s" and ?r = "quantile_rank 100000 (to_f64 q)"
  have len: "length ?ms = 100000" by (simp add: noise_window_def)
  have xs: "map clamp_mag ?ms = ?ms"
  proof (rule map_idI)
    fix m assume "m \<in> set ?ms"
    then have "m \<le> 20" using noise_le by (auto simp: noise_window_def)
    then show "clamp_mag m = m" by (simp add: clamp_mag_def mag_levels_def)
  qed
  have f: "length (filter P ?ms) = hits P s 100000" for P
    by (simp add: noise_window_def hits_def filter_map o_def)
  have r: "1 \<le> ?r" "?r \<le> 100000"
    using quantile_rank_in_range [OF q, of 100000] by simp_all
  have near: "100000 * q - 1/2 \<le> of_nat ?r" "of_nat ?r \<le> 100000 * q + 3/2"
    using rank_near [of q 100000] q by simp_all
  have "of_int \<lfloor>100000 * q\<rfloor> \<le> 100000 * q" "100000 * q \<le> of_int \<lceil>100000 * q\<rceil>" by simp_all
  then have "of_int \<lfloor>100000 * q\<rfloor> \<le> (of_nat ?r + 1 :: rat)" "(of_nat ?r :: rat) \<le> of_int \<lceil>100000 * q\<rceil> + 2"
    using near by linarith+
  then have "of_int \<lfloor>100000 * q\<rfloor> \<le> (of_int (int ?r + 1) :: rat)" "(of_int (int ?r) :: rat) \<le> of_int (\<lceil>100000 * q\<rceil> + 2)"
    by simp_all
  then have b: "\<lfloor>100000 * q\<rfloor> \<le> int ?r + 1" "int ?r \<le> \<lceil>100000 * q\<rceil> + 2" by (simp_all only: of_int_le_iff)
  have p: "hist_percentile (hist_of ?ms) (to_f64 q) = sort ?ms ! (?r - 1)"
    using hist_percentile_sorted [OF hist_ok_of [of ?ms], of "to_f64 q"] r by (simp add: len xs)
  have "hits (\<lambda>m. m < v) s 100000 \<le> ?r - 1" using hits_window(2) [of "\<lambda>m. m < v" s] low b(1) by linarith
  then have "\<not> sort ?ms ! (?r - 1) < v"
    using sorted_nth_less_iff [OF sorted_sort [of ?ms], of "?r - 1" v] r by (simp add: length_filter_sort f len)
  moreover have "?r - 1 < hits (\<lambda>m. m < Suc v) s 100000"
    using hits_window(1) [of "\<lambda>m. m \<le> v" s] high b(2) r by (simp add: less_Suc_eq_le)
  then have "sort ?ms ! (?r - 1) < Suc v"
    using sorted_nth_less_iff [OF sorted_sort [of ?ms], of "?r - 1" "Suc v"] r by (simp add: length_filter_sort f len)
  ultimately show ?thesis unfolding p by simp
qed

lemma noise_floor_of_window: "hist_percentile (hist_of (noise_window s)) p_median = 10"
  unfolding p_median_def by (rule noise_percentile) (simp_all add: hits_def eleven noise_at_def)

lemma noise_quartile_of_window: "hist_percentile (hist_of (noise_window s)) p_quartile = 15"
  unfolding p_quartile_def by (rule noise_percentile) (simp_all add: hits_def eleven noise_at_def)

lemma f64_near:
  assumes "1 / 2 ^ 100 \<le> x" "x \<le> 2 ^ 100"
  shows "\<exists>y. to_f64 x = Fin y \<and> x * (99/100) \<le> y \<and> y \<le> x * (101/100)"
proof -
  have x: "0 < x" using assms(1) by (rule less_le_trans [rotated]) simp
  obtain y where y: "to_f64 x = Fin y" "\<bar>y - x\<bar> \<le> \<bar>x\<bar> / 2 ^ 53"
    by (rule to_f64_err [OF f64_range_easy [OF assms]])
  have "\<bar>x\<bar> = x" using x by simp
  then have "\<bar>y - x\<bar> \<le> x / 2 ^ 53" using y(2) by (simp only:)
  then have "y - x \<le> x / 2 ^ 53" "x - y \<le> x / 2 ^ 53" by (simp_all only: abs_le_iff) simp
  moreover have "x / 2 ^ 53 \<le> x * (1/100)" using x by simp
  ultimately have "y - x \<le> x * (1/100)" "x - y \<le> x * (1/100)" by (blast intro: order_trans)+
  then have "x * (99/100) \<le> y" "y \<le> x * (101/100)" by simp_all
  then show ?thesis using y(1) by blast
qed

lemma noise_threshold: "20 < retuned_threshold (short_window 100000) (hist_of (noise_window s))"
proof -
  obtain y where y: "robust_sigma = Fin y" "674/1000 * (99/100) \<le> y" "y \<le> 674/1000 * (101/100)"
    using f64_near [of "674/1000"] unfolding robust_sigma_def by auto
  define q where "q = 5 / y"
  have y0: "1/2 \<le> y" "y \<le> 3/4" using y by simp_all
  then have d: "20/3 \<le> q" "q \<le> 10" unfolding q_def by (simp_all add: field_simps)
  then obtain z where z: "to_f64 q = Fin z" "q * (99/100) \<le> z" "z \<le> q * (101/100)"
    using f64_near [of q] by auto
  have z0: "6 \<le> z" "z \<le> 11" using z(2,3) d by simp_all
  then obtain w where w: "to_f64 (z * 8) = Fin w" "z * 8 * (99/100) \<le> w"
    using f64_near [of "z * 8"] by auto
  have "of_int 40 \<le> w" using w(2) z0 by simp
  then have r: "40 \<le> round_away w" using round_away_mono [of "of_int 40" w] by (simp only: round_away_of_int)
  have "f_div (f64_of_nat 5) robust_sigma = Fin z"
    unfolding y(1) using z(1) y0 by (simp add: f64_of_nat_small q_def)
  moreover have "dc_noise_sigmas (short_window 100000) = Fin 8"
    using to_f64_of_int [of 8] by (simp add: short_window_def detector_config_new_def)
  ultimately have m: "f_mul (f_div (f64_of_nat 5) robust_sigma) (dc_noise_sigmas (short_window 100000)) = Fin w" using w(1) by simp
  have "40 \<le> f_as_u16 (f_round (Fin w))" using r by (simp add: f_as_u16_of_int u16_max_def)
  then show ?thesis
    by (simp add: retuned_threshold_def Let_def noise_floor_of_window noise_quartile_of_window m u16_sat_add_def u16_max_def
        less_max_iff_disj)
qed

section \<open>Below the threshold\<close>

text \<open>An idle detector whose window has just begun.\<close>

definition hears_noise :: "detector \<Rightarrow> bool" where
  "hears_noise d \<longleftrightarrow> det_idle d \<and> det_config d = (short_window 100000) \<and> det_window_seen d = 0 \<and> det_histogram d = hist_new \<and>
     (\<exists>t. det_threshold d = Some t \<and> 20 < t)"

lemma idle_below:
  assumes "det_idle d" "det_config d = (short_window 100000)" "det_threshold d = Some t" "\<forall>m \<in> set ms. m < t"
    and "det_window_seen d + length ms < 100000"
  shows "\<exists>e. foldl det_step (d, bs) ms = (e, bs) \<and> det_idle e \<and> det_config e = (short_window 100000) \<and> det_threshold e = Some t \<and>
    det_window_seen e = det_window_seen d + length ms \<and> det_histogram e = foldl add_magnitude (det_histogram d) ms"
  using assms
proof (induction ms arbitrary: d)
  case (Cons m ms)
  define e where "e = fst (det_step (d, bs) m)"
  have e: "det_step (d, bs) m = (e, bs)" "det_idle e" "det_config e = (short_window 100000)" "det_threshold e = Some t"
    "det_window_seen e = det_window_seen d + 1" "det_histogram e = add_magnitude (det_histogram d) m"
    using Cons.prems unfolding e_def
    by (auto simp: det_step_def det_idle_def push_sample_def flush_gap_def acc_finish_def deliver_def
        strip_spaces_def Let_def window_100000 prod_eq_iff)
  then show ?case using Cons.IH [of e] Cons.prems by auto
qed simp

lemma hears_noise_window:
  assumes d: "hears_noise d"
  shows "\<exists>e. foldl det_step (d, []) (noise_window s) = (e, []) \<and> hears_noise e"
proof -
  obtain t where t: "det_threshold d = Some t" "20 < t" using d by (auto simp: hears_noise_def)
  have small: "noise_at j < t" for j using noise_le [of j] t(2) by linarith
  let ?ms = "map noise_at [s..<s + 99999]" and ?m = "noise_at (s + 99999)"
  have "[s..<s + 100000] = [s..<s + 99999] @ [s + 99999]" using upt_Suc_append [of s "s + 99999"] by (simp add: add.commute)
  then have w: "noise_window s = ?ms @ [?m]" by (simp add: noise_window_def)
  obtain e where e: "foldl det_step (d, []) ?ms = (e, [])" "det_idle e" "det_config e = (short_window 100000)" "det_threshold e = Some t"
    "det_window_seen e = 99999" "det_histogram e = foldl add_magnitude hist_new ?ms"
    using idle_below [of d t ?ms "[]"] d t small by (auto simp: hears_noise_def)
  have h: "add_magnitude (det_histogram e) ?m = hist_of (noise_window s)"
    by (simp add: e(6) w hist_of_def)
  define g where "g = fst (det_step (e, []) ?m)"
  have g: "det_step (e, []) ?m = (g, [])" "hears_noise g"
    using e(2-5) h small [of "s + 99999"] noise_threshold [of s] unfolding g_def
    by (auto simp: det_step_def det_idle_def push_sample_def flush_gap_def acc_finish_def deliver_def hears_noise_def
        strip_spaces_def Let_def window_100000 prod_eq_iff retune_def)
  show ?thesis unfolding w using g e(1) by (intro exI [of _ g]) simp
qed

lemma noise_windows: "envelope noise = noise_window 0 @ noise_window 100000 @ noise_window 200000 @ noise_window 300000"
proof -
  have "[0..<400000] = [0..<100000] @ [100000..<200000] @ [200000..<300000] @ [300000..<400000 :: nat]"
    using upt_add_eq_append [of 0 300000 100000] upt_add_eq_append [of 0 200000 100000] upt_add_eq_append [of 0 100000 100000]
    by (simp del: upt_rec_numeral)
  then show ?thesis by (simp add: envelope_noise noise_window_def del: upt_rec_numeral)
qed

lemma pure_noise_produces_no_bursts_passes: "pure_noise_produces_no_bursts"
proof -
  let ?d = "detector_new (short_window 100000)"
  have len: "length (noise_window 0) = 100000" by (simp add: noise_window_def)
  have f: "det_threshold ?d = None" "det_window_seen ?d = 0" "det_config ?d = (short_window 100000)" "det_histogram ?d = hist_new"
    by (simp_all add: detector_new_def Let_def)
  have "noise_window 0 \<noteq> []" using len by auto
  then have w: "foldl det_step (?d, []) (noise_window 0) = (armed (short_window 100000) (retuned_threshold (short_window 100000) (hist_of (noise_window 0))), [])"
    using det_learns [of ?d "noise_window 0" "[]"] f len
    by (simp add: window_100000 Let_def armed_def hist_of_def)
  have "1 \<le> dc_min_edges (short_window 100000)" by (simp add: short_window_def)
  then have l: "hears_noise (armed (short_window 100000) (retuned_threshold (short_window 100000) (hist_of (noise_window 0))))"
    using noise_threshold [of 0]
    by (simp add: hears_noise_def det_idle_def armed_def) (simp add: detector_new_def Let_def acc_new_def)
  obtain e1 where e1: "foldl det_step (armed (short_window 100000) (retuned_threshold (short_window 100000) (hist_of (noise_window 0))), []) (noise_window 100000) = (e1, [])"
    "hears_noise e1" using hears_noise_window [OF l] by blast
  obtain e2 where e2: "foldl det_step (e1, []) (noise_window 200000) = (e2, [])" "hears_noise e2"
    using hears_noise_window [OF e1(2)] by blast
  obtain e3 where e3: "foldl det_step (e2, []) (noise_window 300000) = (e3, [])"
    using hears_noise_window [OF e2(2)] by blast
  have "det_push test_detector noise = (e3, [])"
    by (simp only: det_push_envelope noise_windows test_detector_eq foldl_append w e1(1) e2(1) e3)
  then show ?thesis by (simp add: pure_noise_produces_no_bursts_def)
qed

end
