(* ===== verification/Unit_Tests.thy ===== *)
theory Unit_Tests
  imports Client_Link
begin

text \<open>
  The unit tests of \<open>wire.rs\<close>, \<open>server.rs\<close> and \<open>radio.rs\<close>, on the model: JSON values in place
  of JSON text.
\<close>

section \<open>Wire\<close>

definition test_transmit :: "int list \<Rightarrow> transmit" where
  "test_transmit timings = \<lparr>tx_frequency = 315000000, tx_timings = timings, tx_repeat = 0, tx_gap_us = 0,
     tx_txvga_db = None, tx_amp = False\<rparr>"

lemmas read_defs = required_def defaulted_def json_field_def read_payload_def read_transmit_def read_configure_rx_def
  protocol_version_def

definition a_minimal_transmit_request_parses :: "bool" where
  "a_minimal_transmit_request_parses \<longleftrightarrow>
     read_request (JObject [(''type'', JString ''transmit''), (''frequency'', JInt 315000000), (''timings'', JArray [JInt 500, JInt (-500)])]) =
   Some \<lparr>req_v = protocol_version, req_id = None, req_payload = Transmit (test_transmit [500, -500])\<rparr>"

lemma a_minimal_transmit_request_parses_passes: "a_minimal_transmit_request_parses"
  unfolding a_minimal_transmit_request_parses_def by (simp add: read_defs test_transmit_def in_i64_def i64_min_def i64_max_def)

definition the_envelope_round_trips_an_id_and_version :: "bool" where
  "the_envelope_round_trips_an_id_and_version \<longleftrightarrow>
     read_request (JObject [(''v'', JInt 1), (''id'', JString ''abc''), (''type'', JString ''configure_rx''),
     (''frequency'', JInt 433920000), (''enabled'', JBool True)]) =
   Some \<lparr>req_v = 1, req_id = Some ''abc'', req_payload = Configure_Rx \<lparr>rx_frequency_opt = Some 433920000, rx_enable = True\<rparr>\<rparr>"

lemma the_envelope_round_trips_an_id_and_version_passes: "the_envelope_round_trips_an_id_and_version"
  unfolding the_envelope_round_trips_an_id_and_version_def by (simp add: read_defs)

definition status_needs_no_fields :: "bool" where
  "status_needs_no_fields \<longleftrightarrow>
     read_request (JObject [(''type'', JString ''status'')]) = Some \<lparr>req_v = 1, req_id = None, req_payload = Status_Request\<rparr>"

lemma status_needs_no_fields_passes: "status_needs_no_fields"
  unfolding status_needs_no_fields_def by (simp add: read_defs)

definition an_unknown_request_type_is_rejected_rather_than_ignored :: "bool" where
  "an_unknown_request_type_is_rejected_rather_than_ignored \<longleftrightarrow>
     read_request (JObject [(''type'', JString ''self_destruct'')]) = None"

lemma an_unknown_request_type_is_rejected_rather_than_ignored_passes: "an_unknown_request_type_is_rejected_rather_than_ignored"
  unfolding an_unknown_request_type_is_rejected_rather_than_ignored_def by (simp add: read_defs)

definition events_serialize_flat_with_a_type_tag :: "(error \<Rightarrow> string) \<Rightarrow> bool" where
  "events_serialize_flat_with_a_type_tag render \<longleftrightarrow>
     message_json render (event (Rx_Frame \<lparr>fr_frequency = 315000000, fr_timings = [500, -500], fr_rssi = 72, fr_timestamp_ms = 1700000000000\<rparr>)) =
   JObject [(''v'', JInt 1), (''type'', JString ''rx_frame''), (''frequency'', JInt 315000000),
     (''timings'', JArray [JInt 500, JInt (-500)]), (''rssi'', JInt 72), (''timestamp_ms'', JInt 1700000000000)]"

lemma events_serialize_flat_with_a_type_tag_passes: "events_serialize_flat_with_a_type_tag render"
  unfolding events_serialize_flat_with_a_type_tag_def by (simp add: message_json_def message_fields_def rx_frame_fields_def event_def protocol_version_def jnat_def)

definition a_reply_carries_the_request_id_and_an_event_carries_none :: "(error \<Rightarrow> string) \<Rightarrow> bool" where
  "a_reply_carries_the_request_id_and_an_event_carries_none render \<longleftrightarrow>
     (message_json render (reply (Some ''abc'') (Transmitted 1000)) =
     JObject [(''v'', JInt 1), (''id'', JString ''abc''), (''type'', JString ''transmitted''), (''duration_us'', JInt 1000)]) \<and>
     (message_json render (event (Device_State Receiving)) =
     JObject [(''v'', JInt 1), (''type'', JString ''device_state''), (''state'', JString ''receiving'')])"

lemma a_reply_carries_the_request_id_and_an_event_carries_none_passes: "a_reply_carries_the_request_id_and_an_event_carries_none render"
  unfolding a_reply_carries_the_request_id_and_an_event_carries_none_def by (intro conjI) (simp_all add: message_json_def message_fields_def reply_def event_def protocol_version_def jnat_def)

definition device_state_is_a_bare_string_inside_status_too :: "status \<Rightarrow> bool" where
  "device_state_is_a_bare_string_inside_status_too st \<longleftrightarrow>
     map_of (status_fields (st\<lparr>st_state := Faulted\<rparr>)) ''state'' = Some (JString ''faulted'')"

lemma device_state_is_a_bare_string_inside_status_too_passes: "device_state_is_a_bare_string_inside_status_too st"
  unfolding device_state_is_a_bare_string_inside_status_too_def by (simp add: status_fields_def)

definition valid_requests_pass :: "bool" where
  "valid_requests_pass \<longleftrightarrow>
     validate (test_transmit [500, -500, 500]) = Inr ()"

lemma valid_requests_pass_passes: "valid_requests_pass"
  unfolding valid_requests_pass_def by (simp add: validate_acceptable acceptable_def test_transmit_def air_time_us_def Let_def sat_add_def sat_abs_def
      sat_mul_def wrap_i64_def saturate_i64_def i64_min_def i64_max_def)

definition air_time_counts_repeats_and_gaps :: "bool" where
  "air_time_counts_repeats_and_gaps \<longleftrightarrow>
     (let request = (test_transmit [81100])\<lparr>tx_repeat := 9, tx_gap_us := 4150\<rparr>
      in air_time_us request = 811000 + 9 * 4150 \<and> validate request = Inr ())"

lemma air_time_counts_repeats_and_gaps_passes: "air_time_counts_repeats_and_gaps"
proof -
  have air: "air_time_us ((test_transmit [81100])\<lparr>tx_repeat := 9, tx_gap_us := 4150\<rparr>) = 811000 + 9 * 4150"
    by (simp add: test_transmit_def air_time_us_def Let_def sat_add_def sat_abs_def
      sat_mul_def wrap_i64_def saturate_i64_def i64_min_def i64_max_def)
  then have "validate ((test_transmit [81100])\<lparr>tx_repeat := 9, tx_gap_us := 4150\<rparr>) = Inr ()"
    unfolding validate_acceptable acceptable_def by (simp add: air) (simp add: test_transmit_def)
  with air show ?thesis unfolding air_time_counts_repeats_and_gaps_def Let_def by (rule conjI)
qed

definition a_request_that_would_hold_the_band_too_long_is_refused :: "bool" where
  "a_request_that_would_hold_the_band_too_long_is_refused \<longleftrightarrow>
     validate ((test_transmit [500000])\<lparr>tx_repeat := 100000\<rparr>) = Inl (Air_Time_Too_Long (500000 * 100001))"

lemma a_request_that_would_hold_the_band_too_long_is_refused_passes: "a_request_that_would_hold_the_band_too_long_is_refused"
  unfolding a_request_that_would_hold_the_band_too_long_is_refused_def by (simp add: validate_def test_transmit_def max_timings_def max_air_time_us_def air_time_us_def Let_def sat_add_def sat_abs_def
      sat_mul_def wrap_i64_def saturate_i64_def i64_min_def i64_max_def)

definition nonsense_requests_are_refused :: "bool" where
  "nonsense_requests_are_refused \<longleftrightarrow>
     (validate (test_transmit []) = Inl Empty) \<and>
     (validate (test_transmit [500, 0, 500]) = Inl Zero_Timing) \<and>
     (validate ((test_transmit [500])\<lparr>tx_frequency := 315\<rparr>) = Inl (Frequency_Out_Of_Range 315)) \<and>
     (validate ((test_transmit [500])\<lparr>tx_txvga_db := Some 60\<rparr>) = Inl (Gain_Too_High 60))"

lemma nonsense_requests_are_refused_passes: "nonsense_requests_are_refused"
  unfolding nonsense_requests_are_refused_def by (intro conjI) (simp_all add: validate_def test_transmit_def max_timings_def)

definition air_time_of_an_absurd_request_saturates_instead_of_wrapping :: "bool" where
  "air_time_of_an_absurd_request_saturates_instead_of_wrapping \<longleftrightarrow>
     validate ((test_transmit [i64_max, i64_max])\<lparr>tx_repeat := 2 ^ 32 - 1\<rparr>) = Inl (Air_Time_Too_Long i64_max)"

lemma air_time_of_an_absurd_request_saturates_instead_of_wrapping_passes: "air_time_of_an_absurd_request_saturates_instead_of_wrapping"
  unfolding air_time_of_an_absurd_request_saturates_instead_of_wrapping_def by (simp add: validate_def test_transmit_def max_timings_def max_air_time_us_def air_time_us_def Let_def sat_add_def sat_abs_def
      sat_mul_def wrap_i64_def saturate_i64_def i64_min_def i64_max_def)

section \<open>Server\<close>

text \<open>What a client reads back, the JSON of its request given.\<close>

definition round_trip :: "'s link \<Rightarrow> (error \<Rightarrow> string) \<Rightarrow> json \<Rightarrow> 's \<Rightarrow> dict \<times> 's" where
  "round_trip lk render request s =
     (let (m, s1) = dispatch lk (wire_parse (\<lambda>txt. Inr request)) '''' s in (message_fields render m, s1))"

definition a_malformed_request_gets_a_parse_error :: "'s link \<Rightarrow> (error \<Rightarrow> string) \<Rightarrow> error \<Rightarrow> string \<Rightarrow> 's \<Rightarrow> bool" where
  "a_malformed_request_gets_a_parse_error lk render e t1 s \<longleftrightarrow>
     (dispatch lk (wire_parse (\<lambda>t1. Inl e)) t1 s = (event (Error (Could_Not_Parse e)), s)) \<and>
     (py_get ''type'' (fst (round_trip lk render (JObject [(''type'', JString ''nonsense'')]) s)) = Some (JString ''error''))"

lemma a_malformed_request_gets_a_parse_error_passes: "a_malformed_request_gets_a_parse_error lk render e t1 s"
  unfolding a_malformed_request_gets_a_parse_error_def by (intro conjI) (simp_all add: round_trip_def dispatch_def wire_parse_def read_defs message_type event_def)

definition a_future_protocol_version_is_refused_by_name :: "'s link \<Rightarrow> (error \<Rightarrow> string) \<Rightarrow> 's \<Rightarrow> bool" where
  "a_future_protocol_version_is_refused_by_name lk render s \<longleftrightarrow>
     round_trip lk render (JObject [(''v'', JInt 99), (''type'', JString ''status'')]) s =
     ([(''v'', JInt 1), (''type'', JString ''error''),
       (''message'', JString ''protocol version 99 is not supported; this daemon speaks version 1'')], s)"

lemma a_future_protocol_version_is_refused_by_name_passes: "a_future_protocol_version_is_refused_by_name lk render s"
proof -
  have "dec 99 = ''99''" "dec 1 = ''1''" by code_simp+
  then show ?thesis
    by (simp add: a_future_protocol_version_is_refused_by_name_def round_trip_def dispatch_def wire_parse_def read_defs message_fields_def error_reply_def reply_def jnat_def)
qed

definition an_invalid_transmit_is_refused_without_reaching_the_radio :: "'s link \<Rightarrow> (error \<Rightarrow> string) \<Rightarrow> 's \<Rightarrow> bool" where
  "an_invalid_transmit_is_refused_without_reaching_the_radio lk render s \<longleftrightarrow>
     round_trip lk render (JObject [(''id'', JString ''x''), (''type'', JString ''transmit''), (''frequency'', JInt 315000000), (''timings'', JArray [])]) s =
     ([(''v'', JInt 1), (''id'', JString ''x''), (''type'', JString ''error''), (''message'', JString (refusal_text Empty))], s)"

lemma an_invalid_transmit_is_refused_without_reaching_the_radio_passes: "an_invalid_transmit_is_refused_without_reaching_the_radio lk render s"
  unfolding an_invalid_transmit_is_refused_without_reaching_the_radio_def by (simp add: round_trip_def dispatch_def dispatch_transmit_def wire_parse_def read_defs message_fields_def error_reply_def
      reply_def jnat_def validate_def)

definition a_transmit_is_forwarded_and_its_reply_carries_the_id :: "'s link \<Rightarrow> (error \<Rightarrow> string) \<Rightarrow> 's \<Rightarrow> 's \<Rightarrow> bool" where
  "a_transmit_is_forwarded_and_its_reply_carries_the_id lk render s s1 \<longleftrightarrow>
     (ask_transmit lk ((test_transmit [500, -500])\<lparr>tx_repeat := 9\<rparr>) s = (Inr (Inr 811000), s1)) \<longrightarrow>
     round_trip lk render (JObject [(''id'', JString ''7''), (''type'', JString ''transmit''), (''frequency'', JInt 315000000),
       (''timings'', JArray [JInt 500, JInt (-500)]), (''repeat'', JInt 9)]) s =
     ([(''v'', JInt 1), (''id'', JString ''7''), (''type'', JString ''transmitted''), (''duration_us'', JInt 811000)], s1)"

lemma a_transmit_is_forwarded_and_its_reply_carries_the_id_passes: "a_transmit_is_forwarded_and_its_reply_carries_the_id lk render s s1"
proof -
  let ?t = "(test_transmit [500, -500])\<lparr>tx_repeat := 9\<rparr>"
  have v: "validate ?t = Inr ()"
    by (simp add: validate_acceptable acceptable_def test_transmit_def air_time_us_def Let_def sat_add_def sat_abs_def
      sat_mul_def wrap_i64_def saturate_i64_def i64_min_def i64_max_def)
  have "read_request (JObject [(''id'', JString ''7''), (''type'', JString ''transmit''), (''frequency'', JInt 315000000),
       (''timings'', JArray [JInt 500, JInt (-500)]), (''repeat'', JInt 9)]) =
     Some \<lparr>req_v = 1, req_id = Some ''7'', req_payload = Transmit ?t\<rparr>"
    by (simp add: read_defs test_transmit_def in_i64_def i64_min_def i64_max_def)
  then show ?thesis using v
    by (simp add: a_transmit_is_forwarded_and_its_reply_carries_the_id_def round_trip_def dispatch_def dispatch_transmit_def wire_parse_def message_fields_def
      reply_def jnat_def protocol_version_def)
qed

section \<open>Radio\<close>

definition rx_gain_validation_matches_hardware_steps :: "bool" where
  "rx_gain_validation_matches_hardware_steps \<longleftrightarrow>
     (is_ok (validate_rx_gains 40 62)) \<and>
     (is_ok (validate_rx_gains 0 0)) \<and>
     (\<not> is_ok (validate_rx_gains 12 20)) \<and>
     (\<not> is_ok (validate_rx_gains 48 20)) \<and>
     (\<not> is_ok (validate_rx_gains 8 21))"

lemma rx_gain_validation_matches_hardware_steps_passes: "rx_gain_validation_matches_hardware_steps"
  unfolding rx_gain_validation_matches_hardware_steps_def by (intro conjI) (simp_all add: validate_rx_gains_def ensure_def)

definition tx_gain_and_sample_rate_bounds :: "bool" where
  "tx_gain_and_sample_rate_bounds \<longleftrightarrow>
     (is_ok (validate_tx_gain 47)) \<and>
     (\<not> is_ok (validate_tx_gain 48)) \<and>
     (is_ok (validate_sample_rate 2000000)) \<and>
     (\<not> is_ok (validate_sample_rate 1999999)) \<and>
     (\<not> is_ok (validate_sample_rate 20000001))"

lemma tx_gain_and_sample_rate_bounds_passes: "tx_gain_and_sample_rate_bounds"
  unfolding tx_gain_and_sample_rate_bounds_def by (intro conjI) (simp_all add: validate_tx_gain_def validate_sample_rate_def ensure_def)

definition padding_rounds_up_to_a_transfer_boundary :: "bool" where
  "padding_rounds_up_to_a_transfer_boundary \<longleftrightarrow>
     (length (pad_to_alignment (replicate (xfer_align + 1) 1)) = xfer_align * 2) \<and>
     (pad_to_alignment (replicate (xfer_align + 1) 1) ! xfer_align = 1) \<and>
     (pad_to_alignment (replicate (xfer_align + 1) 1) ! (xfer_align + 1) = 0) \<and>
     (length (pad_to_alignment (replicate xfer_align 1)) = xfer_align)"

lemma padding_rounds_up_to_a_transfer_boundary_passes: "padding_rounds_up_to_a_transfer_boundary"
  unfolding padding_rounds_up_to_a_transfer_boundary_def by (intro conjI) (simp_all add: pad_to_alignment_def xfer_align_def nth_append Let_def)

end
