(* ===== verification/Spec2Isabelle.thy ===== *)
theory Spec2Isabelle
  imports Serve_Examples Feed_Examples Tool_Examples Reception_Tests Noise_Test Unit_Tests
begin

text \<open>
  A model of \<open>hackrf-proxy\<close>, the daemon under \<open>src/proxyd\<close> that shares one HackRF radio with
  many WebSocket clients: it receives on-off-keyed (OOK) bursts and pushes them to every client,
  and transmits the timings a client asks for; and of its Python client, under
  \<open>src/clients/python\<close>.

  THE PROGRAM. Six modules and a client, and how they meet:
  \<^item> \<open>ook.rs\<close> turns samples into timings and timings into samples. It has no state but the
    live \<open>Detector\<close>.
  \<^item> \<open>wire.rs\<close> is the protocol: requests, replies, events, and the validation of a transmit
    request.
  \<^item> \<open>radio.rs\<close> owns the USB device: \<open>Device\<close> opens it lazily, drops it on failure and offers
    the trait \<open>Transceiver\<close>.
  \<^item> \<open>engine.rs\<close> is the arbiter: one thread that owns the \<open>Transceiver\<close>, the detector and the
    recorder, takes commands one at a time, preempts the receiver to transmit, announces what
    the radio is doing and retries a faulted radio.
  \<^item> \<open>server.rs\<close> parses a client's requests, validates them, asks the arbiter over a channel
    and queues the reply; events are forwarded from a broadcast channel.
  \<^item> \<open>main.rs\<close> is the command line: \<open>serve\<close> ties the above together; \<open>info\<close>, \<open>scan\<close>, \<open>capture\<close>,
    \<open>demod\<close> and \<open>transmit\<close> use \<open>ook.rs\<close> and \<open>radio.rs\<close> directly.
  \<^item> \<open>client.py\<close> keeps one connection to a daemon, matches replies to requests by id and tells
    its listeners whether the radio is available.

  THE THEORIES, in the order they build on each other.
  \<^item> Prelude: integer widths (\<open>i64\<close>, \<open>u16\<close>, \<open>u32\<close>, \<open>usize\<close>), saturation, alternating lists.
  \<^item> F64: the doubles the code computes with, as rationals rounded to 53 bits, to nearest with
    ties to even; \<open>round\<close> and the saturating \<open>as\<close> casts. Its lemmas bound rounding errors.
  \<^item> Ook_Levels, Ook_Runs, Ook_Synth, Ook_Detector: the functions of \<open>ook.rs\<close> in the order of
    the file, each \<open>fn\<close> a definition of the same name (methods of \<open>BurstAccumulator\<close> are
    \<open>acc_...\<close>, those of \<open>AmplitudeHistogram\<close> \<open>hist_...\<close>, those of \<open>Detector\<close> \<open>det_...\<close>).
  \<^item> Ook_Roundtrip: what \<open>render_transmission\<close> synthesizes is what \<open>runs\<close> and
    \<open>split_bursts\<close> read back, through the rounding of both directions.
  \<^item> Ook_Stream: the simulation between the live detector and the offline splitter.
  \<^item> Ook_Properties, Ook_Examples: the properties of this layer and buffers they apply to.
  \<^item> Effects: \<open>anyhow\<close> errors as values and \<open>?\<close> as sequencing over an explicit world.
  \<^item> Wire: \<open>wire.rs\<close>. Its lemmas compare the saturating air time with the true one.
  \<^item> Radio: the limits, the padding, the transfers and the hotplug filter of \<open>radio.rs\<close>.
  \<^item> Engine: \<open>engine.rs\<close>. \<open>arbiter_state\<close> is the struct \<open>State\<close>; the record \<open>arbiter\<close> adds the
    detector and recorder of \<open>run\<close>, the world behind the \<open>Transceiver\<close>, the clocks and the
    file, and the list of everything sent. \<open>loop_step\<close> is one pass of the loop in \<open>run\<close>,
    \<open>run_thread\<close> the whole function over what each poll of the inbox answered.
  \<^item> Arbiter: \<open>reachable\<close> states and their invariants; the locale \<open>transceiver\<close>, the contract
    between the arbiter and its radio, with what follows for the arbiter.
  \<^item> Radio_Device: \<open>Device\<close> of \<open>radio.rs\<close> over an arbitrary USB driver, and the interpretation
    of \<open>transceiver\<close> on it. A history of what the radio was asked to do states half-duplex use.
  \<^item> Arbiter_Properties: replies, announcements, counters, backoff, frames.
  \<^item> Server: \<open>dispatch\<close>, the connection's read loop and forwarder; the locale
    \<open>radio_service\<close>, what the server expects of the radio thread, interpreted on the arbiter.
  \<^item> Cli, Frequencies: \<open>parse_frequency\<close>, \<open>demod\<close>, the configuration of \<open>serve\<close>, \<open>transmit\<close>; what
    \<open>parse_frequency\<close> reads.
  \<^item> Capture: \<open>capture\<close> and \<open>scan\<close> of \<open>radio.rs\<close>. Their loops are partial functions, \<open>None\<close> for
    not returning; \<open>delivers\<close> is what they need of the driver to return.
  \<^item> Tools: the refusal texts of \<open>wire.rs\<close>, \<open>hrf info\<close> and \<open>hrf scan\<close>.
  \<^item> Connection: \<open>connection\<close> of \<open>server.rs\<close> as three tasks and a bounded queue; \<open>conn_step\<close> is
    one step of one of them, \<open>conn_run\<close> any interleaving; the abort of the forwarder is a step
    of its own, some time after the reader asked for it. \<open>accept_loop\<close> is \<open>server::serve\<close>.
  \<^item> Broadcast: the events channel and a connection's subscription to it. \<open>feed\<close> is a connection with
    its position in the events and the arbiter behind it, \<open>feed_step\<close> a step of any of them;
    \<open>keeps_newest\<close> and \<open>never_stalls\<close> are what is relied on of \<open>tokio::sync::broadcast\<close>.
  \<^item> Inbox: the command channel of \<open>main.rs\<close> and the thread behind it; \<open>sys_step\<close> is a send, a
    pass of the loop, the hang-up or the end, \<open>sys_run\<close> any interleaving.
  \<^item> Clients: any number of connections of \<open>server.rs\<close> and the radio thread at once. \<open>stage\<close> is
    where a \<open>dispatch\<close> is suspended, \<open>begin_dispatch\<close> and \<open>resume\<close> what it does up to and from
    an await, \<open>net_step\<close> a step of a client, the thread or the hotplug watcher. Dropping the
    runtime is its step \<open>hang_up\<close>: the clients' tasks end, and what the thread still replies is
    recorded in \<open>nt_lost\<close>. \<open>run_texts\<close>
    over \<open>scheduled_link\<close> is the specification: \<open>dispatch\<close>, request by request, with other
    commands served in between.
  \<^item> Accounts: the transmissions counted against the replies told, in hand, and lost at the
    shutdown. Serve_Process: \<open>serve\<close> as a sequence of phases (\<open>process_step\<close>), from start-up, with
    all that can fail there, to the signal that ends it, the join and the value returned.
  \<^item> Recovery: the arbiter and time. \<open>keeps_time\<close> says no operation turns the clock back;
    \<open>slow\<close> bounds faults by the time they take, \<open>ahead\<close> the wait for the next attempt.
  \<^item> Wire_Json: the JSON of \<open>wire.rs\<close>: \<open>message_json\<close> writes a message, \<open>read_request\<close> reads a
    request, field by field as the serde attributes say; \<open>wire_parse\<close> and \<open>wire_encode\<close> are
    what the server's parser and encoder parameters stand for.
  \<^item> Proxy_Client: \<open>client.py\<close>. The record \<open>proxy\<close> is \<open>ProxyClient\<close>; \<open>request_begin\<close> and
    \<open>request_end\<close> are \<open>_request\<close> before and after its awaits, \<open>client_dispatch\<close> is \<open>_dispatch\<close>,
    \<open>handshake_done\<close> the end of the handshake, \<open>connection_over\<close> the \<open>finally\<close> of \<open>_run\<close>,
    \<open>client_step\<close> any of these as the event loop may order them.
  \<^item> Client_Link: the client and the daemon together, request to reply and event to
    availability.
  \<^item> Awareness, Handshake: what a client knows of the radio, through the arbiter's announcements,
    the channel, the forwarder, the socket and the client's own state, and what it can miss.
    Feed_Examples: such an execution, with a channel of exactly 1024 events.
  \<^item> Engine_Tests, Unit_Tests, Ook_Tests: the fake radio of the unit tests and what the tests expect,
    for any number of passes where a test sleeps; Client_Examples, Serve_Examples: executions with clients.
  \<^item> Signal_Tests, Detector_Tests, Noise_Test, Reception_Tests: the unit tests with a signal on the
    air, on their own buffers: offline, through the live detector, through the radio thread.
    Detector_Segments steps the detector over a thousand equal samples at once.
  \<^item> Tuning: the locale \<open>tuned_radio\<close>, a predicate on the radio that supported settings keep,
    interpreted on \<open>Device\<close>, and with it the settings the daemon asks for.
  \<^item> Commands: the flags of every subcommand, their defaults, the files, and \<open>main\<close>. Tool_Chain,
    Tool_Examples: \<open>hrf demod\<close> followed by \<open>hrf transmit\<close>.
  \<^item> Daemon, Service: the properties that span components, over polls and over interleavings;
    Daemon_Examples, Service_Examples: the states, requests and drivers on which they apply.

  WHAT IS SHOWN. The two receivers agree with each other and with the transmitter, to the
  microsecond and over any chunking of the stream; buffers and lists stay bounded; levels are
  order statistics; every burst, live or offline, has the shape a request needs. Validation
  accepts exactly the requests the radio can do, short of one overflow, characterised by a theorem
  too. The arbiter answers each request once, announces changes
  only and truthfully, counts what happened and retries with bounded waits. The device is
  driven half-duplex and put down at the end, whatever the driver does and however clients,
  notices and the shutdown interleave, and it is only ever asked for settings it supports, by
  the daemon or by any other subcommand. A bad request is refused without the radio being
  asked, and \<open>transmitted\<close> means transmitted. A client's socket carries an interleaving of its
  replies and the events, both in order; a connection past its read loop cannot deadlock and
  ends with that loop's outcome. Each of many clients is answered as if it had the thread to
  itself, and can always be answered; the transmissions made are the ones reported, except for
  what was queued when the daemon shut down, which is still carried out and reported to
  nobody. However \<open>serve\<close> ends, the radio is down.
  A radio that answers but does not stream is left alone for longer and longer, and one that
  works again is received from within a minute. A caller of the Python client gets the reply
  to its own request and learns whether the radio transmitted; its availability follows the
  events, which at the handshake is not enough, and an argument the protocol cannot represent
  is never answered: both are theorems too. A slow client loses the oldest events only, can
  always catch up, and then knows whether the radio is broken; the announcement it can miss
  is that reception resumed, and at the handshake a fault. What \<open>hrf demod\<close> records \<open>hrf
  transmit\<close> sends. The field tools return as long as the driver answers reads, and measure what they say.

  BOUNDS. There is no fuel. Functions are total, loops of the source being recursion over
  the samples, runs, messages or polls they consume, except for the loops of \<open>capture\<close> and
  \<open>scan\<close>, which are partial and proved to return. Where a property is about microseconds it
  assumes a sample rate the radio accepts (\<open>rate_ok\<close>, 2 to 20 Msps), durations below
  \<open>2 ^ 40\<close> microseconds and buffers below \<open>2 ^ 50\<close> samples, which keeps every double
  involved within half a unit of its exact value. Counters (\<open>u64\<close>) and instants are unbounded
  numbers: they cannot be driven to wrap in the life of a process.

  WHAT IS NOT MODELLED. Log lines and what is printed (errors, reports and readings are
  values; of the messages only the server's own texts are spelled out); JSON text and UTF-8,
  whose parsers and printers are parameters, below the JSON values that are modelled; the argument parser (a flag is what it
  found); tokio and the sockets under it: queues are lists and tasks are step relations,
  quantified over every interleaving, but the runtime is not: dropping it ends all its tasks in one
  step, and of the signals only those with a handler count; the
  broadcast channel is a parameter; the USB driver and files, parameters too; the
  client's WebSocket library and event loop, whose choices the steps leave open, and its
  listeners, which are recorded as calls; the deployment files. The steps of a task between two of its await points
  are one step, and so is a pass of the radio thread, the only owner of the radio.
\<close>

end
